(* ===== verification/Prelude.thy ===== *)
theory Prelude
  imports Main "HOL-Library.Word"
begin

unbundle bit_operations_syntax

text \<open>
  Shared vocabulary of the development: the integer types of the Rust sources, the outcome of
  a Rust computation (a value, an error return or a panic), sequencing by \<^verbatim>\<open>?\<close> with and
  without state, arithmetic whose overflow behaviour depends on the cargo profile, checked
  slicing, and the bit lemmas the components share.
\<close>

section \<open>Integer types and cargo profiles\<close>

type_synonym u8 = "8 word"
type_synonym u16 = "16 word"
type_synonym u32 = "32 word"
type_synonym u64 = "64 word"

text \<open>\<^verbatim>\<open>usize\<close> is 32 bits wide on the RP2040; it is kept as a \<^typ>\<open>nat\<close> with the
  wrap-around written out where an operation can leave the range.\<close>

type_synonym usize = nat

text \<open>
  \<^verbatim>\<open>Cargo.toml\<close> sets \<^verbatim>\<open>overflow-checks = true\<close> and \<^verbatim>\<open>debug-assertions = true\<close> for
  the dev profile and both to \<^verbatim>\<open>false\<close> for release. The same source therefore panics in
  one build and wraps around in the other; the profile is an argument of every operation for
  which that matters.
\<close>

datatype profile = Dev | Release

section \<open>Outcomes\<close>

text \<open>\<^term>\<open>Ok\<close> and \<^term>\<open>Err\<close> are the constructors of Rust's \<^verbatim>\<open>Result\<close>; \<^term>\<open>Panic\<close> is an
  unwinding or aborting computation (index out of range, failed assertion, checked overflow).\<close>

datatype ('e, 'a) res = Ok 'a | Err 'e | Panic

primrec res_bind :: "('e, 'a) res \<Rightarrow> ('a \<Rightarrow> ('e, 'b) res) \<Rightarrow> ('e, 'b) res" where
  "res_bind (Ok x) f = f x"
| "res_bind (Err e) f = Err e"
| "res_bind Panic f = Panic"

primrec map_err :: "('e \<Rightarrow> 'd) \<Rightarrow> ('e, 'a) res \<Rightarrow> ('d, 'a) res" where
  "map_err g (Ok x) = Ok x"
| "map_err g (Err e) = Err (g e)"
| "map_err g Panic = Panic"

text \<open>\<^verbatim>\<open>.unwrap()\<close> turns an error into a panic; \<^verbatim>\<open>.unwrap_or(d)\<close> into a default.\<close>

primrec unwrap :: "('e, 'a) res \<Rightarrow> ('d, 'a) res" where
  "unwrap (Ok x) = Ok x"
| "unwrap (Err e) = Panic"
| "unwrap Panic = Panic"

primrec unwrap_or :: "('e, 'a) res \<Rightarrow> 'a \<Rightarrow> ('d, 'a) res" where
  "unwrap_or (Ok x) d = Ok x"
| "unwrap_or (Err e) d = Ok d"
| "unwrap_or Panic d = Panic"

primrec ok_or :: "'a option \<Rightarrow> 'e \<Rightarrow> ('e, 'a) res" where
  "ok_or None e = Err e"
| "ok_or (Some x) e = Ok x"

text \<open>\<^verbatim>\<open>assert!\<close> and \<^verbatim>\<open>assert_eq!\<close>: a failed assertion panics.\<close>

definition assert :: "bool \<Rightarrow> ('e, unit) res" where
  "assert c = (if c then Ok () else Panic)"

lemma assert_True [simp]: "assert True = Ok ()"
  by (simp add: assert_def)

text \<open>Sequencing of operations that also change a state: the changes made before an error
  return persist, as they do in the Rust code behind a \<^verbatim>\<open>&mut self\<close>.\<close>

definition st_bind :: "'s \<times> ('e, 'a) res \<Rightarrow> ('s \<Rightarrow> 'a \<Rightarrow> 's \<times> ('e, 'b) res) \<Rightarrow> 's \<times> ('e, 'b) res" where
  "st_bind m f = (case snd m of Ok x \<Rightarrow> f (fst m) x | Err e \<Rightarrow> (fst m, Err e) | Panic \<Rightarrow> (fst m, Panic))"

lemma st_bind_simps [simp]:
  "st_bind (s, Ok x) f = f s x"
  "st_bind (s, Err e) f = (s, Err e)"
  "st_bind (s, Panic) f = (s, Panic)"
  by (simp_all add: st_bind_def)

lemma res_bind_eq_Ok [simp]: "res_bind m f = Ok y \<longleftrightarrow> (\<exists>x. m = Ok x \<and> f x = Ok y)"
  by (cases m) auto

lemma res_bind_eq_Panic: "res_bind m f = Panic \<longleftrightarrow> m = Panic \<or> (\<exists>x. m = Ok x \<and> f x = Panic)"
  by (cases m) auto

lemma res_bind_assoc: "res_bind (res_bind m f) g = res_bind m (\<lambda>x. res_bind (f x) g)"
  by (cases m) auto

lemma map_err_eq_Ok [simp]: "map_err g m = Ok x \<longleftrightarrow> m = Ok x"
  by (cases m) auto

lemma map_err_eq_Panic [simp]: "map_err g m = Panic \<longleftrightarrow> m = Panic"
  by (cases m) auto

lemma ok_or_neq_Panic [simp]: "ok_or m e \<noteq> Panic"
  by (cases m) auto

lemma ok_or_eq_Ok [simp]: "ok_or m e = Ok x \<longleftrightarrow> m = Some x"
  by (cases m) auto

section \<open>Postconditions\<close>

text \<open>A step does not panic and leaves a state with a property.\<close>

definition post :: "('h \<Rightarrow> bool) \<Rightarrow> 'h \<times> ('e, 'a) res \<Rightarrow> bool" where
  "post Q m \<longleftrightarrow> snd m \<noteq> Panic \<and> Q (fst m)"

lemma post_pair [simp]: "post Q (h, r) \<longleftrightarrow> r \<noteq> Panic \<and> Q h"
  by (simp add: post_def)

lemma post_bind:
  assumes "post Q m" "\<And>h x. m = (h, Ok x) \<Longrightarrow> Q h \<Longrightarrow> post R (f h x)" "\<And>h. Q h \<Longrightarrow> R h"
  shows "post R (st_bind m f)"
  using assms by (cases m; cases "snd m") (auto simp: post_def)

lemma post_bind_same:
  assumes "post Q m" "\<And>h x. m = (h, Ok x) \<Longrightarrow> Q h \<Longrightarrow> post Q (f h x)"
  shows "post Q (st_bind m f)"
  using assms by (rule post_bind)

lemma st_bind_eq_Ok: "st_bind m f = (s', Ok y) \<longleftrightarrow> (\<exists>s x. m = (s, Ok x) \<and> f s x = (s', Ok y))"
  by (cases m; cases "snd m") auto

lemma post_fst: "post Q x \<Longrightarrow> x = (s, r) \<Longrightarrow> Q s"
  by (auto simp: post_def)

section \<open>Arithmetic that depends on the profile\<close>

definition word_sub :: "profile \<Rightarrow> 'a::len word \<Rightarrow> 'a word \<Rightarrow> ('e, 'a word) res" where
  "word_sub p a b = (if p = Dev \<and> a < b then Panic else Ok (a - b))"

definition word_add :: "profile \<Rightarrow> 'a::len word \<Rightarrow> 'a word \<Rightarrow> ('e, 'a word) res" where
  "word_add p a b = (if p = Dev \<and> 2 ^ LENGTH('a) \<le> unat a + unat b then Panic else Ok (a + b))"

definition usize_sub :: "profile \<Rightarrow> usize \<Rightarrow> usize \<Rightarrow> ('e, usize) res" where
  "usize_sub p a b = (if b \<le> a then Ok (a - b)
     else case p of Dev \<Rightarrow> Panic | Release \<Rightarrow> Ok (2 ^ 32 + a - b))"

definition usize_add :: "profile \<Rightarrow> usize \<Rightarrow> usize \<Rightarrow> ('e, usize) res" where
  "usize_add p a b = (if a + b < 2 ^ 32 then Ok (a + b)
     else case p of Dev \<Rightarrow> Panic | Release \<Rightarrow> Ok ((a + b) mod 2 ^ 32))"

lemma word_sub_ok: "b \<le> a \<Longrightarrow> word_sub p a b = Ok (a - b)"
  by (auto simp: word_sub_def)

lemma word_add_ok: "unat a + unat b < 2 ^ LENGTH('a) \<Longrightarrow> word_add p a b = Ok (a + b)"
  for a b :: "'a::len word"
  by (auto simp: word_add_def)

lemma usize_sub_ok [simp]: "b \<le> a \<Longrightarrow> usize_sub p a b = Ok (a - b)"
  by (simp add: usize_sub_def)

lemma usize_add_ok [simp]: "a + b < 2 ^ 32 \<Longrightarrow> usize_add p a b = Ok (a + b)"
  by (simp add: usize_add_def)

section \<open>Durations\<close>

text \<open>\<^verbatim>\<open>core::time::Duration\<close> as its number of nanoseconds. Multiplying a duration by a
  scalar panics on overflow in every profile.\<close>

type_synonym duration = nat

definition duration_max :: duration where
  "duration_max = 2 ^ 64 * 1000000000 - 1"

definition from_millis :: "nat \<Rightarrow> duration" where
  "from_millis n = n * 1000000"

definition from_micros :: "nat \<Rightarrow> duration" where
  "from_micros n = n * 1000"

definition duration_mul :: "nat \<Rightarrow> duration \<Rightarrow> ('e, duration) res" where
  "duration_mul k d = (if k * d \<le> duration_max then Ok (k * d) else Panic)"

section \<open>Word bounds\<close>

lemma unat_u8_le: "unat (x :: u8) \<le> 255"
  using unsigned_less [of x, where 'a = nat] by simp

lemma unat_u16_le: "unat (x :: u16) \<le> 65535"
  using unsigned_less [of x, where 'a = nat] by simp

lemma word_less_one_iff [simp]: "(x :: 'a::len word) < 1 \<longleftrightarrow> x = 0"
  by (simp add: word_less_nat_alt unat_eq_zero)

lemma uint_minus_one_word:
  assumes "x \<noteq> 0" shows "uint (x - 1 :: 'a::len word) = uint x - 1"
proof -
  have "0 < uint x" using assms by (simp add: uint_0_iff less_le)
  then show ?thesis
    using uint_sub_lem [of "1 :: 'a word" x] by simp
qed

lemma uint_plus_one_word:
  assumes "x < y" shows "uint (x + 1 :: 'a::len word) = uint x + 1"
proof -
  have "uint x < uint y" using assms by (simp add: word_less_def)
  moreover have "uint y < 2 ^ LENGTH('a)" by (rule uint_bounded)
  ultimately have "uint x + 1 < 2 ^ LENGTH('a)" by linarith
  then show ?thesis using uint_add_lem [of x "1 :: 'a word"] by simp
qed

section \<open>Bytes\<close>

lemma u8_bit_bound: "bit (b :: u8) n \<Longrightarrow> n < 8"
  using bit_imp_le_length [of b n] by simp

lemma unat_ucast_8_16 [simp]: "unat (ucast (b :: u8) :: u16) = unat b"
  using unat_u8_le [of b] by (simp add: unsigned_ucast_eq take_bit_eq_mod)

lemma u8_and_mask: "unat (b AND mask n :: u8) = unat b mod 2 ^ n"
proof -
  have "unat (b AND mask n) = take_bit n (unat b)"
    by (metis take_bit_eq_mask unsigned_take_bit_eq)
  also have "\<dots> = unat b mod 2 ^ n" by (rule take_bit_eq_mod)
  finally show ?thesis .
qed

lemma unat_and_masks:
  "unat (b AND 3 :: u8) = unat b mod 4" "unat (b AND 7 :: u8) = unat b mod 8"
  "unat (b AND 31 :: u8) = unat b mod 32" "unat (b AND 63 :: u8) = unat b mod 64"
  "unat (b AND 127 :: u8) = unat b mod 128"
  using u8_and_mask [of b 2] u8_and_mask [of b 3] u8_and_mask [of b 5] u8_and_mask [of b 6]
    u8_and_mask [of b 7] by (simp_all add: mask_eq_exp_minus_1)

text \<open>Two bytes, most significant first, combined into a \<^verbatim>\<open>u16\<close>.\<close>

lemma unat_push_8: "unat (push_bit 8 (ucast (hi :: u8)) :: u16) = unat hi * 256"
  using unat_u8_le [of hi] by (simp add: push_bit_eq_mult unat_word_ariths)

lemma unat_be16: "unat (push_bit 8 (ucast (hi :: u8)) OR ucast (lo :: u8) :: u16) = unat hi * 256 + unat lo"
proof -
  have "push_bit 8 (ucast hi) AND ucast lo = (0 :: u16)"
    using u8_bit_bound [of lo] by (force intro!: bit_eqI simp: bit_simps)
  then have "push_bit 8 (ucast hi) OR ucast lo = (push_bit 8 (ucast hi) + ucast lo :: u16)"
    by (simp add: disjunctive_add_eq_or)
  then show ?thesis
    using unat_u8_le [of hi] unat_u8_le [of lo] by (simp add: unat_word_ariths unat_push_8)
qed

lemma unat_ucast_16_8: "unat (ucast (a :: u16) :: u8) = unat a mod 256"
  by (simp add: unsigned_ucast_eq take_bit_eq_mod)

lemma u16_and_mask: "unat (a AND mask n :: u16) = unat a mod 2 ^ n"
proof -
  have "unat (a AND mask n) = take_bit n (unat a)"
    by (metis take_bit_eq_mask unsigned_take_bit_eq)
  also have "\<dots> = unat a mod 2 ^ n" by (rule take_bit_eq_mod)
  finally show ?thesis .
qed

lemma u16_and_masks: "unat (a AND 3 :: u16) = unat a mod 4" "unat (a AND 255 :: u16) = unat a mod 256"
  using u16_and_mask [of a 2] u16_and_mask [of a 8] by (simp_all add: mask_eq_exp_minus_1)

lemma u16_drop_8: "unat (drop_bit 8 a :: u16) = unat a div 256"
  by (simp add: drop_bit_eq_div unat_div)

text \<open>An \<^verbatim>\<open>|\<close> of fields that do not overlap is their sum.\<close>

lemma u8_less_masked:
  assumes "unat x < 2 ^ n" shows "x AND mask n = (x :: u8)"
  using assms by (simp add: word_unat_eq_iff u8_and_mask)

lemma u8_or_disjoint:
  assumes "a AND mask n = 0" "unat x < 2 ^ n" "unat a + unat x < 256"
  shows "unat (a OR x :: u8) = unat a + unat x"
proof -
  have "a AND x = a AND (x AND mask n)" by (simp only: u8_less_masked [OF assms(2)])
  also have "\<dots> = 0" by (metis assms(1) and.commute and.left_commute and_zero_eq)
  finally have "a OR x = a + x" by (simp add: disjunctive_add_eq_or)
  then show ?thesis using assms(3) by (simp add: unat_word_ariths)
qed

section \<open>Slices\<close>

text \<open>\<^verbatim>\<open>slice.get(s..e)\<close>, \<^verbatim>\<open>slice.get(i)\<close> and the panicking forms \<^verbatim>\<open>&slice[s..]\<close> and
  \<^verbatim>\<open>slice[i]\<close>.\<close>

definition slice_get :: "'a list \<Rightarrow> nat \<Rightarrow> nat \<Rightarrow> 'a list option" where
  "slice_get xs s e = (if s \<le> e \<and> e \<le> length xs then Some (take (e - s) (drop s xs)) else None)"

definition elem_get :: "'a list \<Rightarrow> nat \<Rightarrow> 'a option" where
  "elem_get xs i = (if i < length xs then Some (xs ! i) else None)"

definition index :: "'a list \<Rightarrow> nat \<Rightarrow> ('e, 'a) res" where
  "index xs i = (if i < length xs then Ok (xs ! i) else Panic)"

definition slice_from :: "'a list \<Rightarrow> nat \<Rightarrow> ('e, 'a list) res" where
  "slice_from xs s = (if s \<le> length xs then Ok (drop s xs) else Panic)"

lemma index_Cons_0 [simp]: "index (x # xs) 0 = Ok x"
  by (simp add: index_def)

lemma index_Cons_Suc [simp]: "index (x # xs) (Suc i) = index xs i"
  by (simp add: index_def)

lemma index_Nil [simp]: "index [] i = Panic"
  by (simp add: index_def)

lemma elem_get_simps [simp]:
  "elem_get [] i = None"
  "elem_get (x # xs) 0 = Some x"
  "elem_get (x # xs) (Suc i) = elem_get xs i"
  by (simp_all add: elem_get_def)

lemma slice_get_length: "slice_get xs s e = Some ys \<Longrightarrow> length ys = e - s"
  by (auto simp: slice_get_def split: if_splits)

lemma slice_get_map_nth:
  "s \<le> e \<Longrightarrow> e \<le> length xs \<Longrightarrow> slice_get xs s e = Some (map (\<lambda>i. xs ! i) [s..<e])"
  by (auto simp: slice_get_def intro!: nth_equalityI)

end
