(* ===== verification/Function_Flags.thy ===== *)
theory Function_Flags
  imports Prelude
begin

text \<open>
  Function groups F0 (FL) to F31 (\<^verbatim>\<open>dcc/src/lib.rs\<close>): the bit flags, their groups and the
  update of a flag set by a function-group instruction. The abstract view of a flag word is the
  set of active function numbers.
\<close>

section \<open>Flags and groups\<close>

type_synonym function_group_flags = u32

text \<open>The constants \<^verbatim>\<open>FL\<close> (number 0) to \<^verbatim>\<open>F31\<close> of the \<^verbatim>\<open>bitflags!\<close> block: function \<^term>\<open>n\<close> is
  bit \<^term>\<open>n\<close>.\<close>

definition func_flag :: "nat \<Rightarrow> function_group_flags" where
  "func_flag n = push_bit n 1"

definition FG_1 :: function_group_flags where
  "FG_1 = func_flag 0 OR func_flag 1 OR func_flag 2 OR func_flag 3 OR func_flag 4"

definition FG_2_0 :: function_group_flags where
  "FG_2_0 = func_flag 9 OR func_flag 10 OR func_flag 11 OR func_flag 12"

definition FG_2_1 :: function_group_flags where
  "FG_2_1 = func_flag 5 OR func_flag 6 OR func_flag 7 OR func_flag 8"

definition FG_FEATURE_13_20 :: function_group_flags where
  "FG_FEATURE_13_20 = func_flag 13 OR func_flag 14 OR func_flag 15 OR func_flag 16
     OR func_flag 17 OR func_flag 18 OR func_flag 19 OR func_flag 20"

definition FG_FEATURE_21_28 :: function_group_flags where
  "FG_FEATURE_21_28 = func_flag 21 OR func_flag 22 OR func_flag 23 OR func_flag 24
     OR func_flag 25 OR func_flag 26 OR func_flag 27 OR func_flag 28"

definition FG_FEATURE_29_31 :: function_group_flags where
  "FG_FEATURE_29_31 = func_flag 29 OR func_flag 30 OR func_flag 31"

text \<open>\<^verbatim>\<open>bitflags\<close>' \<^verbatim>\<open>from_bits_truncate\<close> keeps the bits that belong to a declared flag.\<close>

definition all_flags :: function_group_flags where
  "all_flags = foldr (\<lambda>n w. func_flag n OR w) [0..<32] 0"

definition from_bits_truncate :: "u32 \<Rightarrow> function_group_flags" where
  "from_bits_truncate b = b AND all_flags"

record function_group =
  group_mask :: function_group_flags
  fg_flags :: function_group_flags

definition fg_new :: "function_group_flags \<Rightarrow> function_group_flags \<Rightarrow> function_group" where
  "fg_new m f = \<lparr>group_mask = m, fg_flags = f AND m\<rparr>"

definition union_with_mask :: "function_group \<Rightarrow> function_group_flags \<Rightarrow> function_group_flags" where
  "union_with_mask fg other = (other AND NOT (group_mask fg)) OR fg_flags fg"

section \<open>The set of active functions\<close>

definition active :: "function_group_flags \<Rightarrow> nat set" where
  "active w = {n. bit w n}"

definition fg_wf :: "function_group \<Rightarrow> bool" where
  "fg_wf fg \<longleftrightarrow> active (fg_flags fg) \<subseteq> active (group_mask fg)"

lemma bit_func_flag [simp]: "bit (func_flag n) m \<longleftrightarrow> m = n \<and> n < 32"
  by (auto simp: func_flag_def bit_simps)

lemma active_or [simp]: "active (a OR b) = active a \<union> active b"
  by (auto simp: active_def bit_or_iff)

lemma active_and [simp]: "active (a AND b) = active a \<inter> active b"
  by (auto simp: active_def bit_and_iff)

lemma active_0 [simp]: "active 0 = {}"
  by (simp add: active_def)

lemma active_func_flag [simp]: "n < 32 \<Longrightarrow> active (func_flag n) = {n}"
  by (auto simp: active_def)

lemma active_bound: "n \<in> active w \<Longrightarrow> n < 32"
  using bit_imp_le_length [of w n] by (simp add: active_def)

lemma active_inject [simp]: "active a = active b \<longleftrightarrow> a = b"
  by (auto simp: active_def intro!: bit_eqI)

lemma active_and_not: "active (a AND NOT b) = active a - active b"
  using active_bound by (auto simp: active_def bit_and_iff bit_not_iff)

lemma active_foldr: "\<forall>n \<in> set ns. n < 32 \<Longrightarrow> active (foldr (\<lambda>n w. func_flag n OR w) ns 0) = set ns"
  by (induction ns) auto

lemma active_all_flags: "active all_flags = {..<32}"
  by (simp add: all_flags_def active_foldr atLeast_upt lessThan_atLeast0)

lemma from_bits_truncate_id [simp]: "from_bits_truncate b = b"
proof -
  have "active (b AND all_flags) = active b"
    using active_bound by (auto simp: active_all_flags)
  then show ?thesis by (simp add: from_bits_truncate_def del: active_and)
qed

lemma active_groups:
  "active FG_1 = {0..4}" "active FG_2_0 = {9..12}" "active FG_2_1 = {5..8}"
  "active FG_FEATURE_13_20 = {13..20}" "active FG_FEATURE_21_28 = {21..28}"
  "active FG_FEATURE_29_31 = {29..31}"
  by (auto simp: FG_1_def FG_2_0_def FG_2_1_def FG_FEATURE_13_20_def FG_FEATURE_21_28_def
      FG_FEATURE_29_31_def)

lemma fg_new_wf: "fg_wf (fg_new m f)"
  by (simp add: fg_wf_def fg_new_def)

lemma active_union_with_mask:
  "active (union_with_mask fg w) = (active w - active (group_mask fg)) \<union> active (fg_flags fg)"
  by (simp add: union_with_mask_def active_and_not del: active_and)

end
