(* ===== verification/Motor_Types.thy ===== *)
theory Motor_Types
  imports Prelude
begin

text \<open>
  The value types of the \<^verbatim>\<open>motor\<close> crate (\<^verbatim>\<open>motor/src/lib.rs\<close>): direction, speed step and
  velocity setpoint.
\<close>

datatype direction = Forward | Reverse

datatype speed_step = Stop | EmergencyStop | Num u8

definition idx :: "speed_step \<Rightarrow> u8" where
  "idx s = (case s of Stop \<Rightarrow> 0 | EmergencyStop \<Rightarrow> 0 | Num n \<Rightarrow> n)"

record velocity_setpoint =
  vs_speed_step :: speed_step
  vs_direction :: direction

definition velocity_default :: velocity_setpoint where
  "velocity_default = \<lparr>vs_speed_step = Stop, vs_direction = Forward\<rparr>"

definition velocity_new :: "speed_step \<Rightarrow> direction \<Rightarrow> velocity_setpoint" where
  "velocity_new s d = \<lparr>vs_speed_step = s, vs_direction = d\<rparr>"

text \<open>\<^verbatim>\<open>VelocitySetpoint::equivalent\<close> compares the step index, so \<^term>\<open>Stop\<close>,
  \<^term>\<open>EmergencyStop\<close> and \<^term>\<open>Num 0\<close> are interchangeable.\<close>

definition equivalent :: "velocity_setpoint \<Rightarrow> velocity_setpoint \<Rightarrow> bool" where
  "equivalent a b \<longleftrightarrow> idx (vs_speed_step a) = idx (vs_speed_step b) \<and> vs_direction a = vs_direction b"

lemma idx_simps [simp]: "idx Stop = 0" "idx EmergencyStop = 0" "idx (Num n) = n"
  by (simp_all add: idx_def)

lemma equivalent_refl [simp]: "equivalent a a"
  by (simp add: equivalent_def)

lemma equivalent_sym: "equivalent a b \<longleftrightarrow> equivalent b a"
  by (auto simp: equivalent_def)

lemma direction_neq: "d \<noteq> e \<Longrightarrow> e' \<noteq> e \<Longrightarrow> d = (e' :: direction)"
  by (cases d; cases e; cases e') auto

end
