(* ===== verification/Packet.thy ===== *)
theory Packet
  imports Function_Flags Motor_Types
begin

text \<open>
  DCC packets and their instructions: \<^verbatim>\<open>dcc/src/transport/packet.rs\<close> with the address helpers
  of \<^verbatim>\<open>dcc/src/transport/mod.rs\<close> and \<^verbatim>\<open>dcc/src/lib.rs\<close>. A packet's data excludes the
  checksum byte.
\<close>

section \<open>Packets and addresses\<close>

datatype packet_error = Undersize | Oversize | InvalidChecksum | InvalidAddress | InvalidInstruction

text \<open>\<^verbatim>\<open>heapless::Vec<u8, 6>\<close>: at most six bytes.\<close>

record packet =
  pkt_data :: "u8 list"

definition is_basic_address :: "u8 list \<Rightarrow> (packet_error, bool) res" where
  "is_basic_address raw = res_bind (index raw 0) (\<lambda>b. Ok (b \<le> 127))"

definition is_mf_extended_address :: "u8 list \<Rightarrow> (packet_error, bool) res" where
  "is_mf_extended_address raw =
     (if length raw < 2 then Ok False
      else res_bind (index raw 0) (\<lambda>b. Ok (192 \<le> b \<and> b \<le> 231)))"

definition read_extended_address :: "u8 list \<Rightarrow> ('e, u16) res" where
  "read_extended_address d =
     (if \<not> length d \<ge> 2 then Panic
      else res_bind (index d 0) (\<lambda>msb. res_bind (index d 1) (\<lambda>lsb.
        Ok (push_bit 8 (ucast (msb AND 63)) OR ucast lsb))))"

definition packet_addr :: "packet \<Rightarrow> (packet_error, u16) res" where
  "packet_addr p =
     res_bind (is_basic_address (pkt_data p)) (\<lambda>basic.
       if basic then res_bind (index (pkt_data p) 0) (\<lambda>b. Ok (ucast (b AND 127)))
       else res_bind (is_mf_extended_address (pkt_data p)) (\<lambda>ext.
         if ext then read_extended_address (take 2 (pkt_data p))
         else Err InvalidAddress))"

definition service_mode_candidate :: "packet \<Rightarrow> (packet_error, bool) res" where
  "service_mode_candidate p = res_bind (index (pkt_data p) 0) (\<lambda>b. Ok (112 \<le> b \<and> b \<le> 127))"

definition address_length :: "packet \<Rightarrow> (packet_error, nat) res" where
  "address_length p =
     res_bind (is_basic_address (pkt_data p)) (\<lambda>basic.
       if basic then Ok 1
       else res_bind (is_mf_extended_address (pkt_data p)) (\<lambda>ext.
         if ext then Ok 2 else Err InvalidAddress))"

definition raw_instruction_data :: "packet \<Rightarrow> (packet_error, u8 list) res" where
  "raw_instruction_data p = res_bind (address_length p) (slice_from (pkt_data p))"

definition is_reset :: "packet \<Rightarrow> bool" where
  "is_reset p \<longleftrightarrow> length (pkt_data p) \<ge> 2 \<and> pkt_data p ! 0 = 0 \<and> pkt_data p ! 1 = 0"

section \<open>Operation-mode instructions\<close>

datatype operation_instruction_type =
  DecoderControl | AdvancedOperationsType | SpeedDirectionReverse | SpeedDirectionForward
| FunctionGroup1 | FunctionGroup2 | FeatureExpansion | CVAccess

text \<open>The \<^verbatim>\<open>TryFrom<u8>\<close> generated by \<^verbatim>\<open>int_enum\<close> from the \<^verbatim>\<open>repr(u8)\<close> discriminants.\<close>

definition operation_instruction_type_of :: "u8 \<Rightarrow> operation_instruction_type option" where
  "operation_instruction_type_of c =
     (if c = 0 then Some DecoderControl
      else if c = 1 then Some AdvancedOperationsType
      else if c = 2 then Some SpeedDirectionReverse
      else if c = 3 then Some SpeedDirectionForward
      else if c = 4 then Some FunctionGroup1
      else if c = 5 then Some FunctionGroup2
      else if c = 6 then Some FeatureExpansion
      else if c = 7 then Some CVAccess
      else None)"

datatype advanced_operations_instruction = SpeedStepControl velocity_setpoint

datatype operation_mode_instruction =
  AdvancedOperations advanced_operations_instruction
| FunctionGroupInstr function_group

text \<open>\<^verbatim>\<open>(instruction & (1 << n)) != 0\<close> and the conditional \<^verbatim>\<open>flags |= F\<close> under it.\<close>

definition bit_set :: "u8 \<Rightarrow> nat \<Rightarrow> bool" where
  "bit_set b n \<longleftrightarrow> b AND push_bit n 1 \<noteq> 0"

definition flag_if :: "u8 \<Rightarrow> nat \<Rightarrow> nat \<Rightarrow> function_group_flags \<Rightarrow> function_group_flags" where
  "flag_if b n f flags = (if bit_set b n then flags OR func_flag f else flags)"

definition parse_fg1 :: "u8 \<Rightarrow> function_group" where
  "parse_fg1 b =
     (let flags = 0;
          flags = flag_if b 0 1 flags;
          flags = flag_if b 1 2 flags;
          flags = flag_if b 2 3 flags;
          flags = flag_if b 3 4 flags;
          flags = flag_if b 4 0 flags
      in fg_new FG_1 flags)"

definition parse_fg2 :: "u8 \<Rightarrow> function_group" where
  "parse_fg2 b =
     (let s_bit = drop_bit 4 b AND 1 in
      if s_bit = 1 then
        let flags = 0;
            flags = flag_if b 0 5 flags;
            flags = flag_if b 1 6 flags;
            flags = flag_if b 2 7 flags;
            flags = flag_if b 3 8 flags
        in fg_new FG_2_1 flags
      else
        let flags = 0;
            flags = flag_if b 0 9 flags;
            flags = flag_if b 1 10 flags;
            flags = flag_if b 2 11 flags;
            flags = flag_if b 3 12 flags
        in fg_new FG_2_0 flags)"

definition parse_feature_expansion :: "u8 \<Rightarrow> u8 \<Rightarrow> function_group option" where
  "parse_feature_expansion first second =
     (if first = 0b11011110
      then Some (fg_new FG_FEATURE_13_20 (from_bits_truncate (push_bit 13 (ucast second))))
      else if first = 0b11011111
      then Some (fg_new FG_FEATURE_21_28 (from_bits_truncate (push_bit 21 (ucast second))))
      else if first = 0b11011000
      then Some (fg_new FG_FEATURE_29_31 (from_bits_truncate (push_bit 29 (ucast (second AND 0b111)))))
      else None)"

text \<open>Lines 142--162: the 128 speed step instruction.\<close>

definition parse_speed_step :: "u8 list \<Rightarrow> (packet_error, operation_mode_instruction) res" where
  "parse_speed_step d =
     res_bind (ok_or (elem_get d 1) Undersize) (\<lambda>sv.
       res_bind (let dir = drop_bit 7 (sv AND 0b10000000) in
           if dir = 0 then Ok Reverse else if dir = 1 then Ok Forward else Err InvalidInstruction)
         (\<lambda>direction.
           let speed = sv AND 0b01111111;
               step = (if speed = 0 then Stop else if speed = 1 then EmergencyStop else Num (speed - 1))
           in Ok (AdvancedOperations (SpeedStepControl \<lparr>vs_speed_step = step, vs_direction = direction\<rparr>))))"

text \<open>\<^verbatim>\<open>TryFrom<&Packet> for OperationModeInstruction\<close>.\<close>

definition parse_operation :: "packet \<Rightarrow> (packet_error, operation_mode_instruction) res" where
  "parse_operation p =
     res_bind (address_length p) (\<lambda>n.
     res_bind (slice_from (pkt_data p) n) (\<lambda>d.
     res_bind (ok_or (elem_get d 0) Undersize) (\<lambda>first.
     res_bind (ok_or (operation_instruction_type_of (drop_bit 5 first)) InvalidInstruction) (\<lambda>t.
       case t of
         DecoderControl \<Rightarrow> Err InvalidInstruction
       | AdvancedOperationsType \<Rightarrow>
           (if first AND 0b00011111 = 0b11111 then parse_speed_step d else Err InvalidInstruction)
       | SpeedDirectionReverse \<Rightarrow> Err InvalidInstruction
       | SpeedDirectionForward \<Rightarrow> Err InvalidInstruction
       | FunctionGroup1 \<Rightarrow> Ok (FunctionGroupInstr (parse_fg1 first))
       | FunctionGroup2 \<Rightarrow> Ok (FunctionGroupInstr (parse_fg2 first))
       | FeatureExpansion \<Rightarrow>
           res_bind (ok_or (elem_get d 1) Undersize) (\<lambda>second.
             ok_or (map_option FunctionGroupInstr (parse_feature_expansion first second)) InvalidInstruction)
       | CVAccess \<Rightarrow> Err InvalidInstruction))))"

section \<open>Service-mode instructions\<close>

datatype service_instruction_type = ManipulateBit | VerifyByte | WriteByte

definition service_instruction_type_of :: "u8 \<Rightarrow> service_instruction_type option" where
  "service_instruction_type_of c =
     (if c = 2 then Some ManipulateBit else if c = 1 then Some VerifyByte
      else if c = 3 then Some WriteByte else None)"

definition instruction_type :: "packet \<Rightarrow> (packet_error, service_instruction_type) res" where
  "instruction_type p =
     (if pkt_data p = [] then Err Undersize
      else res_bind (index (pkt_data p) 0) (\<lambda>b.
        ok_or (service_instruction_type_of (drop_bit 2 b AND 0b11)) InvalidInstruction))"

definition cv_address :: "packet \<Rightarrow> (packet_error, u16) res" where
  "cv_address p =
     (if length (pkt_data p) < 2 then Err Undersize
      else res_bind (index (pkt_data p) 0) (\<lambda>b0. res_bind (index (pkt_data p) 1) (\<lambda>b1.
        Ok (push_bit 8 (ucast (b0 AND 0b11)) + ucast b1 + 1))))"

definition cv_data :: "packet \<Rightarrow> (packet_error, u8) res" where
  "cv_data p = (if length (pkt_data p) < 3 then Err Undersize else index (pkt_data p) 2)"

section \<open>Recipients\<close>

definition BROADCAST_ADDRESS :: u16 where
  "BROADCAST_ADDRESS = 0xFFFF"

definition is_broadcast :: "packet \<Rightarrow> ('e, bool) res" where
  "is_broadcast p =
     unwrap_or (res_bind (packet_addr p) (\<lambda>a. Ok (a = BROADCAST_ADDRESS))) False"

section \<open>Encoders\<close>

text \<open>The packet builders of the test module of \<^verbatim>\<open>dcc/src/handler.rs\<close>: the sending side of the
  formats the functions above read.\<close>

definition operation_packet :: "u16 \<Rightarrow> u8 list \<Rightarrow> packet" where
  "operation_packet addr instr =
     \<lparr>pkt_data = (if addr \<le> 127 then [ucast addr]
        else [0xC0 OR ucast (drop_bit 8 addr), ucast (addr AND 0xFF)]) @ instr\<rparr>"

definition service_packet :: "u8 \<Rightarrow> u16 \<Rightarrow> u8 \<Rightarrow> packet" where
  "service_packet code cv_addr v =
     (let a = cv_addr - 1; addr_high = ucast (drop_bit 8 a AND 0x03); addr_low = ucast (a AND 0xFF)
      in \<lparr>pkt_data = [0x70 OR push_bit 2 code OR addr_high, addr_low, v, 0]\<rparr>)"

definition service_verify_packet :: "u16 \<Rightarrow> u8 \<Rightarrow> packet" where
  "service_verify_packet cv_addr v = service_packet 0b01 cv_addr v"

definition service_write_packet :: "u16 \<Rightarrow> u8 \<Rightarrow> packet" where
  "service_write_packet cv_addr v = service_packet 0b11 cv_addr v"

definition service_bit_verify_packet :: "u16 \<Rightarrow> u8 \<Rightarrow> u8 \<Rightarrow> packet" where
  "service_bit_verify_packet cv_addr bit_pos bit_val =
     service_packet 0b10 cv_addr (0b11100000 OR push_bit 3 bit_val OR bit_pos)"

definition service_bit_write_packet :: "u16 \<Rightarrow> u8 \<Rightarrow> u8 \<Rightarrow> packet" where
  "service_bit_write_packet cv_addr bit_pos bit_val =
     service_packet 0b10 cv_addr (0b11110000 OR push_bit 3 bit_val OR bit_pos)"

text \<open>The speed byte of the 128 speed step instruction for a given velocity.\<close>

definition speed_byte :: "velocity_setpoint \<Rightarrow> u8" where
  "speed_byte v =
     (case vs_direction v of Forward \<Rightarrow> 0b10000000 | Reverse \<Rightarrow> 0)
     OR (case vs_speed_step v of Stop \<Rightarrow> 0 | EmergencyStop \<Rightarrow> 1 | Num n \<Rightarrow> n + 1)"

section \<open>Addresses\<close>

lemma is_basic_address_Cons [simp]: "is_basic_address (b # r) = Ok (unat b \<le> 127)"
  by (simp add: is_basic_address_def word_le_nat_alt)

lemma is_mf_extended_address_Cons [simp]:
  "is_mf_extended_address (b # r) = Ok (r \<noteq> [] \<and> 192 \<le> unat b \<and> unat b \<le> 231)"
  by (cases r) (simp_all add: is_mf_extended_address_def word_le_nat_alt)

lemma is_basic_address_Nil [simp]: "is_basic_address [] = Panic"
  by (simp add: is_basic_address_def)

lemma is_mf_extended_address_Nil [simp]: "is_mf_extended_address [] = Ok False"
  by (simp add: is_mf_extended_address_def)

lemma read_extended_address_Cons [simp]:
  "read_extended_address (b # c # r) = Ok (push_bit 8 (ucast (b AND 63)) OR ucast c)"
  by (simp add: read_extended_address_def del: push_bit_numeral)

lemma packet_addr_Nil [simp]: "pkt_data p = [] \<Longrightarrow> packet_addr p = Panic"
  by (simp add: packet_addr_def)

lemma u8_and_127_id: "unat b \<le> 127 \<Longrightarrow> b AND 127 = (b :: u8)"
  by (simp add: word_unat_eq_iff unat_and_masks)

lemma packet_addr_basic: "pkt_data p = b # r \<Longrightarrow> unat b \<le> 127 \<Longrightarrow> packet_addr p = Ok (ucast b)"
  by (simp add: packet_addr_def u8_and_127_id)

lemma packet_addr_extended:
  assumes "pkt_data p = b # c # r" "192 \<le> unat b" "unat b \<le> 231"
  shows "\<exists>a. packet_addr p = Ok a \<and> unat a = (unat b - 192) * 256 + unat c"
proof -
  have "unat b mod 64 = unat b - 192"
    using assms(2,3) by (simp add: mod_nat_eqI)
  with assms show ?thesis
    by (simp add: packet_addr_def unat_be16 unat_and_masks del: push_bit_numeral)
qed

lemma packet_addr_other:
  "pkt_data p = b # r \<Longrightarrow> \<not> unat b \<le> 127 \<Longrightarrow> r = [] \<or> \<not> (192 \<le> unat b \<and> unat b \<le> 231) \<Longrightarrow>
   packet_addr p = Err InvalidAddress"
  by (auto simp: packet_addr_def)

text \<open>Every packet's address falls into one of these cases.\<close>

lemma packet_addr_cases:
  obtains "pkt_data p = []" "packet_addr p = Panic"
  | b r where "pkt_data p = b # r" "unat b \<le> 127" "packet_addr p = Ok (ucast b)"
  | b c r a where "pkt_data p = b # c # r" "192 \<le> unat b" "unat b \<le> 231" "packet_addr p = Ok a"
      "unat a = (unat b - 192) * 256 + unat c"
  | b r where "pkt_data p = b # r" "127 < unat b" "packet_addr p = Err InvalidAddress"
proof (cases "pkt_data p")
  case Nil
  then show thesis using that(1) by simp
next
  case (Cons b r)
  show thesis
  proof (cases "unat b \<le> 127")
    case True
    then show thesis using that(2) packet_addr_basic Cons by blast
  next
    case False
    then show thesis
      using that(3) [of b "hd r" "tl r"] that(4) [OF Cons] Cons packet_addr_other [OF Cons False]
        packet_addr_extended [of p b "hd r" "tl r"] by (cases r) force+
  qed
qed

lemma packet_addr_bound: "packet_addr p = Ok a \<Longrightarrow> unat a \<le> 10239"
proof (cases rule: packet_addr_cases [of p])
  case (3 b c r a')
  then show "packet_addr p = Ok a \<Longrightarrow> unat a \<le> 10239" using unat_u8_le [of c] by simp
qed auto

lemma u8_less_4: "unat c < 4 \<Longrightarrow> c = 0 \<or> c = 1 \<or> c = 2 \<or> c = (3 :: u8)"
proof -
  assume "unat c < 4"
  then consider "unat c = unat (0 :: u8)" | "unat c = unat (1 :: u8)" | "unat c = unat (2 :: u8)"
    | "unat c = unat (3 :: u8)" by fastforce
  then show ?thesis by cases (simp_all only: word_unat_eq_iff [symmetric] simp_thms)
qed

lemma operation_packet_extended:
  assumes "127 < unat addr" "unat addr < 16384"
  obtains b c where "operation_packet addr instr = \<lparr>pkt_data = b # c # instr\<rparr>"
    "unat b = 192 + unat addr div 256" "unat c = unat addr mod 256"
proof -
  let ?hi = "ucast (drop_bit 8 addr) :: u8"
  have hi: "unat ?hi = unat addr div 256"
    using assms(2) by (simp only: unat_ucast_16_8 u16_drop_8) simp
  have "unat (0xC0 OR ?hi) = 192 + unat addr div 256"
    using u8_or_disjoint [of "0xC0" 6 ?hi] hi assms(2) by (simp add: mask_eq_exp_minus_1)
  then show thesis
    using that [of "0xC0 OR ?hi" "ucast (addr AND 0xFF)"] assms(1)
    by (simp add: operation_packet_def word_le_nat_alt unat_ucast_16_8 u16_and_masks)
qed

lemma operation_packet_cases:
  assumes "unat addr < 16384"
  obtains (short) b where "unat addr \<le> 127" "operation_packet addr d = \<lparr>pkt_data = b # d\<rparr>" "unat b = unat addr"
  | (long) b c where "127 < unat addr" "operation_packet addr d = \<lparr>pkt_data = b # c # d\<rparr>"
      "unat b = 192 + unat addr div 256"
proof (cases "unat addr \<le> 127")
  case True
  then have "unat (ucast addr :: u8) = unat addr" by (simp add: unsigned_ucast_eq take_bit_nat_eq_self)
  then show thesis using short True by (simp add: operation_packet_def word_le_nat_alt)
next
  case False
  then have "127 < unat addr" by simp
  then show thesis using operation_packet_extended [of addr d thesis] assms long by blast
qed

lemma operation_packet_not_reset:
  assumes "unat addr < 16384" "hd d \<noteq> 0" "d \<noteq> []"
  shows "\<not> is_reset (operation_packet addr d)"
  using assms(1)
proof (cases rule: operation_packet_cases [where d = d])
  case (short b)
  then show ?thesis using assms(2,3) by (cases d) (auto simp: is_reset_def)
next
  case (long b c)
  then have "b \<noteq> 0" by auto
  then show ?thesis using long(2) by (simp add: is_reset_def)
qed

lemma service_packet_bytes:
  assumes "1 \<le> unat cv" "unat cv \<le> 1024" "unat code < 4"
  obtains b c where "service_packet code cv v = \<lparr>pkt_data = [b, c, v, 0]\<rparr>"
    "unat b = 112 + unat code * 4 + (unat cv - 1) div 256" "unat c = (unat cv - 1) mod 256"
proof -
  have a: "unat (cv - 1) = unat cv - 1"
    using assms(1) by (metis not_one_le_zero unat_0 unat_minus_one)
  let ?hi = "ucast (drop_bit 8 (cv - 1) AND 3) :: u8"
  have "unat cv - 1 < 1024" using assms(2) by simp
  then have hi: "unat ?hi = (unat cv - 1) div 256"
    by (simp only: unat_ucast_16_8 u16_drop_8 u16_and_masks a) simp
  consider "code = 0" | "code = 1" | "code = 2" | "code = 3"
    using u8_less_4 [OF assms(3)] by blast
  then have "unat (0x70 OR push_bit 2 code OR ?hi) = 112 + unat code * 4 + unat ?hi"
    using hi assms(2) u8_or_disjoint [of "0x70 OR push_bit 2 code" 2 ?hi]
    by cases (simp_all add: mask_eq_exp_minus_1 or.assoc [symmetric])
  then show thesis
    using that [of "0x70 OR push_bit 2 code OR ?hi" "ucast ((cv - 1) AND 0xFF)"] hi a
    by (simp only: service_packet_def Let_def unat_ucast_16_8 u16_and_masks) simp
qed

definition valid_velocity :: "velocity_setpoint \<Rightarrow> bool" where
  "valid_velocity v \<longleftrightarrow> (case vs_speed_step v of Num n \<Rightarrow> 1 \<le> unat n \<and> unat n \<le> 126 | _ \<Rightarrow> True)"

lemma word_and_exp: "b AND 2 ^ n = (if bit b n then 2 ^ n else (0 :: 'a::len word))"
  by (auto intro!: bit_eqI simp: bit_simps)

lemma and_128: "b AND 128 = (if bit b 7 then 128 else (0 :: u8))"
  using word_and_exp [of b 7] by simp

lemma u8_and_255: "b AND 255 = (b :: u8)"
  using u8_and_mask [of b 8] unat_u8_le [of b] by (simp add: mask_eq_exp_minus_1 word_unat_eq_iff)

lemma u8_split_top: "(b AND 128) OR (b AND 127) = (b :: u8)"
proof -
  have "(b AND 128) OR (b AND 127) = b AND (128 OR 127)" by (simp only: bit.conj_disj_distrib)
  also have "\<dots> = b" by (simp add: u8_and_255)
  finally show ?thesis .
qed

lemma parse_speed_step_byte:
  "\<exists>v. parse_speed_step (x # b # r) = Ok (AdvancedOperations (SpeedStepControl v))
     \<and> valid_velocity v \<and> speed_byte v = b"
proof -
  define s where "s = b AND 127"
  define step where "step = (if s = 0 then Stop else if s = 1 then EmergencyStop else Num (s - 1))"
  define d where "d = (if bit b 7 then Forward else Reverse)"
  have parse: "parse_speed_step (x # b # r)
      = Ok (AdvancedOperations (SpeedStepControl \<lparr>vs_speed_step = step, vs_direction = d\<rparr>))"
    by (simp add: parse_speed_step_def and_128 s_def step_def d_def)
  have le: "unat s \<le> 127" by (simp add: s_def unat_and_masks) 
  have "unat (s - 1) = unat s - 1" if "s \<noteq> 0" using that by (simp add: unat_minus_one)
  then have valid: "valid_velocity \<lparr>vs_speed_step = step, vs_direction = d\<rparr>"
    using le by (auto simp: valid_velocity_def step_def word_unat_eq_iff)
  have "speed_byte \<lparr>vs_speed_step = step, vs_direction = d\<rparr> = (b AND 128) OR s"
    by (simp add: speed_byte_def step_def d_def and_128)
  then have "speed_byte \<lparr>vs_speed_step = step, vs_direction = d\<rparr> = b"
    by (simp add: s_def u8_split_top)
  with parse valid show ?thesis by blast
qed

lemma speed_byte_bits:
  assumes "valid_velocity v"
  shows "speed_byte v AND 127 = (case vs_speed_step v of Stop \<Rightarrow> 0 | EmergencyStop \<Rightarrow> 1 | Num n \<Rightarrow> n + 1)"
    and "bit (speed_byte v) 7 \<longleftrightarrow> vs_direction v = Forward"
proof -
  define s where "s = (case vs_speed_step v of Stop \<Rightarrow> 0 | EmergencyStop \<Rightarrow> 1 | Num n \<Rightarrow> n + (1 :: u8))"
  have "unat s \<le> 127"
    using assms by (auto simp: s_def valid_velocity_def unat_word_ariths split: speed_step.splits)
  then have s: "s AND 127 = s" by (rule u8_and_127_id)
  moreover have "\<not> bit (s AND 127) 7" by (simp add: bit_and_iff)
  ultimately have "\<not> bit s 7" by simp
  show "speed_byte v AND 127 = s" 
    using s by (simp add: speed_byte_def bit.conj_disj_distrib2 flip: s_def split: direction.split)
  show "bit (speed_byte v) 7 \<longleftrightarrow> vs_direction v = Forward"
    using \<open>\<not> bit s 7\<close> by (simp add: speed_byte_def bit_or_iff flip: s_def split: direction.split)
qed

lemma parse_speed_byte:
  assumes "valid_velocity v"
  shows "parse_speed_step (x # speed_byte v # r) = Ok (AdvancedOperations (SpeedStepControl v))"
proof -
  have "n + 1 \<noteq> (0::u8) \<and> n + 1 \<noteq> (1::u8)" if "vs_speed_step v = Num n" for n
    using assms that by (auto simp: valid_velocity_def word_unat_eq_iff unat_word_ariths)
  then show ?thesis
  using speed_byte_bits [OF assms]
  by (cases v; cases "vs_direction v") (auto simp: parse_speed_step_def and_128 split: speed_step.splits)
qed

section \<open>Instruction dispatch\<close>

lemma bit_set_iff [simp]: "bit_set b n \<longleftrightarrow> bit b n"
  by (simp add: bit_set_def and_exp_eq_0_iff_not_bit)

lemma active_flag_if [simp]: "f < 32 \<Longrightarrow> active (flag_if b n f w) = active w \<union> (if bit b n then {f} else {})"
  by (simp add: flag_if_def)

lemma drop_bit_4_and_1: "drop_bit 4 b AND 1 = (if bit b 4 then 1 else (0 :: u8))"
  by (auto intro!: bit_eqI simp: bit_simps)

text \<open>What a function-group instruction means: the functions it addresses and, among them, those
  it switches on.\<close>

definition group_functions :: "function_group \<Rightarrow> nat set \<times> nat set" where
  "group_functions fg = (active (group_mask fg), active (fg_flags fg))"

definition shifted_functions :: "nat \<Rightarrow> nat set \<Rightarrow> u8 \<Rightarrow> nat set" where
  "shifted_functions base fs b = {n \<in> fs. base \<le> n \<and> bit b (n - base)}"

lemma shifted_functions_insert [simp]:
  "shifted_functions base {} b = {}"
  "base \<le> n \<Longrightarrow> shifted_functions base (insert n fs) b
     = (if bit b (n - base) then {n} else {}) \<union> shifted_functions base fs b"
  by (auto simp: shifted_functions_def)

lemma parse_fg1_functions:
  "group_functions (parse_fg1 b)
   = ({0..4}, shifted_functions 1 {1..4} b \<union> (if bit b 4 then {0} else {}))"
  by (auto simp: group_functions_def parse_fg1_def fg_new_def active_groups Let_def
      shifted_functions_def numeral_eq_Suc le_Suc_eq)

lemma atLeastAtMost_4: "{a..a + 3} = {a, a + 1, a + 2, a + 3 :: nat}"
  by auto

lemma parse_fg2_functions:
  "group_functions (parse_fg2 b)
   = (if bit b 4 then ({5..8}, shifted_functions 5 {5..8} b) else ({9..12}, shifted_functions 9 {9..12} b))"
  using atLeastAtMost_4 [of 5] atLeastAtMost_4 [of 9]
  by (cases "bit b 4") (auto simp: group_functions_def parse_fg2_def fg_new_def active_groups Let_def
      drop_bit_4_and_1)

lemma active_shifted_byte:
  "n \<in> active (push_bit k (ucast (b :: u8))) \<longleftrightarrow> n < 32 \<and> k \<le> n \<and> bit b (n - k)"
  using u8_bit_bound [of b "n - k"] by (auto simp: active_def bit_simps)

lemma bit_and_7: "bit (b AND 7 :: u8) n \<longleftrightarrow> n < 3 \<and> bit b n"
proof -
  have "b AND 7 = take_bit 3 b" by (simp add: take_bit_eq_mask mask_eq_exp_minus_1)
  then show ?thesis by (simp only: bit_take_bit_iff)
qed

lemma parse_feature_expansion_functions:
  "map_option group_functions (parse_feature_expansion first second) =
    (if first = 0b11011110 then Some ({13..20}, shifted_functions 13 {13..20} second)
     else if first = 0b11011111 then Some ({21..28}, shifted_functions 21 {21..28} second)
     else if first = 0b11011000 then Some ({29..31}, shifted_functions 29 {29..31} second)
     else None)"
  by (auto simp: parse_feature_expansion_def group_functions_def fg_new_def active_groups
      active_shifted_byte shifted_functions_def bit_and_7 simp del: push_bit_numeral)

lemma unat_drop_bit_u8: "unat (drop_bit n b :: u8) = unat b div 2 ^ n"
  by (metis drop_bit_eq_div unat_drop_bit_eq)

lemma operation_instruction_type_total:
  "\<exists>t. operation_instruction_type_of (drop_bit 5 b) = Some t"
proof -
  have "unat (drop_bit 5 b) < 8" using unat_u8_le [of b] by (simp only: unat_drop_bit_u8) simp
  then show ?thesis
    by (auto simp: operation_instruction_type_of_def word_unat_eq_iff)
qed

section \<open>Parsing\<close>

lemma address_length_packet_addr: "packet_addr p = Ok a \<Longrightarrow> pkt_data p \<noteq> [] \<and> (\<exists>n \<in> {1, 2}. address_length p = Ok n)"
  by (cases "pkt_data p") (auto simp: packet_addr_def address_length_def split: if_splits)

lemma address_length_cases:
  obtains "pkt_data p = []" "address_length p = Panic"
  | n where "pkt_data p \<noteq> []" "address_length p = Ok n" "n \<in> {1, 2}" "n \<le> length (pkt_data p)"
  | "pkt_data p \<noteq> []" "address_length p = Err InvalidAddress"
proof (cases "pkt_data p")
  case Nil
  then show thesis using that(1) by (simp add: address_length_def)
next
  case (Cons b r)
  show thesis
  proof (cases "unat b \<le> 127 \<or> r \<noteq> [] \<and> 192 \<le> unat b \<and> unat b \<le> 231")
    case True
    with Cons show thesis
      using that(2) [of "if unat b \<le> 127 then 1 else 2"] by (cases r) (auto simp: address_length_def)
  next
    case False
    with Cons show thesis using that(3) by (auto simp: address_length_def)
  qed
qed

text \<open>The bytes that follow the address are the instruction, whatever they are.\<close>

lemma address_length_basic:
  "pkt_data p = b # d \<Longrightarrow> unat b \<le> 127 \<Longrightarrow> address_length p = Ok 1"
  by (simp add: address_length_def)

lemma address_length_extended:
  "pkt_data p = b # c # d \<Longrightarrow> 192 \<le> unat b \<Longrightarrow> unat b \<le> 231 \<Longrightarrow> address_length p = Ok 2"
  by (simp add: address_length_def)

lemma operation_packet_payload:
  assumes "unat addr \<le> 10239"
  shows "\<exists>n. address_length (operation_packet addr instr) = Ok n
     \<and> slice_from (pkt_data (operation_packet addr instr)) n = (Ok instr :: (packet_error, u8 list) res)"
proof (cases "unat addr \<le> 127")
  case True
  then have d: "pkt_data (operation_packet addr instr) = ucast addr # instr"
    by (simp add: operation_packet_def word_le_nat_alt)
  have "unat (ucast addr :: u8) \<le> 127" using True by (simp add: unat_ucast_16_8)
  then have "address_length (operation_packet addr instr) = Ok 1"
    by (rule address_length_basic [OF d])
  then show ?thesis by (intro exI [of _ 1]) (simp add: d slice_from_def)
next
  case False
  then have "127 < unat addr" "unat addr < 16384" using assms by simp_all
  then obtain b c where p: "operation_packet addr instr = \<lparr>pkt_data = b # c # instr\<rparr>"
    "unat b = 192 + unat addr div 256"
    by (rule operation_packet_extended [of addr instr])
  then have "address_length (operation_packet addr instr) = Ok 2"
    using assms by (intro address_length_extended) auto
  then show ?thesis by (intro exI [of _ 2]) (simp add: p slice_from_def)
qed

lemma parse_operation_dispatch:
  assumes "address_length p = Ok n" "slice_from (pkt_data p) n = (Ok (b # d) :: (packet_error, u8 list) res)"
  shows "parse_operation p =
     (case operation_instruction_type_of (drop_bit 5 b) of
        Some AdvancedOperationsType \<Rightarrow> if b AND 31 = 31 then parse_speed_step (b # d) else Err InvalidInstruction
      | Some FunctionGroup1 \<Rightarrow> Ok (FunctionGroupInstr (parse_fg1 b))
      | Some FunctionGroup2 \<Rightarrow> Ok (FunctionGroupInstr (parse_fg2 b))
      | Some FeatureExpansion \<Rightarrow>
          (case d of [] \<Rightarrow> Err Undersize
           | c # _ \<Rightarrow> ok_or (map_option FunctionGroupInstr (parse_feature_expansion b c)) InvalidInstruction)
      | _ \<Rightarrow> Err InvalidInstruction)"
  using assms operation_instruction_type_total [of b]
  by (auto simp: parse_operation_def split: operation_instruction_type.split list.split)

lemma parse_operation_payload:
  assumes "unat addr \<le> 10239"
  shows "parse_operation (operation_packet addr (b # d)) =
     (case operation_instruction_type_of (drop_bit 5 b) of
        Some AdvancedOperationsType \<Rightarrow> if b AND 31 = 31 then parse_speed_step (b # d) else Err InvalidInstruction
      | Some FunctionGroup1 \<Rightarrow> Ok (FunctionGroupInstr (parse_fg1 b))
      | Some FunctionGroup2 \<Rightarrow> Ok (FunctionGroupInstr (parse_fg2 b))
      | Some FeatureExpansion \<Rightarrow>
          (case d of [] \<Rightarrow> Err Undersize
           | c # _ \<Rightarrow> ok_or (map_option FunctionGroupInstr (parse_feature_expansion b c)) InvalidInstruction)
      | _ \<Rightarrow> Err InvalidInstruction)"
  using operation_packet_payload [OF assms, of "b # d"] parse_operation_dispatch by blast

lemma parse_speed_step_not_panic: "parse_speed_step (x # d) \<noteq> Panic"
proof (cases d)
  case Nil
  then show ?thesis by (simp add: parse_speed_step_def)
next
  case (Cons c r)
  then show ?thesis using parse_speed_step_byte [of x c r] by auto
qed

text \<open>What the instruction bytes ask for, as a specification: which functions are addressed and
  which of them are switched on.\<close>

definition function_request :: "u8 list \<Rightarrow> (nat set \<times> nat set) option" where
  "function_request d =
     (case d of [] \<Rightarrow> None
      | b # r \<Rightarrow>
          (if 128 \<le> unat b \<and> unat b < 160
           then Some ({0..4}, shifted_functions 1 {1..4} b \<union> (if bit b 4 then {0} else {}))
           else if 160 \<le> unat b \<and> unat b < 192
           then Some (if bit b 4 then ({5..8}, shifted_functions 5 {5..8} b)
                      else ({9..12}, shifted_functions 9 {9..12} b))
           else case r of [] \<Rightarrow> None
             | c # _ \<Rightarrow>
                 (if b = 0xDE then Some ({13..20}, shifted_functions 13 {13..20} c)
                  else if b = 0xDF then Some ({21..28}, shifted_functions 21 {21..28} c)
                  else if b = 0xD8 then Some ({29..31}, shifted_functions 29 {29..31} c)
                  else None)))"

definition parsed_functions :: "(packet_error, operation_mode_instruction) res \<Rightarrow> (nat set \<times> nat set) option" where
  "parsed_functions r = (case r of Ok (FunctionGroupInstr fg) \<Rightarrow> Some (group_functions fg) | _ \<Rightarrow> None)"

lemma instruction_type_range:
  assumes "operation_instruction_type_of (drop_bit 5 b) = Some t"
  shows "unat b div 32 = (case t of DecoderControl \<Rightarrow> 0 | AdvancedOperationsType \<Rightarrow> 1
     | SpeedDirectionReverse \<Rightarrow> 2 | SpeedDirectionForward \<Rightarrow> 3 | FunctionGroup1 \<Rightarrow> 4
     | FunctionGroup2 \<Rightarrow> 5 | FeatureExpansion \<Rightarrow> 6 | CVAccess \<Rightarrow> 7)"
proof -
  have "unat (drop_bit 5 b) = unat b div 32" by (simp only: unat_drop_bit_u8) simp
  then show ?thesis using assms
    by (auto simp: operation_instruction_type_of_def word_unat_eq_iff split: if_splits)
qed

section \<open>Properties\<close>

text \<open>An address written into a packet is read back from it exactly when it is at most 10239
  (0x27FF); larger addresses, up to the 14 bits the encoder has room for, produce a packet whose
  address is invalid.\<close>

theorem operation_packet_addr_roundtrip:
  assumes "unat addr < 16384"
  shows "packet_addr (operation_packet addr instr) = (if unat addr \<le> 10239 then Ok addr else Err InvalidAddress)"
proof (cases "unat addr \<le> 127")
  case True
  then have "pkt_data (operation_packet addr instr) = ucast addr # instr"
    by (simp add: operation_packet_def word_le_nat_alt)
  moreover have "unat (ucast addr :: u8) = unat addr" using True by (simp add: unat_ucast_16_8)
  ultimately have "packet_addr (operation_packet addr instr) = Ok (ucast (ucast addr :: u8))"
    using True by (intro packet_addr_basic) simp_all
  then show ?thesis using True \<open>unat (ucast addr :: u8) = unat addr\<close>
    by (simp add: word_unat_eq_iff)
next
  case False
  then have "127 < unat addr" by simp
  then obtain b c where p: "operation_packet addr instr = \<lparr>pkt_data = b # c # instr\<rparr>"
    and b: "unat b = 192 + unat addr div 256" and c: "unat c = unat addr mod 256"
    using assms by (rule operation_packet_extended [of addr instr])
  show ?thesis
  proof (cases "unat addr \<le> 10239")
    case True
    then have "unat b \<le> 231" using b by simp
    then obtain a where "packet_addr (operation_packet addr instr) = Ok a"
      "unat a = (unat b - 192) * 256 + unat c"
      using packet_addr_extended [of "operation_packet addr instr" b c instr] p b by auto
    then show ?thesis using b c True by (simp add: word_unat_eq_iff)
  next
    case False
    then have "\<not> unat b \<le> 231" using b by simp
    then show ?thesis
      using packet_addr_other [of "operation_packet addr instr" b "c # instr"] p b False by simp
  qed
qed

lemma operation_packet_addr_roundtrip_witness:
  "packet_addr (operation_packet 1000 [0x3F, 0x90]) = Ok 1000
   \<and> packet_addr (operation_packet 10240 []) = Err InvalidAddress"
  using operation_packet_addr_roundtrip [of 1000 "[0x3F, 0x90]"] operation_packet_addr_roundtrip [of 10240 "[]"]
  by simp

text \<open>No packet at all is a broadcast: the address the decoder compares with is 0xFFFF, and no
  packet has an address above 10239. In particular the broadcast address 0 of the standard is not
  recognised.\<close>

theorem is_broadcast_never:
  "is_broadcast p \<noteq> (Ok True :: ('e, bool) res)"
proof
  assume "is_broadcast p = (Ok True :: ('e, bool) res)"
  then have "packet_addr p = Ok BROADCAST_ADDRESS"
    by (cases "packet_addr p") (auto simp: is_broadcast_def)
  then have "unat BROADCAST_ADDRESS \<le> 10239" by (rule packet_addr_bound)
  then show False by (simp add: BROADCAST_ADDRESS_def)
qed

lemma parse_operation_panics:
  "parse_operation p = Panic \<longleftrightarrow> pkt_data p = []"
proof (cases rule: address_length_cases [of p])
  case (2 n)
  obtain d where d: "slice_from (pkt_data p) n = (Ok d :: (packet_error, u8 list) res)"
    using 2 by (simp add: slice_from_def)
  show ?thesis
  proof (cases d)
    case Nil
    then show ?thesis using 2 d by (simp add: parse_operation_def)
  next
    case (Cons b r)
    obtain t where t: "operation_instruction_type_of (drop_bit 5 b) = Some t"
      using operation_instruction_type_total by blast
    have "parse_operation p \<noteq> Panic"
      using parse_operation_dispatch [OF 2(2) d [unfolded Cons]] t parse_speed_step_not_panic [of b r]
      by (cases t; cases r) auto
    then show ?thesis using 2(1) by simp
  qed
qed (simp_all add: parse_operation_def)

lemma parse_operation_no_panic: "pkt_data p \<noteq> [] \<Longrightarrow> parse_operation p \<noteq> Panic"
  by (simp add: parse_operation_panics)

text \<open>Parsing an operation-mode packet panics only on a packet with no byte at all; on every
  other packet it returns an instruction or an error.\<close>

theorem parse_operation_panics_iff:
  "parse_operation p = Panic \<longleftrightarrow> pkt_data p = []"
  by (rule parse_operation_panics)

text \<open>The speed byte is decoded without loss. A velocity whose step index is in 1..126
  survives encoding and parsing, whatever the address; and every byte whatsoever parses to such a
  velocity, the one it encodes, so that the decoder never sees a step above 126.\<close>

theorem speed_instruction_roundtrip:
  assumes "unat addr \<le> 10239"
  shows "(valid_velocity v \<longrightarrow> parse_operation (operation_packet addr [0x3F, speed_byte v])
      = Ok (AdvancedOperations (SpeedStepControl v)))
    \<and> (\<exists>w. parse_operation (operation_packet addr [0x3F, b]) = Ok (AdvancedOperations (SpeedStepControl w))
      \<and> valid_velocity w \<and> speed_byte w = b)"
  using parse_speed_byte [of v "0x3F" "[]"] parse_speed_step_byte [of "0x3F" b "[]"]
  by (simp add: parse_operation_payload [OF assms] operation_instruction_type_of_def)

lemma speed_instruction_roundtrip_witness:
  "parse_operation (operation_packet 3 [0x3F, speed_byte \<lparr>vs_speed_step = Num 126, vs_direction = Forward\<rparr>])
     = Ok (AdvancedOperations (SpeedStepControl \<lparr>vs_speed_step = Num 126, vs_direction = Forward\<rparr>))"
  using speed_instruction_roundtrip [of 3 "\<lparr>vs_speed_step = Num 126, vs_direction = Forward\<rparr>"]
  by (simp add: valid_velocity_def)

text \<open>C16: function-group instructions mean what the standard's tables say. For every address and
  every instruction bytes, the group and flags the decoder extracts are the functions addressed
  and switched on: F0 to F4 with F0 in bit 4, F5 to F8 or F9 to F12 by bit 4, and the feature
  expansion groups F13 to F20, F21 to F28 and F29 to F31; nothing else is taken for a function
  instruction.\<close>

theorem parse_function_groups:
  assumes "unat addr \<le> 10239"
  shows "parsed_functions (parse_operation (operation_packet addr d)) = function_request d"
proof (cases d)
  case Nil
  then show ?thesis
    using operation_packet_payload [OF assms, of "[]"]
    by (auto simp: parse_operation_def parsed_functions_def function_request_def)
next
  case (Cons b r)
  obtain t where t: "operation_instruction_type_of (drop_bit 5 b) = Some t"
    using operation_instruction_type_total by blast
  then have n: "unat b div 32 = (case t of DecoderControl \<Rightarrow> 0 | AdvancedOperationsType \<Rightarrow> 1
     | SpeedDirectionReverse \<Rightarrow> 2 | SpeedDirectionForward \<Rightarrow> 3 | FunctionGroup1 \<Rightarrow> 4
     | FunctionGroup2 \<Rightarrow> 5 | FeatureExpansion \<Rightarrow> 6 | CVAccess \<Rightarrow> 7)"
    by (rule instruction_type_range)
  have range: "32 * (unat b div 32) \<le> unat b" "unat b < 32 * (unat b div 32) + 32" by simp_all
  note simps = Cons parse_operation_payload [OF assms] t parsed_functions_def function_request_def
  consider "t = FunctionGroup1" | "t = FunctionGroup2" | "t = FeatureExpansion" | "t = AdvancedOperationsType"
    | "t \<in> {DecoderControl, SpeedDirectionReverse, SpeedDirectionForward, CVAccess}"
    by (cases t) auto
  then show ?thesis
  proof cases
    case 1
    then show ?thesis using n range parse_fg1_functions [of b] by (simp add: simps)
  next
    case 2
    then show ?thesis using n range parse_fg2_functions [of b] by (simp add: simps)
  next
    case 3
    then show ?thesis using n range parse_feature_expansion_functions [of b "hd r"]
      by (cases r) (auto simp: simps ok_or_def split: option.splits if_splits)
  next
    case 4
    then have "\<not> 128 \<le> unat b" using n range by simp
    moreover from this have "b \<noteq> 0xDE" "b \<noteq> 0xDF" "b \<noteq> 0xD8" by auto
    moreover have "parsed_functions (parse_speed_step (b # r)) = None"
      using parse_speed_step_byte [of b "hd r" "tl r"]
      by (cases r) (auto simp: parsed_functions_def parse_speed_step_def)
    ultimately show ?thesis using 4 by (simp add: simps split: list.split)
  next
    case 5
    then have "unat b < 128 \<or> 224 \<le> unat b" using n range by auto
    moreover from this have "b \<noteq> 0xDE" "b \<noteq> 0xDF" "b \<noteq> 0xD8" by auto
    ultimately show ?thesis using 5 by (auto simp: simps split: list.split)
  qed
qed

lemma parse_function_groups_witness:
  "parsed_functions (parse_operation (operation_packet 1000 [0x91]))
     = Some ({0..4}, shifted_functions 1 {1..4} 0x91 \<union> {0})"
  using parse_function_groups [of 1000 "[0x91]"] by (simp add: function_request_def bit_numeral_rec)

lemma service_packet_fields:
  assumes "1 \<le> unat cv" "unat cv \<le> 1024" "code \<in> {1, 2, 3}"
  shows "service_mode_candidate (service_packet code cv v) = Ok True"
    and "instruction_type (service_packet code cv v) = ok_or (service_instruction_type_of code) InvalidInstruction"
    and "cv_address (service_packet code cv v) = Ok cv"
    and "cv_data (service_packet code cv v) = Ok v"
proof -
  have code: "unat code < 4" using assms(3) by auto
  obtain b c where p: "service_packet code cv v = \<lparr>pkt_data = [b, c, v, 0]\<rparr>"
    and b: "unat b = 112 + unat code * 4 + (unat cv - 1) div 256" and c: "unat c = (unat cv - 1) mod 256"
    using assms(1,2) code by (rule service_packet_bytes [of cv code v])
  have hi: "(unat cv - 1) div 256 < 4" using assms(1,2) by auto
  show "service_mode_candidate (service_packet code cv v) = Ok True"
    using b hi code by (auto simp: p service_mode_candidate_def word_le_nat_alt)
  have "(112 + k * 4 + h) div 4 mod 4 = k" if "h < 4" "k < 4" for h k :: nat
  proof -
    have "112 + k * 4 + h = h + (28 + k) * 4" by simp
    then have "(112 + k * 4 + h) div 4 = 28 + k" using that(1) by simp
    moreover have "k \<in> {0, 1, 2, 3}" using that(2) by auto
    ultimately show ?thesis by auto
  qed
  from this [OF hi code] have "unat b div 4 mod 4 = unat code" by (simp only: b)
  then have "drop_bit 2 b AND 3 = code"
    by (simp only: word_unat_eq_iff unat_and_masks unat_drop_bit_u8) simp
  then show "instruction_type (service_packet code cv v) = ok_or (service_instruction_type_of code) InvalidInstruction"
    by (simp add: p instruction_type_def)
  have "(112 + k * 4 + h) mod 4 = h" if "h < 4" for h k :: nat
  proof -
    have "112 + k * 4 + h = h + (28 + k) * 4" by simp
    then show ?thesis using that by (metis mod_less mod_mult_self1)
  qed
  from this [OF hi] have m: "unat (b AND 3) = (unat cv - 1) div 256" by (simp only: b unat_and_masks)
  have "unat (push_bit 8 (ucast (b AND 3)) + ucast c + 1 :: u16) = unat cv"
    using m c assms(1,2)
    by (simp only: unat_word_ariths unat_push_8 unat_ucast_8_16) simp
  then have "push_bit 8 (ucast (b AND 3)) + ucast c + 1 = cv" by (simp add: word_unat_eq_iff)
  then show "cv_address (service_packet code cv v) = Ok cv"
    by (simp add: p cv_address_def del: push_bit_numeral)
  show "cv_data (service_packet code cv v) = Ok v"
    by (simp add: p cv_data_def numeral_2_eq_2)
qed

text \<open>The three fields of a service-mode packet survive the wire. A packet built for CV
  \<^verbatim>\<open>cv\<close> in 1..1024 with instruction code 1, 2 or 3 is a service-mode candidate, and reading it
  gives back the instruction, the CV number and the data byte.\<close>

theorem service_packet_roundtrip:
  assumes "1 \<le> unat cv" "unat cv \<le> 1024" "code \<in> {1, 2, 3}"
  shows "service_mode_candidate (service_packet code cv v) = Ok True
    \<and> instruction_type (service_packet code cv v) = ok_or (service_instruction_type_of code) InvalidInstruction
    \<and> cv_address (service_packet code cv v) = Ok cv
    \<and> cv_data (service_packet code cv v) = Ok v"
  using service_packet_fields [OF assms] by simp

lemma service_packet_roundtrip_witness:
  "cv_address (service_packet 3 1024 0xAB) = Ok 1024 \<and> instruction_type (service_packet 3 1024 0xAB) = Ok WriteByte"
  using service_packet_roundtrip [of 1024 3 "0xAB"] by (simp add: service_instruction_type_of_def)

lemma cv_address_facts:
  "cv_address p = Ok a \<Longrightarrow> 1 \<le> unat a \<and> unat a \<le> 1024"
  "length (pkt_data p) < 2 \<longleftrightarrow> cv_address p = Err Undersize"
  "length (pkt_data p) < 3 \<longleftrightarrow> cv_data p = Err Undersize"
  "cv_address p \<noteq> Panic" "cv_data p \<noteq> Panic" "instruction_type p \<noteq> Panic"
proof -
  have "1 \<le> unat (push_bit 8 (ucast (b AND 3)) + ucast c + 1 :: u16)
      \<and> unat (push_bit 8 (ucast (b AND 3)) + ucast c + 1 :: u16) \<le> 1024" for b c :: u8
  proof -
    have *: "unat (b AND 3) \<le> 3" using unat_and_masks(1) [of b] by simp
    have "unat (push_bit 8 (ucast (b AND 3)) + ucast c + 1 :: u16) = unat (b AND 3) * 256 + unat c + 1"
      using * unat_u8_le [of c] by (simp only: unat_word_ariths unat_push_8 unat_ucast_8_16) simp
    then show ?thesis using * unat_u8_le [of c] by simp
  qed
  then show "cv_address p = Ok a \<Longrightarrow> 1 \<le> unat a \<and> unat a \<le> 1024"
    by (auto simp: cv_address_def index_def simp del: push_bit_numeral split: if_splits)
qed (auto simp: cv_address_def cv_data_def instruction_type_def index_def)

text \<open>A CV number is always in 1..1024, and it is read from a packet if and only if the packet has
  at least two bytes, the data byte if it has three; none of the readers of a service-mode packet
  panics on a packet that has a byte.\<close>

theorem cv_address_range:
  "(cv_address p = Ok a \<longrightarrow> 1 \<le> unat a \<and> unat a \<le> 1024)
   \<and> (length (pkt_data p) < 2 \<longleftrightarrow> cv_address p = Err Undersize)
   \<and> (length (pkt_data p) < 3 \<longleftrightarrow> cv_data p = Err Undersize)
   \<and> cv_address p \<noteq> Panic \<and> cv_data p \<noteq> Panic \<and> instruction_type p \<noteq> Panic"
  using cv_address_facts [of p] by blast

lemma cv_address_range_witness:
  "cv_address \<lparr>pkt_data = [0x7F, 0xFF, 0]\<rparr> = Ok 1024 \<and> (1::nat) \<le> unat (1024 :: u16)"
  using cv_address_range [where p = "\<lparr>pkt_data = [0x7F, 0xFF, 0]\<rparr>" and a = 1024] by (simp add: cv_address_def)

text \<open>The two address formats overlap. The two-byte form with a high part of zero carries the same
  address as the one-byte form, so a decoder with primary address 3 also answers packets for long
  address 3, which the standard treats as a different decoder.\<close>

theorem short_and_long_address_alias:
  assumes "unat b \<le> 127"
  shows "packet_addr \<lparr>pkt_data = 0xC0 # b # d\<rparr> = packet_addr \<lparr>pkt_data = b # d'\<rparr>"
proof -
  obtain a where "packet_addr \<lparr>pkt_data = 0xC0 # b # d\<rparr> = Ok a" "unat a = unat b"
    using packet_addr_extended [of "\<lparr>pkt_data = 0xC0 # b # d\<rparr>" "0xC0" b d] by auto
  moreover have "packet_addr \<lparr>pkt_data = b # d'\<rparr> = Ok (ucast b)"
    using assms by (intro packet_addr_basic) simp_all
  ultimately show ?thesis by (simp add: word_unat_eq_iff)
qed

lemma short_and_long_address_alias_witness:
  "packet_addr \<lparr>pkt_data = [0xC0, 3, 0x3F]\<rparr> = packet_addr \<lparr>pkt_data = [3, 0x3F]\<rparr>"
  using short_and_long_address_alias [of 3 "[0x3F]" "[0x3F]"] by simp

end
