(* ===== verification/Codec.thy ===== *)
theory Codec
  imports Packet
begin

text \<open>
  From raw bytes to packets: \<^verbatim>\<open>DccCodec::decode\<close> (\<^verbatim>\<open>dcc/src/transport/codec.rs\<close>) and the
  loop of \<^verbatim>\<open>Decoder::read\<close> (\<^verbatim>\<open>dcc/src/transport/mod.rs\<close>), with the encoder they invert.
\<close>

section \<open>Decoding a raw packet\<close>

definition checksum :: "u8 list \<Rightarrow> u8" where
  "checksum raw = foldl (\<lambda>acc x. acc XOR x) 0 raw"

text \<open>\<^verbatim>\<open>heapless::Vec::<u8, 6>::from_slice\<close> fails when the slice does not fit; the
  \<^verbatim>\<open>unwrap\<close> would then panic.\<close>

definition vec_from_slice :: "nat \<Rightarrow> u8 list \<Rightarrow> (unit, u8 list) res" where
  "vec_from_slice n d = (if length d \<le> n then Ok d else Err ())"

definition decode :: "u8 list \<Rightarrow> (packet_error, packet option) res" where
  "decode raw =
     (if length raw > 6 then Err Oversize
      else if length raw < 3 then Err Undersize
      else res_bind (index raw 0) (\<lambda>b.
        if b = 0xFF then Ok None
        else res_bind (is_mf_extended_address raw) (\<lambda>ext.
          if ext \<and> length raw < 4 then Err Undersize
          else if 232 \<le> b \<and> b \<le> 254 then Err InvalidAddress
          else if checksum raw \<noteq> 0 then Err InvalidChecksum
          else res_bind (unwrap (vec_from_slice 6 (take (length raw - 1) raw))) (\<lambda>d.
            Ok (Some \<lparr>pkt_data = d\<rparr>)))))"

text \<open>\<^verbatim>\<open>Decoder::read\<close>: the raw decoder is the list of the packets it will deliver. The loop
  returns with the first packet that decodes and what is left, or keeps waiting (\<^term>\<open>None\<close>) when
  the input is exhausted.\<close>

fun decoder_read :: "u8 list list \<Rightarrow> (packet_error, packet \<times> u8 list list) res option" where
  "decoder_read [] = None"
| "decoder_read (raw # rest) =
     (case decode raw of
        Ok None \<Rightarrow> decoder_read rest
      | Ok (Some p) \<Rightarrow> Some (Ok (p, rest))
      | Err e \<Rightarrow> decoder_read rest
      | Panic \<Rightarrow> Some Panic)"

text \<open>The sending side: a packet followed by the XOR of its bytes.\<close>

definition with_checksum :: "u8 list \<Rightarrow> u8 list" where
  "with_checksum d = d @ [checksum d]"

section \<open>Checksums\<close>

lemma foldl_xor: "foldl (\<lambda>acc x. acc XOR x) a d = a XOR foldl (\<lambda>acc x. acc XOR x) 0 (d :: u8 list)"
proof (induction d arbitrary: a)
  case (Cons x d)
  show ?case using Cons [of "a XOR x"] Cons [of "0 XOR x"] by (simp add: xor.assoc)
qed simp

lemma checksum_simps [simp]: "checksum [] = 0" "checksum (x # d) = x XOR checksum d"
  using foldl_xor [of x d] by (simp_all add: checksum_def)

lemma checksum_append [simp]: "checksum (d @ e) = checksum d XOR checksum e"
  by (induction d) (simp_all add: xor.assoc)

lemma checksum_with_checksum [simp]: "checksum (with_checksum d) = 0"
  by (simp add: with_checksum_def)

lemma xor_eq_0_iff: "a XOR b = 0 \<longleftrightarrow> a = (b :: u8)"
  by (metis xor.assoc xor.comm_neutral xor_self_eq)

lemma checksum_butlast:
  assumes "d \<noteq> []" "checksum d = 0"
  shows "last d = checksum (butlast d)"
proof -
  have "checksum (butlast d @ [last d]) = 0" using assms by simp
  then show ?thesis by (simp only: checksum_append checksum_simps xor_eq_0_iff) simp
qed

lemma checksum_update:
  "i < length d \<Longrightarrow> checksum (d[i := d ! i XOR e]) = checksum d XOR e"
proof (induction d arbitrary: i)
  case (Cons x d)
  then show ?case by (cases i) (simp_all add: xor.assoc xor.commute xor.left_commute)
qed simp

section \<open>What is accepted\<close>

text \<open>The packets the decoder accepts: three to six bytes whose XOR is zero, with an address byte that
  is neither idle nor reserved and, for a two-byte address, at least one instruction byte.\<close>

definition acceptable :: "u8 list \<Rightarrow> bool" where
  "acceptable d \<longleftrightarrow> 2 \<le> length d \<and> length d \<le> 5 \<and> unat (hd d) < 232
     \<and> (192 \<le> unat (hd d) \<longrightarrow> 3 \<le> length d)"

lemma decode_eq:
  "decode (b # c # e # r) =
    (if length r > 3 then Err Oversize
     else if b = 0xFF then Ok None
     else if 192 \<le> unat b \<and> unat b \<le> 231 \<and> r = [] then Err Undersize
     else if 232 \<le> unat b then Err InvalidAddress
     else if checksum (b # c # e # r) \<noteq> 0 then Err InvalidChecksum
     else Ok (Some \<lparr>pkt_data = butlast (b # c # e # r)\<rparr>))"
proof -
  have "232 \<le> b \<and> b \<le> 254 \<longleftrightarrow> 232 \<le> unat b" if "b \<noteq> 255"
    using that unat_u8_le [of b] by (auto simp: word_le_nat_alt word_unat_eq_iff)
  moreover have "take (length (b # c # e # r) - 1) (b # c # e # r) = butlast (b # c # e # r)"
    by (simp only: butlast_conv_take)
  ultimately show ?thesis
    by (cases r) (auto simp: decode_def vec_from_slice_def)
qed

lemma decode_short: "length raw < 3 \<Longrightarrow> decode raw = Err Undersize"
  by (simp add: decode_def)

lemma raw_cases:
  obtains "length raw < 3" | b c e r where "raw = b # c # e # r"
  by (metis Suc_le_length_iff not_less numeral_3_eq_3)

lemma decode_not_panic: "decode raw \<noteq> Panic"
  by (cases rule: raw_cases [of raw]) (simp_all add: decode_short decode_eq)

lemma decode_accepts:
  "decode raw = Ok (Some p) \<longleftrightarrow> raw = with_checksum (pkt_data p) \<and> acceptable (pkt_data p)"
proof (cases "length raw < 3")
  case True
  then show ?thesis by (auto simp: decode_short with_checksum_def acceptable_def)
next
  case False
  then obtain b c e r where raw: "raw = b # c # e # r"
    by (metis raw_cases)
  show ?thesis
  proof
    assume d: "decode raw = Ok (Some p)"
    then have p: "pkt_data p = butlast raw" "checksum raw = 0" and len: "length r \<le> 3"
      and a: "unat b < 232" "192 \<le> unat b \<Longrightarrow> r \<noteq> []"
      by (auto simp: raw decode_eq split: if_splits)
    have "raw = butlast raw @ [last raw]" using raw by simp
    then have "raw = with_checksum (pkt_data p)"
      using checksum_butlast [of raw] p raw by (simp add: with_checksum_def)
    moreover have "acceptable (pkt_data p)"
      using a len by (cases r) (auto simp: acceptable_def p(1) raw)
    ultimately show "raw = with_checksum (pkt_data p) \<and> acceptable (pkt_data p)" ..
  next
    assume a: "raw = with_checksum (pkt_data p) \<and> acceptable (pkt_data p)"
    then have "checksum raw = 0" "butlast raw = pkt_data p" by (auto simp: with_checksum_def)
    moreover have "b = hd (pkt_data p)"
    proof -
      have "pkt_data p \<noteq> []" using a by (auto simp: acceptable_def)
      then have "hd (pkt_data p) = hd raw" using a by (simp add: with_checksum_def)
      then show ?thesis by (simp add: raw)
    qed
    moreover have "length r + 2 = length (pkt_data p)"
    proof -
      have "length raw = length (pkt_data p) + 1" using a by (simp add: with_checksum_def)
      then show ?thesis by (simp add: raw)
    qed
    moreover have "b \<noteq> 0xFF" using a calculation(3) by (auto simp: acceptable_def)
    ultimately have "decode raw = Ok (Some \<lparr>pkt_data = pkt_data p\<rparr>)"
      using a decode_eq [of b c e r, folded raw] by (auto simp: acceptable_def)
    then show "decode raw = Ok (Some p)" by simp
  qed
qed

lemma operation_packet_acceptable:
  assumes "unat addr \<le> 10239" "1 \<le> length d" "length d \<le> 3"
  shows "acceptable (pkt_data (operation_packet addr d))"
proof -
  have "unat addr < 16384" using assms(1) by simp
  then show ?thesis
  proof (cases rule: operation_packet_cases [where d = d])
    case (long b c)
    have "unat addr div 256 < 40" using assms(1) by simp
    then have "unat b < 232" "192 \<le> unat b" using long(3) by simp_all
    then show ?thesis using assms(2,3) long(2) by (simp add: acceptable_def)
  qed (use assms(2,3) in \<open>simp add: acceptable_def\<close>)
qed

section \<open>The decoder task\<close>

text \<open>The task \<^verbatim>\<open>packet_decoder\<close>: a loop that reads the next valid packet and publishes it. The list
  is what it has published when it waits for more input; a panic of the decoder would end it.\<close>

lemma decoder_read_shorter:
  "decoder_read raws = Some (Ok (q, rest)) \<Longrightarrow> length rest < length raws"
  by (induction raws rule: decoder_read.induct) (auto split: res.splits option.splits)

function packet_decoder :: "u8 list list \<Rightarrow> packet list" where
  "packet_decoder raws =
     (case decoder_read raws of
        Some (Ok (q, rest)) \<Rightarrow> q # packet_decoder rest
      | _ \<Rightarrow> [])"
  by pat_completeness simp
termination by (relation "measure length") (auto dest: decoder_read_shorter)

declare packet_decoder.simps [simp del]

lemma packet_decoder_simps [simp]:
  "packet_decoder [] = []"
  "packet_decoder (raw # raws) =
     (case decode raw of Ok (Some q) \<Rightarrow> q # packet_decoder raws | _ \<Rightarrow> packet_decoder raws)"
  using decode_not_panic [of raw]
  by (subst packet_decoder.simps; auto split: res.splits option.splits simp: packet_decoder.simps [of raws])+

lemma packet_decoder_append [simp]: "packet_decoder (ds @ es) = packet_decoder ds @ packet_decoder es"
  by (induction ds) (simp_all split: res.splits option.splits)

lemma packet_decoder_noise: "\<forall>d \<in> set ds. \<forall>q. decode d \<noteq> Ok (Some q) \<Longrightarrow> packet_decoder ds = []"
  by (induction ds) (auto split: res.splits option.splits)

section \<open>Properties\<close>

text \<open>The decoder never panics, whatever bytes arrive; in particular the packet always fits the
  six-byte vector it is copied into.\<close>

theorem decode_total: "decode raw \<noteq> Panic"
  by (rule decode_not_panic)

text \<open>C13: decoding inverts encoding and accepts nothing else. A raw packet decodes to a packet
  \<^verbatim>\<open>p\<close> exactly when it consists of the bytes of \<^verbatim>\<open>p\<close> followed by their XOR and these
  bytes are acceptable.\<close>

theorem decode_accepts_iff:
  "decode raw = Ok (Some p) \<longleftrightarrow> raw = with_checksum (pkt_data p) \<and> acceptable (pkt_data p)"
  by (rule decode_accepts)

text \<open>C36: error detection. Whatever single byte of an accepted packet is changed, and to whatever
  value, the result is not accepted as a packet.\<close>

theorem single_byte_corruption_detected:
  assumes "decode raw = Ok (Some p)" "i < length raw" "e \<noteq> 0"
  shows "decode (raw[i := raw ! i XOR e]) \<noteq> Ok (Some q)"
proof
  assume "decode (raw[i := raw ! i XOR e]) = Ok (Some q)"
  then have "checksum (raw[i := raw ! i XOR e]) = 0"
    using decode_accepts checksum_with_checksum by metis
  moreover have "checksum raw = 0"
    using assms(1) decode_accepts checksum_with_checksum by metis
  ultimately show False using assms(2,3) by (simp add: checksum_update)
qed

lemma single_byte_corruption_detected_witness:
  "decode [3, 0x3F, 0x90, 0xAC] = Ok (Some \<lparr>pkt_data = [3, 0x3F, 0x90]\<rparr>)
   \<and> decode [3, 0x3F, 0x91, 0xAC] \<noteq> Ok (Some \<lparr>pkt_data = [3, 0x3F, 0x91]\<rparr>)"
proof -
  have d: "decode [3, 0x3F, 0x90, 0xAC] = Ok (Some \<lparr>pkt_data = [3, 0x3F, 0x90]\<rparr>)"
    by (simp add: decode_eq)
  show ?thesis using d single_byte_corruption_detected [OF d, of 2 1] by simp
qed

text \<open>A decoded packet is safe to handle: it has at least two bytes, so none of the functions that
  look at it panics, and its address is missing only in the accessory range 128 to 191.\<close>

theorem decoded_packet_safe:
  assumes "decode raw = Ok (Some p)"
  shows "parse_operation p \<noteq> Panic \<and> instruction_type p \<noteq> Panic \<and> cv_address p \<noteq> Panic \<and> cv_data p \<noteq> Panic
    \<and> (\<exists>c. service_mode_candidate p = Ok c)
    \<and> packet_addr p = (if unat (hd (pkt_data p)) \<in> {128..191} then Err InvalidAddress
       else Ok (if unat (hd (pkt_data p)) < 128 then ucast (hd (pkt_data p))
         else push_bit 8 (ucast (hd (pkt_data p) AND 63)) OR ucast (pkt_data p ! 1)))"
proof -
  have "acceptable (pkt_data p)" using assms decode_accepts by metis
  then obtain b c d where p: "pkt_data p = b # c # d" "unat b < 232"
    by (metis acceptable_def list.sel(1) Suc_le_length_iff numeral_2_eq_2)
  have "parse_operation p \<noteq> Panic"
    using p by (simp add: parse_operation_no_panic)
  moreover have "instruction_type p \<noteq> Panic" "cv_address p \<noteq> Panic" "cv_data p \<noteq> Panic"
    "\<exists>c. service_mode_candidate p = Ok c"
    using p by (auto simp: instruction_type_def cv_address_def cv_data_def service_mode_candidate_def index_def)
  moreover have "packet_addr p = (if unat (hd (pkt_data p)) \<in> {128..191} then Err InvalidAddress
       else Ok (if unat (hd (pkt_data p)) < 128 then ucast (hd (pkt_data p))
         else push_bit 8 (ucast (hd (pkt_data p) AND 63)) OR ucast (pkt_data p ! 1)))"
    using p by (auto simp: packet_addr_def u8_and_127_id simp del: push_bit_numeral)
  ultimately show ?thesis by blast
qed

lemma decoded_packet_safe_witness:
  "packet_addr \<lparr>pkt_data = [0xC3, 0xE8, 0x3F, 0x90]\<rparr> = Ok 1000"
proof -
  have "decode (with_checksum [0xC3, 0xE8, 0x3F, 0x90]) = Ok (Some \<lparr>pkt_data = [0xC3, 0xE8, 0x3F, 0x90]\<rparr>)"
    by (simp add: with_checksum_def decode_eq)
  then show ?thesis using decoded_packet_safe by fastforce
qed

text \<open>\<^verbatim>\<open>Decoder::read\<close> delivers exactly the valid packets, in order. It returns the first raw
  packet that decodes, having dropped only idle and invalid ones before it, and waits exactly
  when there is none.\<close>

theorem decoder_read_first_valid:
  "decoder_read raws = (case dropWhile (\<lambda>r. \<forall>p. decode r \<noteq> Ok (Some p)) raws of
      [] \<Rightarrow> None
    | r # rest \<Rightarrow> Some (Ok (\<lparr>pkt_data = butlast r\<rparr>, rest)))"
proof (induction raws)
  case (Cons r raws)
  show ?case
  proof (cases "decode r")
    case (Ok m)
    show ?thesis
    proof (cases m)
      case (Some p)
      then have "butlast r = pkt_data p"
        using Ok decode_accepts [of r p] by (auto simp: with_checksum_def)
      then have "\<lparr>pkt_data = butlast r\<rparr> = p" by simp
      then show ?thesis using Ok Some by simp
    qed (use Ok Cons in simp)
  next
    case Panic
    then show ?thesis using decode_not_panic by simp
  qed (use Cons in simp)
qed simp

end
