(* ===== verification/Pio.thy ===== *)
theory Pio
  imports Codec
begin

text \<open>
  The receiver below the codec: the PIO program \<^verbatim>\<open>application/src/transport/dcc_decoder.pio\<close>,
  one step per bit on the rails, and \<^verbatim>\<open>PioDccDecoder::read\<close>
  (\<^verbatim>\<open>application/src/transport/pio_decoder.rs\<close>), which recovers a raw packet from the words the
  program pushed. The timing of the half bits is abstracted to the pin level at the sampling point
  (\<^verbatim>\<open>Pio_Cycles\<close> derives it from the cycles), and the FIFO to an unbounded list of words.
\<close>

section \<open>The PIO program\<close>

datatype pio_pc = PreambleCandidate | PacketStart | ReadPacketBit | CheckMoreData

text \<open>The state between two bits: where the program waits for the next one, the scratch registers,
  the input shift register with its bit count, and the words pushed to the receive FIFO.\<close>

record pio =
  pio_pc :: pio_pc
  pio_x :: u32
  pio_y :: u32
  pio_isr :: u32
  pio_count :: nat
  pio_rx :: "u32 list"

text \<open>\<^verbatim>\<open>in source, n\<close> with \<^verbatim>\<open>ShiftDirection::Left\<close>, autopush and threshold 32.\<close>

definition pio_in :: "nat \<Rightarrow> u32 \<Rightarrow> pio \<Rightarrow> pio" where
  "pio_in n v s =
     (let isr = push_bit n (pio_isr s) OR take_bit n v; c = pio_count s + n
      in if 32 \<le> c then s\<lparr>pio_isr := 0, pio_count := 0, pio_rx := pio_rx s @ [isr]\<rparr>
         else s\<lparr>pio_isr := isr, pio_count := c\<rparr>)"

text \<open>\<^verbatim>\<open>padding_loop\<close>: \<^verbatim>\<open>jmp !x\<close>, \<^verbatim>\<open>in null, 8\<close>, \<^verbatim>\<open>jmp x--\<close>; by recursion on the value of
  \<^verbatim>\<open>x\<close>.\<close>

primrec padding_loop :: "nat \<Rightarrow> pio \<Rightarrow> pio" where
  "padding_loop 0 s = s"
| "padding_loop (Suc n) s = padding_loop n (pio_in 8 0 s)"

text \<open>One bit on the rails: \<^verbatim>\<open>wait 0 pin\<close>, \<^verbatim>\<open>wait 1 pin [ZERO_DELAY-1]\<close>, and the instructions up
  to the next \<^verbatim>\<open>wait 0 pin\<close>. The argument is the level of the pin 75 us after the rising edge:
  high for a zero, low for a one.\<close>

definition pio_bit :: "bool \<Rightarrow> pio \<Rightarrow> pio" where
  "pio_bit pin s =
     (case pio_pc s of
        PreambleCandidate \<Rightarrow>
          if pin then s\<lparr>pio_x := 10\<rparr>
          else if pio_x s \<noteq> 0 then s\<lparr>pio_x := pio_x s - 1\<rparr>
          else s\<lparr>pio_x := pio_x s - 1, pio_pc := PacketStart\<rparr>
      | PacketStart \<Rightarrow>
          if pin then s\<lparr>pio_x := 7, pio_y := 7, pio_pc := ReadPacketBit\<rparr> else s
      | ReadPacketBit \<Rightarrow>
          (let s = pio_in 1 (of_bool pin) s in
           if pio_y s \<noteq> 0 then s\<lparr>pio_y := pio_y s - 1\<rparr>
           else s\<lparr>pio_y := pio_y s - 1, pio_x := pio_x s - 1, pio_pc := CheckMoreData\<rparr>)
      | CheckMoreData \<Rightarrow>
          if pin then s\<lparr>pio_y := 7, pio_pc := ReadPacketBit\<rparr>
          else
            let s = s\<lparr>pio_y := pio_x s\<rparr>;
                s = (padding_loop (unat (pio_x s)) s)\<lparr>pio_x := 0\<rparr>;
                s = pio_in 8 (pio_y s) s
            in s\<lparr>pio_x := 9, pio_pc := PreambleCandidate\<rparr>)"

definition pio_run :: "bool list \<Rightarrow> pio \<Rightarrow> pio" where
  "pio_run pins s = fold pio_bit pins s"

definition pio_init :: pio where
  "pio_init = \<lparr>pio_pc = PreambleCandidate, pio_x = 10, pio_y = 0, pio_isr = 0, pio_count = 0, pio_rx = []\<rparr>"

section \<open>Reading the FIFO\<close>

text \<open>A word as it lies in memory after \<^verbatim>\<open>dma_pull\<close> with byte swapping: most significant byte
  first.\<close>

definition be_bytes :: "u32 \<Rightarrow> u8 list" where
  "be_bytes w = [ucast (drop_bit 24 w), ucast (drop_bit 16 w), ucast (drop_bit 8 w), ucast w]"

text \<open>\<^verbatim>\<open>PioDccDecoder::read\<close>: wait until the FIFO has filled the buffer (\<^term>\<open>None\<close> while it has not),
  recover the length from the last byte and invert the data bytes. The result is the rest of
  the FIFO and the packet.\<close>

definition pio_read :: "u8 list \<Rightarrow> u32 list \<Rightarrow> (u32 list \<times> (unit, u8 list) res) option" where
  "pio_read buff fifo =
     (if \<not> length buff \<ge> 8 then Some (fifo, Panic)
      else if length buff mod 4 \<noteq> 0 then Some (fifo, Panic)
      else
        let n = length buff div 4 in
        if length fifo < n then None
        else
          let buff = concat (map be_bytes (take n fifo)) in
          Some (drop n fifo,
            res_bind (index buff 7) (\<lambda>padding.
              let len = 7 - unat padding
              in Ok (map (\<lambda>b. NOT b) (take len buff)))))"

section \<open>The bytes on the rails\<close>

definition wire_byte :: "u8 \<Rightarrow> bool list" where
  "wire_byte b = map (\<lambda>i. \<not> bit b i) [7, 6, 5, 4, 3, 2, 1, 0]"

text \<open>A packet: at least \<^verbatim>\<open>n\<close> one bits, a zero before each byte, and a final one.\<close>

definition wire_packet :: "nat \<Rightarrow> u8 list \<Rightarrow> bool list" where
  "wire_packet n d = replicate n False @ concat (map (\<lambda>b. True # wire_byte b) d) @ [False]"

section \<open>Shifting a byte\<close>

definition be_word :: "u8 list \<Rightarrow> u32" where
  "be_word bs = foldl (\<lambda>w b. push_bit 8 w OR ucast b) 0 bs"

lemma u8_bit_ge: "8 \<le> n \<Longrightarrow> \<not> bit (b :: u8) n"
  using u8_bit_bound [of b n] by auto

lemma be_bytes_be_word: "be_bytes (be_word [a, b, c, d]) = [a, b, c, d]"
  by (auto simp: be_bytes_def be_word_def bit_simps u8_bit_ge simp del: push_bit_numeral
      dest: u8_bit_bound intro!: bit_eqI)

lemma take_bit_8_ucast: "take_bit 8 (v :: u32) = ucast (ucast v :: u8)"
  by (auto intro!: bit_eqI simp: bit_simps)

text \<open>The bytes a state of the program has taken in: the words in the FIFO and the partial word in
  the shift register.\<close>

definition pio_holds :: "pio \<Rightarrow> u8 list \<Rightarrow> bool" where
  "pio_holds s bs \<longleftrightarrow> (\<exists>p. length p < 4 \<and> pio_count s = 8 * length p \<and> pio_isr s = be_word p
     \<and> bs = concat (map be_bytes (pio_rx s)) @ p)"

lemma pio_holds_count: "pio_holds s bs \<Longrightarrow> pio_count s \<le> 24"
  by (auto simp: pio_holds_def)

lemma pio_holds_in_8:
  assumes "pio_holds s bs"
  shows "pio_holds (pio_in 8 v s) (bs @ [ucast v])"
proof -
  obtain p where p: "length p < 4" "pio_count s = 8 * length p" "pio_isr s = be_word p"
    "bs = concat (map be_bytes (pio_rx s)) @ p"
    using assms by (auto simp: pio_holds_def)
  have w: "push_bit 8 (pio_isr s) OR take_bit 8 v = be_word (p @ [ucast v])"
    by (simp add: p(3) be_word_def take_bit_8_ucast del: push_bit_numeral)
  show ?thesis
  proof (cases "length p = 3")
    case True
    then obtain a b c where "p = [a, b, c]"
      by (auto simp: length_Suc_conv numeral_3_eq_3)
    then have "pio_in 8 v s = s\<lparr>pio_isr := 0, pio_count := 0, pio_rx := pio_rx s @ [be_word [a, b, c, ucast v]]\<rparr>"
      using p(2) w by (simp add: pio_in_def Let_def del: push_bit_numeral)
    then show ?thesis
      using p(4) \<open>p = [a, b, c]\<close> by (simp add: pio_holds_def be_bytes_be_word) (simp add: be_word_def)
  next
    case False
    then have "pio_in 8 v s = s\<lparr>pio_isr := be_word (p @ [ucast v]), pio_count := 8 * length (p @ [ucast v])\<rparr>"
      using p(1,2) w by (simp add: pio_in_def Let_def del: push_bit_numeral)
    then show ?thesis
      using p(1,4) False by (auto simp: pio_holds_def intro!: exI [of _ "p @ [ucast v]"])
  qed
qed

text \<open>Eight bits, most significant first, are shifted in like one byte.\<close>

lemma pio_in_bit:
  assumes "pio_count s + k < 32" "k + Suc i = 8"
  shows "pio_in 1 (of_bool (bit c i)) (pio_in k (ucast (drop_bit (Suc i) c)) s)
     = pio_in (Suc k) (ucast (drop_bit i (c :: u8))) s"
proof -
  have "push_bit 1 (push_bit k (pio_isr s) OR take_bit k (ucast (drop_bit (Suc i) c)))
      OR take_bit 1 (of_bool (bit c i))
    = push_bit (Suc k) (pio_isr s) OR take_bit (Suc k) (ucast (drop_bit i c))" (is "?l = ?r")
  proof (rule bit_eqI)
    fix n
    show "bit ?l n \<longleftrightarrow> bit ?r n"
      using assms(2)
      by (cases n; simp only: bit_or_iff bit_push_bit_iff bit_take_bit_iff bit_unsigned_iff
          bit_drop_bit_eq bit_of_bool_iff comp_def; auto)
  qed
  then show ?thesis using assms(1) by (simp add: pio_in_def Let_def)
qed

lemma pio_in_0: "pio_count s < 32 \<Longrightarrow> pio_in 0 v s = s"
  by (simp add: pio_in_def)

lemma pio_in_fields [simp]:
  "pio_pc (pio_in n v s) = pio_pc s" "pio_x (pio_in n v s) = pio_x s" "pio_y (pio_in n v s) = pio_y s"
  "pio_in n v (s\<lparr>pio_y := y\<rparr>) = (pio_in n v s)\<lparr>pio_y := y\<rparr>"
  "pio_in n v (s\<lparr>pio_x := x\<rparr>) = (pio_in n v s)\<lparr>pio_x := x\<rparr>"
  "pio_in n v (s\<lparr>pio_pc := c\<rparr>) = (pio_in n v s)\<lparr>pio_pc := c\<rparr>"
  by (simp_all add: pio_in_def Let_def)

lemma pio_holds_fields [simp]:
  "pio_holds (s\<lparr>pio_y := y\<rparr>) = pio_holds s" "pio_holds (s\<lparr>pio_x := x\<rparr>) = pio_holds s"
  "pio_holds (s\<lparr>pio_pc := c\<rparr>) = pio_holds s"
  by (auto simp: pio_holds_def fun_eq_iff)

lemma pio_run_simps [simp]:
  "pio_run [] s = s" "pio_run (p # ps) s = pio_run ps (pio_bit p s)"
  "pio_run (ps @ qs) s = pio_run qs (pio_run ps s)"
  by (simp_all add: pio_run_def)

text \<open>After \<^term>\<open>k\<close> of the eight bits of \<^term>\<open>c\<close>.\<close>

definition mid_byte :: "nat \<Rightarrow> u8 \<Rightarrow> pio \<Rightarrow> pio" where
  "mid_byte k c s = (pio_in k (ucast (drop_bit (8 - k) c)) s)\<lparr>pio_y := of_nat (7 - k)\<rparr>"

lemma pio_bit_mid_byte:
  assumes "pio_pc s = ReadPacketBit" "pio_count s \<le> 24" "k < 7"
  shows "pio_bit (bit c (7 - k)) (mid_byte k c s) = mid_byte (Suc k) c s"
proof -
  have "pio_in 1 (of_bool (bit c (7 - k))) (pio_in k (ucast (drop_bit (8 - k) c)) s)
    = pio_in (Suc k) (ucast (drop_bit (7 - k) c)) s"
    using pio_in_bit [of s k "7 - k" c] assms by (simp add: Suc_diff_le flip: Suc_diff_le)
  moreover have small: "k = 0 \<or> k = 1 \<or> k = 2 \<or> k = 3 \<or> k = 4 \<or> k = 5 \<or> k = 6"
    using assms(3) by auto
  have "of_nat (7 - k) \<noteq> (0 :: u32)" "of_nat (7 - k) - 1 = (of_nat (6 - k) :: u32)"
    using small by (elim disjE; simp)+
  ultimately show ?thesis
    using assms by (simp add: pio_bit_def mid_byte_def Let_def)
qed

lemma pio_run_byte:
  assumes "pio_pc s = ReadPacketBit" "pio_y s = 7" "pio_holds s bs"
  obtains t where "pio_run (wire_byte b) s = t" "pio_holds t (bs @ [NOT b])"
    "pio_pc t = CheckMoreData" "pio_x t = pio_x s - 1"
proof -
  let ?c = "NOT b"
  have count: "pio_count s \<le> 24" using assms(3) by (rule pio_holds_count)
  have start: "s = mid_byte 0 ?c s"
    using assms(2) count by (simp add: mid_byte_def pio_in_0)
  have wire: "wire_byte b = map (\<lambda>k. bit ?c (7 - k)) [0, 1, 2, 3, 4, 5, 6, 7]"
    by (simp add: wire_byte_def bit_not_iff)
  have seven: "pio_run (map (\<lambda>k. bit ?c (7 - k)) [0, 1, 2, 3, 4, 5, 6]) s = mid_byte 7 ?c s"
    using pio_bit_mid_byte [OF assms(1) count, of 0 ?c] pio_bit_mid_byte [OF assms(1) count, of 1 ?c]
      pio_bit_mid_byte [OF assms(1) count, of 2 ?c] pio_bit_mid_byte [OF assms(1) count, of 3 ?c]
      pio_bit_mid_byte [OF assms(1) count, of 4 ?c] pio_bit_mid_byte [OF assms(1) count, of 5 ?c]
      pio_bit_mid_byte [OF assms(1) count, of 6 ?c] start
    by (simp add: eval_nat_numeral del: bit_not_iff_eq bit_not_iff)
  have last: "pio_in 1 (of_bool (bit ?c 0)) (pio_in 7 (ucast (drop_bit 1 ?c)) s) = pio_in 8 (ucast ?c) s"
    using pio_in_bit [of s 7 0 ?c] count by simp
  let ?t = "(pio_in 8 (ucast ?c) s)\<lparr>pio_y := -1, pio_x := pio_x s - 1, pio_pc := CheckMoreData\<rparr>"
  have "pio_bit (bit ?c 0) (mid_byte 7 ?c s) = ?t"
    using assms(1) last by (simp add: pio_bit_def mid_byte_def Let_def)
  then have run: "pio_run (wire_byte b) s = ?t"
    using seven by (simp add: wire del: bit_not_iff_eq bit_not_iff)
  have "pio_holds ?t (bs @ [ucast (ucast ?c :: u32)])"
    using pio_holds_in_8 [OF assms(3), of "ucast ?c"] by simp
  moreover have "ucast (ucast ?c :: u32) = ?c"
    by (auto intro!: bit_eqI simp: bit_simps)
  ultimately show thesis using that [OF run] by simp
qed

section \<open>Whole packets\<close>

lemma pio_run_more_bytes:
  assumes "pio_pc s = CheckMoreData" "pio_holds s bs"
  shows "\<exists>t. pio_run (concat (map (\<lambda>b. True # wire_byte b) d)) s = t \<and> pio_holds t (bs @ map (\<lambda>b. NOT b) d)
    \<and> pio_pc t = CheckMoreData \<and> pio_x t = pio_x s - of_nat (length d)"
  using assms
proof (induction d arbitrary: s bs)
  case (Cons b d)
  let ?s = "pio_bit True s"
  have s: "pio_pc ?s = ReadPacketBit" "pio_y ?s = 7" "pio_holds ?s bs" "pio_x ?s = pio_x s"
    using Cons.prems by (simp_all add: pio_bit_def)
  obtain t where t: "pio_run (wire_byte b) ?s = t" "pio_holds t (bs @ [NOT b])"
    "pio_pc t = CheckMoreData" "pio_x t = pio_x ?s - 1"
    by (rule pio_run_byte [OF s(1-3)])
  then show ?case using Cons.IH [OF t(3,2)] s(4) by simp
qed simp

lemma padding_loop_holds:
  "pio_holds s bs \<Longrightarrow> pio_holds (padding_loop n s) (bs @ replicate n 0)"
proof (induction n arbitrary: s bs)
  case (Suc n)
  then show ?case using Suc.IH [OF pio_holds_in_8 [OF Suc.prems, of 0]] by simp
qed simp

lemma padding_loop_fields [simp]: "pio_y (padding_loop n s) = pio_y s"
  by (induction n arbitrary: s) simp_all

lemma pio_bit_end:
  assumes "pio_pc s = CheckMoreData" "pio_holds s bs"
  shows "\<exists>t. pio_bit False s = t \<and> pio_holds t (bs @ replicate (unat (pio_x s)) 0 @ [ucast (pio_x s)])
    \<and> pio_pc t = PreambleCandidate \<and> pio_x t = 9"
proof -
  have "pio_holds (s\<lparr>pio_y := pio_x s\<rparr>) bs" using assms(2) by simp
  then have "pio_holds (padding_loop (unat (pio_x s)) (s\<lparr>pio_y := pio_x s\<rparr>)) (bs @ replicate (unat (pio_x s)) 0)"
    by (rule padding_loop_holds)
  from pio_holds_in_8 [OF this, of "pio_x s"] show ?thesis
    using assms(1) by (simp add: pio_bit_def Let_def)
qed

lemma pio_run_start: "pio_pc s = PacketStart \<Longrightarrow> pio_run (replicate n False) s = s"
  by (induction n) (simp_all add: pio_bit_def)

lemma pio_run_preamble:
  assumes "pio_pc s = PreambleCandidate" "unat (pio_x s) < n"
  shows "\<exists>x. pio_run (replicate n False) s = s\<lparr>pio_x := x, pio_pc := PacketStart\<rparr>"
  using assms
proof (induction n arbitrary: s)
  case (Suc n)
  show ?case
  proof (cases "pio_x s = 0")
    case True
    then show ?thesis using Suc.prems by (auto simp: pio_bit_def pio_run_start)
  next
    case False
    then have "unat (pio_x s - 1) = unat (pio_x s) - 1" "0 < unat (pio_x s)"
      by (simp_all add: unat_minus_one unat_gt_0)
    then have "unat (pio_x s - 1) < n" using Suc.prems(2) by linarith
    then show ?thesis
      using Suc.IH [of "s\<lparr>pio_x := pio_x s - 1\<rparr>"] Suc.prems False by (auto simp: pio_bit_def)
  qed
qed simp

text \<open>What one packet becomes in the FIFO: the inverted bytes, the padding and its length.\<close>

definition frame :: "u8 list \<Rightarrow> u8 list" where
  "frame d = map (\<lambda>b. NOT b) d @ replicate (7 - length d) 0 @ [of_nat (7 - length d)]"

lemma length_frame: "length d \<le> 7 \<Longrightarrow> length (frame d) = 8"
  by (simp add: frame_def)

lemma pio_run_body:
  assumes "pio_pc s = PreambleCandidate" "unat (pio_x s) < n" "pio_holds s bs"
    "1 \<le> length d" "length d \<le> 7"
  shows "\<exists>u. pio_run (replicate n False @ concat (map (\<lambda>b. True # wire_byte b) d)) s = u
    \<and> pio_holds u (bs @ map (\<lambda>b. NOT b) d) \<and> pio_pc u = CheckMoreData \<and> pio_x u = of_nat (7 - length d)"
proof -
  obtain b e where d: "d = b # e" using assms(4) by (cases d) auto
  obtain x where pre: "pio_run (replicate n False) s = s\<lparr>pio_x := x, pio_pc := PacketStart\<rparr>"
    using pio_run_preamble [OF assms(1,2)] by blast
  let ?s = "pio_bit True (s\<lparr>pio_x := x, pio_pc := PacketStart\<rparr>)"
  have s: "pio_pc ?s = ReadPacketBit" "pio_y ?s = 7" "pio_holds ?s bs" "pio_x ?s = 7"
    using assms(3) by (simp_all add: pio_bit_def)
  obtain t where t: "pio_run (wire_byte b) ?s = t" "pio_holds t (bs @ [NOT b])"
    "pio_pc t = CheckMoreData" "pio_x t = pio_x ?s - 1"
    by (rule pio_run_byte [OF s(1-3)])
  obtain u where u: "pio_run (concat (map (\<lambda>b. True # wire_byte b) e)) t = u"
    "pio_holds u (bs @ map (\<lambda>b. NOT b) d)" "pio_pc u = CheckMoreData" "pio_x u = pio_x t - of_nat (length e)"
    using pio_run_more_bytes [OF t(3,2), of e] d by auto
  have "length e \<le> 6" using assms(5) d by simp
  then have "pio_x u = of_nat (7 - length d)"
    using u(4) t(4) s(4) d by (simp add: of_nat_diff)
  then show ?thesis using u(2,3) pre t(1) u(1) by (simp add: d)
qed

lemma pio_run_packet:
  assumes "pio_pc s = PreambleCandidate" "unat (pio_x s) < n" "pio_holds s bs"
    "1 \<le> length d" "length d \<le> 7"
  shows "\<exists>t. pio_run (wire_packet n d) s = t \<and> pio_holds t (bs @ frame d)
    \<and> pio_pc t = PreambleCandidate \<and> pio_x t = 9"
proof -
  obtain u where u: "pio_run (replicate n False @ concat (map (\<lambda>b. True # wire_byte b) d)) s = u"
    "pio_holds u (bs @ map (\<lambda>b. NOT b) d)" "pio_pc u = CheckMoreData" "pio_x u = of_nat (7 - length d)"
    using pio_run_body [OF assms] by blast
  have x: "unat (pio_x u) = 7 - length d" "ucast (pio_x u) = (of_nat (7 - length d) :: u8)"
    by (simp_all add: u(4) unsigned_of_nat take_bit_eq_mod word_unat_eq_iff unsigned_ucast_eq)
  obtain v where "pio_bit False u = v" "pio_holds v (bs @ frame d)" "pio_pc v = PreambleCandidate" "pio_x v = 9"
    using pio_bit_end [OF u(3,2)] x by (auto simp: frame_def)
  moreover have "pio_run (wire_packet n d) s = pio_bit False u"
    using u(1) by (simp add: wire_packet_def)
  ultimately show ?thesis by simp
qed

lemma pio_run_packets:
  assumes "pio_pc s = PreambleCandidate" "unat (pio_x s) \<le> 10" "pio_holds s bs" "11 \<le> n"
    "\<forall>d \<in> set ds. 1 \<le> length d \<and> length d \<le> 7"
  shows "pio_holds (pio_run (concat (map (wire_packet n) ds)) s) (bs @ concat (map frame ds))"
  using assms
proof (induction ds arbitrary: s bs)
  case (Cons d ds)
  then obtain t where "pio_run (wire_packet n d) s = t" "pio_holds t (bs @ frame d)"
    "pio_pc t = PreambleCandidate" "pio_x t = 9"
    using pio_run_packet [of s n bs d] by auto
  then show ?case using Cons.IH [of t "bs @ frame d"] Cons.prems by simp
qed simp

section \<open>Reading frames\<close>

text \<open>The bytes waiting in the FIFO.\<close>

definition fifo_bytes :: "u32 list \<Rightarrow> u8 list" where
  "fifo_bytes fifo = concat (map be_bytes fifo)"

lemma fifo_bytes_simps [simp]:
  "fifo_bytes [] = []" "fifo_bytes (w # ws) = be_bytes w @ fifo_bytes ws"
  by (simp_all add: fifo_bytes_def)

lemma length_be_bytes [simp]: "length (be_bytes w) = 4"
  by (simp add: be_bytes_def)

lemma length_fifo_bytes: "length (fifo_bytes fifo) = 4 * length fifo"
  by (induction fifo) simp_all

lemma not_not_bytes: "map (\<lambda>b. NOT b) (map (\<lambda>b. NOT b) d) = (d :: u8 list)"
  by (simp add: comp_def)

lemma pio_read_frame:
  assumes "fifo_bytes fifo = frame d @ rest" "length d \<le> 7" "length buff = 8"
  shows "\<exists>fifo'. pio_read buff fifo = Some (fifo', Ok d) \<and> fifo_bytes fifo' = rest"
proof -
  have "4 * length fifo \<ge> 8"
    using length_fifo_bytes [of fifo] length_frame [OF assms(2)] by (simp add: assms(1))
  then obtain w v ws where fifo: "fifo = w # v # ws"
    by (cases fifo rule: remdups_adj.cases) auto
  have "(be_bytes w @ be_bytes v) @ fifo_bytes ws = frame d @ rest" using assms(1) by (simp add: fifo)
  moreover have "length (be_bytes w @ be_bytes v) = length (frame d)" using length_frame [OF assms(2)] by simp
  ultimately have eq: "be_bytes w @ be_bytes v = frame d" "fifo_bytes ws = rest"
    by (metis append_eq_append_conv)+
  have "unat (of_nat (7 - length d) :: u8) = 7 - length d"
    by (simp add: unsigned_of_nat take_bit_eq_mod)
  moreover have "index (frame d) 7 = (Ok (of_nat (7 - length d)) :: (unit, u8) res)"
    using assms(2) by (simp add: index_def frame_def nth_append)
  moreover have "take (length d) (frame d) = map (\<lambda>b. NOT b) d" by (simp add: frame_def)
  ultimately have "pio_read buff fifo = Some (ws, Ok (map (\<lambda>b. NOT b) (map (\<lambda>b. NOT b) d)))"
    using assms(2,3) by (simp add: pio_read_def Let_def fifo eq(1))
  then show ?thesis using eq(2) by (simp only: not_not_bytes) simp
qed

text \<open>The raw packets the reader delivers until it waits.\<close>

function pio_read_all :: "u32 list \<Rightarrow> u8 list list" where
  "pio_read_all fifo = (case pio_read (replicate 8 0) fifo of
      Some (fifo', Ok d) \<Rightarrow> d # pio_read_all fifo'
    | _ \<Rightarrow> [])"
  by pat_completeness auto

lemma pio_read_shorter: "pio_read (replicate 8 b) fifo = Some (fifo', r) \<Longrightarrow> length fifo' < length fifo"
  by (auto simp: pio_read_def Let_def split: if_splits)

termination pio_read_all
  by (relation "measure length") (auto dest: pio_read_shorter)

declare pio_read_all.simps [simp del]

lemma pio_read_all_frames:
  "fifo_bytes fifo = concat (map frame ds) \<Longrightarrow> \<forall>d \<in> set ds. length d \<le> 7 \<Longrightarrow> pio_read_all fifo = ds"
proof (induction ds arbitrary: fifo)
  case Nil
  then have "fifo = []" using length_fifo_bytes [of fifo] by simp
  then show ?case by (simp add: pio_read_all.simps pio_read_def)
next
  case (Cons d ds)
  then obtain fifo' where "pio_read (replicate 8 0) fifo = Some (fifo', Ok d)"
    "fifo_bytes fifo' = concat (map frame ds)"
    using pio_read_frame [of fifo d "concat (map frame ds)" "replicate 8 0"] by auto
  then show ?case using Cons by (simp add: pio_read_all.simps [of fifo])
qed

lemma pio_holds_frames:
  assumes "pio_holds s bs" "length bs mod 4 = 0"
  shows "fifo_bytes (pio_rx s) = bs"
proof -
  obtain p where p: "length p < 4" "bs = fifo_bytes (pio_rx s) @ p"
    using assms(1) by (auto simp: pio_holds_def fifo_bytes_def)
  then have "length p mod 4 = 0" using assms(2) by (simp add: length_fifo_bytes)
  then show ?thesis using p by simp
qed

lemma pio_holds_init: "pio_holds pio_init []"
  by (simp add: pio_holds_def pio_init_def be_word_def)

section \<open>Properties\<close>

text \<open>The packets on the rails are the packets read.\<close>

lemma pio_reads_packets:
  assumes "11 \<le> n" "\<forall>d \<in> set ds. 1 \<le> length d \<and> length d \<le> 7"
  shows "pio_read_all (pio_rx (pio_run (concat (map (wire_packet n) ds)) pio_init)) = ds"
proof -
  let ?s = "pio_run (concat (map (wire_packet n) ds)) pio_init"
  have "pio_holds ?s ([] @ concat (map frame ds))"
    using assms pio_holds_init by (intro pio_run_packets) (simp_all add: pio_init_def)
  moreover have "length (concat (map frame ds)) = 8 * length ds"
    using assms(2) by (induction ds) (simp_all add: length_frame)
  ultimately have "fifo_bytes (pio_rx ?s) = concat (map frame ds)"
    by (simp add: pio_holds_frames)
  then show ?thesis using assms(2) by (intro pio_read_all_frames) simp_all
qed

text \<open>From the rails to the decoder. Put any sequence of raw packets of one to seven bytes on the
  rails, each after at least eleven one bits: the PIO program frames each into two FIFO words, and
  reading them back with the length recovered from the padding count and the bytes inverted
  delivers exactly those packets, in order, none lost and none merged.\<close>

theorem rails_to_raw_packets:
  assumes "11 \<le> n" "\<forall>d \<in> set ds. 1 \<le> length d \<and> length d \<le> 7"
  shows "pio_read_all (pio_rx (pio_run (concat (map (wire_packet n) ds)) pio_init)) = ds"
  by (rule pio_reads_packets [OF assms])

lemma rails_to_raw_packets_witness:
  "pio_read_all (pio_rx (pio_run (concat (map (wire_packet 11) [[3, 0x3F, 0x90, 0xAC], [0xFF, 0, 0xFF]])) pio_init))
     = [[3, 0x3F, 0x90, 0xAC], [0xFF, 0, 0xFF]]"
  using rails_to_raw_packets [of 11 "[[3, 0x3F, 0x90, 0xAC], [0xFF, 0, 0xFF]]"] by simp

text \<open>A preamble needs eleven one bits. With ten or fewer ones before the start bit the program is
  back to looking for a full preamble and has taken in nothing; the comments ask for ten.\<close>

theorem short_preamble_rejected:
  assumes "pio_pc s = PreambleCandidate" "pio_x s = 10"
  shows "pio_run (replicate n False @ [True]) s = s \<longleftrightarrow> n \<le> 10"
proof (cases "n \<le> 10")
  case True
  have "\<forall>k \<le> 10. pio_run (replicate k False) s = s\<lparr>pio_x := of_nat (10 - k)\<rparr>"
  proof (intro allI impI)
    fix k :: nat assume "k \<le> 10"
    then show "pio_run (replicate k False) s = s\<lparr>pio_x := of_nat (10 - k)\<rparr>"
    proof (induction k)
      case (Suc k)
      then have k: "10 - k = Suc (10 - Suc k)" by simp
      have "unat (of_nat (10 - k) :: u32) = 10 - k"
        by (simp add: unsigned_of_nat take_bit_eq_mod del: of_nat_diff)
      then have "of_nat (10 - k) \<noteq> (0 :: u32)" using k by (metis nat.distinct(1) unat_0)
      moreover have "of_nat (10 - k) - 1 = (of_nat (10 - Suc k) :: u32)" by (simp only: k of_nat_Suc) simp
      ultimately have "pio_bit False (s\<lparr>pio_x := of_nat (10 - k)\<rparr>) = s\<lparr>pio_x := of_nat (10 - Suc k)\<rparr>"
        using assms(1) by (simp add: pio_bit_def del: of_nat_diff)
      moreover have "replicate (Suc k) False = replicate k False @ [False]"
        by (simp add: replicate_append_same)
      ultimately show ?case using Suc using Suc_leD by (simp only: pio_run_simps)
    qed (use assms in simp)
  qed
  then show ?thesis using True assms by (simp add: pio_bit_def)
next
  case False
  then have "unat (pio_x s) < n" using assms(2) by simp
  then obtain x where "pio_run (replicate n False) s = s\<lparr>pio_x := x, pio_pc := PacketStart\<rparr>"
    using pio_run_preamble [OF assms(1)] by blast
  then have "pio_pc (pio_run (replicate n False @ [True]) s) = ReadPacketBit"
    by (simp add: pio_bit_def)
  then show ?thesis using False assms(1) by auto
qed

lemma short_preamble_rejected_witness:
  "pio_run (replicate 10 False @ [True]) pio_init = pio_init"
  using short_preamble_rejected [of pio_init 10] by (simp add: pio_init_def)

end
