(* ===== verification/F32.thy ===== *)
theory F32
  imports Complex_Main Prelude "HOL-Library.Log_Nat"
begin

text \<open>
  Single-precision arithmetic of the speed control code. An \<^verbatim>\<open>f32\<close> is the rational number it
  stands for; an operation is the exact operation followed by rounding to 24 significant bits,
  ties to even, as IEEE 754 and Rust prescribe. The exponent is not bounded: every value the
  modelled code computes is either zero or far inside the normal range, so that overflow,
  subnormal numbers, infinities and NaN do not arise.
\<close>

section \<open>Rounding\<close>

type_synonym f32 = rat

text \<open>The exponent of the leading bit of a positive number.\<close>

definition ilog2 :: "rat \<Rightarrow> int" where
  "ilog2 x = (let (p, q) = quotient_of x; e = bitlen p - bitlen q
     in if 2 powi e \<le> x then e else e - 1)"

definition round_even :: "rat \<Rightarrow> int" where
  "round_even x = (let f = \<lfloor>x\<rfloor>; r = x - of_int f
     in if r < 1 / 2 then f else if 1 / 2 < r then f + 1 else if even f then f else f + 1)"

definition rnd :: "rat \<Rightarrow> f32" where
  "rnd x = (if x = 0 then 0
     else let u = 2 powi (ilog2 \<bar>x\<bar> - 23) in of_int (round_even (x / u)) * u)"

definition f_add :: "f32 \<Rightarrow> f32 \<Rightarrow> f32" where
  "f_add a b = rnd (a + b)"

definition f_sub :: "f32 \<Rightarrow> f32 \<Rightarrow> f32" where
  "f_sub a b = rnd (a - b)"

definition f_mul :: "f32 \<Rightarrow> f32 \<Rightarrow> f32" where
  "f_mul a b = rnd (a * b)"

definition f_div :: "f32 \<Rightarrow> f32 \<Rightarrow> f32" where
  "f_div a b = rnd (a / b)"

text \<open>\<^verbatim>\<open>as f32\<close> from an integer and the saturating, truncating \<^verbatim>\<open>as u16\<close> to one.\<close>

definition f_of_nat :: "nat \<Rightarrow> f32" where
  "f_of_nat n = rnd (of_nat n)"

definition f_to_u16 :: "f32 \<Rightarrow> u16" where
  "f_to_u16 x = (if x \<le> 0 then 0 else if 65535 \<le> x then 65535 else of_int \<lfloor>x\<rfloor>)"

definition f_clamp :: "f32 \<Rightarrow> f32 \<Rightarrow> f32 \<Rightarrow> ('e, f32) res" where
  "f_clamp x lo hi = (if hi < lo then Panic else Ok (if x < lo then lo else if hi < x then hi else x))"

section \<open>Error bounds\<close>

lemma powi_2_pos [simp]: "0 < (2 :: rat) powi e"
  by simp

lemma powi_2_Suc: "(2 :: rat) powi (e + 1) = 2 * 2 powi e"
  by (simp add: power_int_add)

lemma ilog2_bounds:
  assumes "0 < x"
  shows "2 powi (ilog2 x) \<le> x" and "x < 2 powi (ilog2 x + 1)"
proof -
  obtain p q where pq: "quotient_of x = (p, q)" by fastforce
  then have x: "x = of_int p / of_int q" and q: "0 < q"
    using quotient_of_div quotient_of_denom_pos by blast+
  have p: "0 < p" using assms x q by (simp add: zero_less_divide_iff)
  have powi: "(2 :: rat) powi (bitlen z - 1) \<le> of_int z \<and> of_int z < (2 :: rat) powi (bitlen z)"
    if "0 < z" for z
  proof -
    have "1 \<le> bitlen z" using that bitlen_nonneg [of z] bitlen_eq_zero_iff [of z] by linarith
    moreover have "2 ^ nat (bitlen z - 1) \<le> z" "z < 2 ^ nat (bitlen z)"
      using bitlen_bounds [OF that] by auto
    then have "(of_int (2 ^ nat (bitlen z - 1)) :: rat) \<le> of_int z" "of_int z < (of_int (2 ^ nat (bitlen z)) :: rat)"
      by (simp_all only: of_int_le_iff of_int_less_iff)
    ultimately show ?thesis by (simp add: power_int_def)
  qed
  let ?e = "bitlen p - bitlen q"
  have up: "x < 2 powi (?e + 1)"
  proof -
    have "x < 2 powi (bitlen p) / 2 powi (bitlen q - 1)"
      unfolding x using powi [OF p] powi [OF q] p q by (intro frac_less) auto
    also have "\<dots> = 2 powi (?e + 1)" by (simp add: power_int_diff power_int_add)
    finally show ?thesis .
  qed
  have low: "2 powi (?e - 1) < x"
  proof -
    have "2 powi (bitlen p - 1) / 2 powi (bitlen q) < x"
      unfolding x using powi [OF p] powi [OF q] p q by (intro frac_less2) auto
    then show ?thesis by (simp add: power_int_diff)
  qed
  have "ilog2 x = (if 2 powi ?e \<le> x then ?e else ?e - 1)"
    by (simp add: ilog2_def pq Let_def)
  then show "2 powi (ilog2 x) \<le> x" "x < 2 powi (ilog2 x + 1)"
    using up low by (auto split: if_splits)
qed

lemma ilog2_unique:
  assumes "2 powi e \<le> x" "x < 2 powi (e + 1)"
  shows "ilog2 x = e"
proof -
  have x: "0 < x" using powi_2_pos [of e] assms(1) by linarith
  have "ilog2 x \<le> e"
  proof (rule ccontr)
    assume "\<not> ilog2 x \<le> e"
    then have "(2 :: rat) powi (e + 1) \<le> 2 powi (ilog2 x)" by (intro power_int_increasing) auto
    then show False using ilog2_bounds(1) [OF x] assms(2) by linarith
  qed
  moreover have "e \<le> ilog2 x"
  proof (rule ccontr)
    assume "\<not> e \<le> ilog2 x"
    then have "(2 :: rat) powi (ilog2 x + 1) \<le> 2 powi e" by (intro power_int_increasing) auto
    then show False using ilog2_bounds(2) [OF x] assms(1) by linarith
  qed
  ultimately show ?thesis by simp
qed

lemma ilog2_mono:
  assumes "0 < x" "x \<le> y" shows "ilog2 x \<le> ilog2 y"
proof (rule ccontr)
  assume "\<not> ilog2 x \<le> ilog2 y"
  then have "(2 :: rat) powi (ilog2 y + 1) \<le> 2 powi (ilog2 x)" by (intro power_int_increasing) auto
  then show False using ilog2_bounds(1) [of x] ilog2_bounds(2) [of y] assms by linarith
qed

lemma round_even_error: "\<bar>of_int (round_even x) - x\<bar> \<le> 1 / 2"
proof -
  have "of_int \<lfloor>x\<rfloor> \<le> x" "x < of_int \<lfloor>x\<rfloor> + 1" by linarith+
  then show ?thesis by (auto simp: round_even_def Let_def abs_le_iff)
qed

lemma round_even_of_int [simp]: "round_even (of_int n) = n"
  by (simp add: round_even_def)

lemma round_even_mono: "x \<le> y \<Longrightarrow> round_even x \<le> round_even y"
proof -
  assume xy: "x \<le> y"
  have f: "\<lfloor>x\<rfloor> \<le> \<lfloor>y\<rfloor>" using xy by (rule floor_mono)
  show ?thesis
  proof (cases "\<lfloor>x\<rfloor> = \<lfloor>y\<rfloor>")
    case True
    then show ?thesis using xy by (auto simp: round_even_def Let_def)
  next
    case False
    then show ?thesis using f by (auto simp: round_even_def Let_def)
  qed
qed

lemma round_even_minus: "round_even (- x) = - round_even x"
proof (cases "x = of_int \<lfloor>x\<rfloor>")
  case True
  then have "round_even (- x) = round_even (of_int (- \<lfloor>x\<rfloor>))" by simp
  also have "\<dots> = - round_even (of_int \<lfloor>x\<rfloor>)" by (simp only: round_even_of_int)
  finally show ?thesis using True by simp
next
  case False
  have "of_int \<lfloor>x\<rfloor> \<le> x" "x < of_int \<lfloor>x\<rfloor> + 1" by linarith+
  moreover from this False have "of_int \<lfloor>x\<rfloor> < x" by linarith
  ultimately have "\<lfloor>- x\<rfloor> = - \<lfloor>x\<rfloor> - 1" by (intro floor_unique) auto
  then show ?thesis by (auto simp: round_even_def Let_def)
qed

text \<open>The unit in the last place of a number.\<close>

definition ulp :: "rat \<Rightarrow> rat" where
  "ulp x = 2 powi (ilog2 \<bar>x\<bar> - 23)"

lemma ulp_pos [simp]: "0 < ulp x"
  by (simp add: ulp_def)

lemma rnd_0 [simp]: "rnd 0 = 0"
  by (simp add: rnd_def)

lemma rnd_ulp: "x \<noteq> 0 \<Longrightarrow> rnd x = of_int (round_even (x / ulp x)) * ulp x"
  by (simp add: rnd_def ulp_def Let_def)

lemma rnd_minus: "rnd (- x) = - rnd x"
  by (simp add: rnd_def round_even_minus Let_def)

lemma rnd_error_ulp: "x \<noteq> 0 \<Longrightarrow> \<bar>rnd x - x\<bar> \<le> ulp x / 2"
proof -
  assume x: "x \<noteq> 0"
  have "rnd x - x = (of_int (round_even (x / ulp x)) - x / ulp x) * ulp x"
    using x by (simp add: rnd_ulp algebra_simps less_imp_neq [OF ulp_pos, symmetric])
  then have "\<bar>rnd x - x\<bar> = \<bar>of_int (round_even (x / ulp x)) - x / ulp x\<bar> * ulp x"
    by (simp only: abs_mult abs_of_pos [OF ulp_pos])
  also have "\<dots> \<le> 1 / 2 * ulp x"
    by (intro mult_right_mono round_even_error) (simp add: less_imp_le)
  finally show ?thesis by simp
qed

text \<open>A result below \<^term>\<open>2 ^ k\<close> is off by at most \<^term>\<open>2 ^ k\<close> divided by \<^term>\<open>2 ^ 24\<close>.\<close>

lemma rnd_error:
  assumes "\<bar>x\<bar> \<le> 2 ^ k"
  shows "\<bar>rnd x - x\<bar> \<le> 2 ^ k / 2 ^ 24"
proof (cases "x = 0")
  case False
  have le: "ilog2 \<bar>x\<bar> \<le> int k"
  proof (rule ccontr)
    assume "\<not> ilog2 \<bar>x\<bar> \<le> int k"
    then have "(2 :: rat) powi (int k + 1) \<le> 2 powi (ilog2 \<bar>x\<bar>)" by (intro power_int_increasing) auto
    then show False using ilog2_bounds(1) [of "\<bar>x\<bar>"] False assms
      by (simp add: power_int_add power_int_of_nat)
  qed
  have "ulp x \<le> 2 powi (int k - 23)"
    unfolding ulp_def using le by (intro power_int_increasing) auto
  also have "\<dots> = 2 ^ k / 2 ^ 23" by (simp add: power_int_diff)
  finally show ?thesis using rnd_error_ulp [OF False] by simp
qed simp

section \<open>Exactness and monotonicity\<close>

lemma rnd_exact:
  assumes "\<bar>m\<bar> < 2 ^ 24" shows "rnd (of_int m * 2 powi e) = of_int m * 2 powi e"
proof (cases "m = 0")
  case False
  let ?x = "of_int m * 2 powi e :: rat"
  have x: "?x \<noteq> 0" using False by simp
  have "\<bar>of_int m :: rat\<bar> < of_int (2 ^ 24)" using assms by (simp only: of_int_less_iff flip: of_int_abs)
  then have lt: "\<bar>?x\<bar> < 2 powi (24 + e)" by (simp add: abs_mult power_int_add)
  have "ilog2 \<bar>?x\<bar> \<le> 23 + e"
  proof (rule ccontr)
    assume "\<not> ilog2 \<bar>?x\<bar> \<le> 23 + e"
    then have "(2 :: rat) powi (24 + e) \<le> 2 powi (ilog2 \<bar>?x\<bar>)" by (intro power_int_increasing) auto
    moreover have "2 powi (ilog2 \<bar>?x\<bar>) \<le> \<bar>?x\<bar>" using x by (intro ilog2_bounds) simp
    ultimately show False using lt by linarith
  qed
  then obtain n where n: "e - (ilog2 \<bar>?x\<bar> - 23) = int n" using nonneg_int_cases [of "e - (ilog2 \<bar>?x\<bar> - 23)"] by auto
  have "?x / ulp ?x = of_int m * 2 powi (e - (ilog2 \<bar>?x\<bar> - 23))"
    using power_int_diff [of "2 :: rat" e "ilog2 \<bar>?x\<bar> - 23"] unfolding ulp_def by simp
  also have "\<dots> = of_int (m * 2 ^ n)" by (simp add: n)
  finally have i: "?x / ulp ?x = of_int (m * 2 ^ n)" .
  have "rnd ?x = of_int (m * 2 ^ n) * ulp ?x"
    by (simp only: rnd_ulp [OF x] i round_even_of_int)
  also have "\<dots> = ?x" using i less_imp_neq [OF ulp_pos, of ?x] by (auto simp: field_simps)
  finally show ?thesis .
qed simp

lemma rnd_of_int [simp]: "\<bar>m\<bar> < 2 ^ 24 \<Longrightarrow> rnd (of_int m) = of_int m"
  using rnd_exact [of m 0] by simp

lemma rnd_of_nat [simp]: "n < 2 ^ 24 \<Longrightarrow> rnd (of_nat n) = of_nat n"
  using rnd_of_int [of "int n"] by simp

lemma f_of_nat [simp]: "n < 2 ^ 24 \<Longrightarrow> f_of_nat n = of_nat n"
  by (simp add: f_of_nat_def)

lemma rnd_bounds:
  assumes "0 < x"
  shows "2 powi (ilog2 x) \<le> rnd x" and "rnd x \<le> 2 powi (ilog2 x + 1)"
proof -
  have u: "ulp x = 2 powi (ilog2 x - 23)" using assms by (simp add: ulp_def)
  have p: "2 powi (ilog2 x) = of_int (2 ^ 23) * ulp x" "2 powi (ilog2 x + 1) = of_int (2 ^ 24) * ulp x"
    by (simp_all add: u power_int_diff power_int_add)
  have "of_int (2 ^ 23) \<le> x / ulp x" "x / ulp x \<le> of_int (2 ^ 24)"
    using ilog2_bounds [OF assms] unfolding p by (simp_all add: pos_le_divide_eq pos_divide_le_eq)
  then have "2 ^ 23 \<le> round_even (x / ulp x)" "round_even (x / ulp x) \<le> 2 ^ 24"
    using round_even_mono [of "of_int (2 ^ 23)" "x / ulp x"] round_even_mono [of "x / ulp x" "of_int (2 ^ 24)"]
    by (simp_all only: round_even_of_int)
  then have "of_int (2 ^ 23) * ulp x \<le> of_int (round_even (x / ulp x)) * ulp x"
    "of_int (round_even (x / ulp x)) * ulp x \<le> of_int (2 ^ 24) * ulp x"
    by (intro mult_right_mono; simp only: of_int_le_iff ulp_pos less_imp_le)+
  then show "2 powi (ilog2 x) \<le> rnd x" "rnd x \<le> 2 powi (ilog2 x + 1)"
    using assms by (simp_all only: p rnd_ulp [of x, OF less_imp_neq [OF assms, symmetric]])
qed

lemma rnd_pos: "0 < x \<Longrightarrow> 0 < rnd x"
  using rnd_bounds(1) [of x] powi_2_pos [of "ilog2 x"] by linarith

lemma rnd_nonneg: "0 \<le> x \<Longrightarrow> 0 \<le> rnd x"
  using rnd_pos [of x] by (cases "x = 0") auto

lemma rnd_mono_pos:
  assumes "0 < x" "x \<le> y" shows "rnd x \<le> rnd y"
proof (cases "ilog2 x = ilog2 y")
  case True
  have y: "0 < y" using assms by linarith
  have u: "ulp x = ulp y" using True assms y by (simp add: ulp_def)
  have "x / ulp y \<le> y / ulp y" using assms(2) by (simp add: divide_right_mono less_imp_le)
  then have "round_even (x / ulp y) \<le> round_even (y / ulp y)" by (rule round_even_mono)
  then have "of_int (round_even (x / ulp y)) * ulp y \<le> of_int (round_even (y / ulp y)) * ulp y"
    by (intro mult_right_mono) (simp_all add: less_imp_le)
  then show ?thesis using assms y by (simp add: rnd_ulp u)
next
  case False
  have y: "0 < y" using assms by linarith
  have "ilog2 x + 1 \<le> ilog2 y" using ilog2_mono [OF assms] False by simp
  then have "(2 :: rat) powi (ilog2 x + 1) \<le> 2 powi (ilog2 y)" by (intro power_int_increasing) auto
  then show ?thesis using rnd_bounds(2) [OF assms(1)] rnd_bounds(1) [OF y] by linarith
qed

lemma rnd_mono: "x \<le> y \<Longrightarrow> rnd x \<le> rnd y"
proof -
  assume xy: "x \<le> y"
  consider "0 < x" | "y < 0" | "x \<le> 0" "0 \<le> y" by linarith
  then show ?thesis
  proof cases
    case 1
    then show ?thesis using xy by (rule rnd_mono_pos)
  next
    case 2
    then show ?thesis using rnd_mono_pos [of "- y" "- x"] xy by (simp add: rnd_minus)
  next
    case 3
    then show ?thesis using rnd_nonneg [of y] rnd_nonneg [of "- x"] by (simp add: rnd_minus)
  qed
qed

section \<open>Double precision\<close>

text \<open>An \<^verbatim>\<open>f64\<close> likewise, with 53 significant bits.\<close>

type_synonym f64 = rat

definition rnd64 :: "rat \<Rightarrow> f64" where
  "rnd64 x = (if x = 0 then 0
     else let u = 2 powi (ilog2 \<bar>x\<bar> - 52) in of_int (round_even (x / u)) * u)"

lemma rnd64_error:
  assumes "0 < x"
  shows "\<bar>rnd64 x - x\<bar> \<le> x / 2 ^ 53"
proof -
  let ?u = "2 powi (ilog2 x - 52) :: rat"
  have u: "0 < ?u" "?u \<le> x / 2 ^ 52"
    using ilog2_bounds(1) [OF assms] by (simp_all add: power_int_diff divide_right_mono)
  have "rnd64 x - x = (of_int (round_even (x / ?u)) - x / ?u) * ?u"
    using assms u(1) by (simp add: rnd64_def Let_def algebra_simps)
  then have "\<bar>rnd64 x - x\<bar> = \<bar>of_int (round_even (x / ?u)) - x / ?u\<bar> * ?u"
    using u(1) by (simp only: abs_mult abs_of_pos)
  also have "\<dots> \<le> 1 / 2 * ?u" using round_even_error u(1) by (intro mult_right_mono) simp_all
  also have "\<dots> \<le> x / 2 ^ 53" using u(2) by simp
  finally show ?thesis .
qed

text \<open>Rounding to double precision does not move a number below \<^term>\<open>2 ^ 52\<close> past an integer.\<close>

lemma rnd64_unit:
  assumes "0 < x" "x < 2 ^ 52"
  obtains k where "2 powi (ilog2 x - 52) = 1 / (2 :: rat) ^ k"
proof -
  have "ilog2 x < 52"
  proof (rule ccontr)
    assume "\<not> ilog2 x < 52"
    then have "(2 :: rat) powi 52 \<le> 2 powi (ilog2 x)" by (intro power_int_increasing) auto
    then show False using ilog2_bounds(1) [OF assms(1)] assms(2) by simp
  qed
  then obtain k where k: "52 - ilog2 x = int k" using nonneg_int_cases [of "52 - ilog2 x"] by auto
  then have "ilog2 x - 52 = - int k" by simp
  then show thesis by (intro that [of k]) (simp add: power_int_minus divide_inverse)
qed

lemma rnd64_bounds:
  assumes "0 < x" "x < 2 ^ 52"
  shows "of_int a \<le> x \<Longrightarrow> of_int a \<le> rnd64 x" and "x \<le> of_int b \<Longrightarrow> rnd64 x \<le> of_int b"
proof -
  obtain k where k: "2 powi (ilog2 x - 52) = 1 / (2 :: rat) ^ k" using rnd64_unit [OF assms] .
  have r: "rnd64 x = of_int (round_even (x * 2 ^ k)) / 2 ^ k"
    using assms(1) by (simp add: rnd64_def k Let_def)
  have "of_int (a * 2 ^ k) \<le> x * 2 ^ k" if "of_int a \<le> x"
    using that by simp
  then show "of_int a \<le> rnd64 x" if "of_int a \<le> x"
    using that round_even_mono [of "of_int (a * 2 ^ k)" "x * 2 ^ k"] unfolding round_even_of_int r
    by (simp add: pos_le_divide_eq) (metis of_int_le_iff of_int_mult of_int_numeral of_int_power)
  have "x * 2 ^ k \<le> of_int (b * 2 ^ k)" if "x \<le> of_int b"
    using that by simp
  then show "rnd64 x \<le> of_int b" if "x \<le> of_int b"
    using that round_even_mono [of "x * 2 ^ k" "of_int (b * 2 ^ k)"] unfolding round_even_of_int r
    by (simp add: pos_divide_le_eq) (metis of_int_le_iff of_int_mult of_int_numeral of_int_power)
qed

lemma rnd64_of_nat [simp]: "n < 2 ^ 52 \<Longrightarrow> rnd64 (of_nat n) = of_nat n"
proof (cases "n = 0")
  case False
  assume "n < 2 ^ 52"
  then have "(of_nat n :: rat) < of_nat (2 ^ 52)" by (simp only: of_nat_less_iff)
  then have "(of_nat n :: rat) < 2 ^ 52" by simp
  then show ?thesis
    using rnd64_bounds(1) [of "of_nat n" "int n"] rnd64_bounds(2) [of "of_nat n" "int n"] False by simp
qed (simp add: rnd64_def)

end
