(* ===== verification/Pio_Cycles.thy ===== *)
theory Pio_Cycles
  imports Pio F32
begin

text \<open>
  The PIO receiver cycle by cycle: the text of \<^verbatim>\<open>application/src/transport/dcc_decoder.pio\<close>, its
  assembly, one clock cycle of a PIO state machine under the configuration that
  \<^verbatim>\<open>PioDccDecoder::new\<close> (\<^verbatim>\<open>pio_decoder.rs\<close>) gives it, and the levels such a machine samples from a
  waveform in microseconds. The instructions have the meaning the RP2040 datasheet gives them, as far
  as the program uses them; all words ever pushed are kept, as if the DMA always made room in the
  FIFO. The last sections show that this machine does what the bit-level model
  of \<^verbatim>\<open>Pio\<close> says, for every waveform within the receiver tolerances of the standard.
\<close>

section \<open>The program\<close>

datatype pio_reg = RegX | RegY

datatype pio_source = SourcePins | SourceNull | SourceY

datatype jmp_cond = Always | IfNotX | IfXDec | IfYDec | IfPin

text \<open>An instruction over addresses or over labels; a \<^verbatim>\<open>wait\<close> has its polarity, pin and delay.\<close>

datatype 'l pio_instr =
    SET pio_reg u32
  | WAIT bool nat nat
  | JMP jmp_cond 'l
  | IN pio_source nat
  | MOV pio_reg pio_reg

datatype pio_line = Label string | Line "string pio_instr"

definition PREAMBLE_BITS :: u32 where
  "PREAMBLE_BITS = 10"

definition PREAMBLE_BITS_WITH_END :: u32 where
  "PREAMBLE_BITS_WITH_END = 9"

definition ZERO_DELAY :: nat where
  "ZERO_DELAY = 30"

definition dcc_decoder :: "pio_line list" where
  "dcc_decoder =
    [Label ''new_preamble'',
       Line (SET RegX PREAMBLE_BITS),
     Label ''preamble_candidate'',
       Line (WAIT False 0 0),
       Line (WAIT True 0 (ZERO_DELAY - 1)),
       Line (JMP IfPin ''new_preamble''),
       Line (JMP IfXDec ''preamble_candidate''),
     Label ''packet_start'',
       Line (WAIT False 0 0),
       Line (WAIT True 0 (ZERO_DELAY - 1)),
       Line (JMP IfPin ''packet''),
       Line (JMP Always ''packet_start''),
     Label ''packet'',
       Line (SET RegX 7),
     Label ''read_packet_byte'',
       Line (SET RegY 7),
     Label ''read_packet_bit'',
       Line (WAIT False 0 0),
       Line (WAIT True 0 (ZERO_DELAY - 1)),
       Line (IN SourcePins 1),
       Line (JMP IfYDec ''read_packet_bit''),
       Line (JMP IfXDec ''check_more_data''),
     Label ''check_more_data'',
       Line (WAIT False 0 0),
       Line (WAIT True 0 (ZERO_DELAY - 1)),
       Line (JMP IfPin ''read_packet_byte''),
       Line (MOV RegY RegX),
     Label ''padding_loop'',
       Line (JMP IfNotX ''padding_done''),
       Line (IN SourceNull 8),
       Line (JMP IfXDec ''padding_loop''),
     Label ''padding_done'',
       Line (IN SourceY 8),
       Line (SET RegX PREAMBLE_BITS_WITH_END),
       Line (JMP Always ''preamble_candidate'')]"

text \<open>The assembler: the address of a label is the number of instructions before it. An unknown
  label is an error.\<close>

fun label_addr :: "string \<Rightarrow> pio_line list \<Rightarrow> nat option" where
  "label_addr l [] = None"
| "label_addr l (Label k # p) = (if k = l then Some 0 else label_addr l p)"
| "label_addr l (Line i # p) = map_option Suc (label_addr l p)"

fun resolve :: "(string \<Rightarrow> nat option) \<Rightarrow> string pio_instr \<Rightarrow> nat pio_instr option" where
  "resolve addr (JMP c l) = map_option (JMP c) (addr l)"
| "resolve addr (SET r v) = Some (SET r v)"
| "resolve addr (WAIT pol n d) = Some (WAIT pol n d)"
| "resolve addr (IN src n) = Some (IN src n)"
| "resolve addr (MOV d s) = Some (MOV d s)"

fun assemble :: "(string \<Rightarrow> nat option) \<Rightarrow> pio_line list \<Rightarrow> nat pio_instr list option" where
  "assemble addr [] = Some []"
| "assemble addr (Label l # p) = assemble addr p"
| "assemble addr (Line i # p) =
     Option.bind (resolve addr i) (\<lambda>i. map_option (Cons i) (assemble addr p))"

text \<open>\<^verbatim>\<open>PioDccDecoderProgram::new\<close>.\<close>

definition dcc_program :: "nat pio_instr list" where
  "dcc_program = (case assemble (\<lambda>l. label_addr l dcc_decoder) dcc_decoder of Some p \<Rightarrow> p | None \<Rightarrow> [])"

section \<open>The configuration\<close>

datatype shift_direction = ShiftLeft | ShiftRight

datatype fifo_join = Duplex | RxOnly | TxOnly

text \<open>The part of embassy's \<^verbatim>\<open>Config\<close> that is set: the pins by number, the clock divider as the
  fraction it stands for.\<close>

record sm_config =
  in_pin :: nat
  jmp_pin :: nat
  fifo_join :: fifo_join
  clock_divider :: rat
  shift_direction :: shift_direction
  auto_fill :: bool
  threshold :: nat

text \<open>Double-precision division, and the conversion \<^verbatim>\<open>to_fixed\<close> into eight fractional bits, which
  rounds to nearest, ties to even.\<close>

definition f64_div :: "f64 \<Rightarrow> f64 \<Rightarrow> f64" where
  "f64_div a b = rnd64 (a / b)"

definition to_fixed_u24f8 :: "rat \<Rightarrow> rat" where
  "to_fixed_u24f8 x = of_int (round_even (x * 256)) / 256"

text \<open>\<^verbatim>\<open>PioDccDecoder::new\<close>, for the number of the input pin and the frequency of the system
  clock.\<close>

definition dcc_config :: "nat \<Rightarrow> u32 \<Rightarrow> sm_config" where
  "dcc_config dcc_input clk_sys_freq =
     \<lparr>in_pin = dcc_input, jmp_pin = dcc_input, fifo_join = RxOnly,
      clock_divider = to_fixed_u24f8 (f64_div (of_nat (unat clk_sys_freq)) 400000),
      shift_direction = ShiftLeft, auto_fill = True, threshold = 32\<rparr>"

section \<open>The state machine\<close>

text \<open>The program counter, the delay cycles left, the scratch registers, the input shift register
  with its count, and all words pushed so far.\<close>

record sm =
  sm_pc :: nat
  sm_delay :: nat
  sm_x :: u32
  sm_y :: u32
  sm_isr :: u32
  sm_count :: nat
  sm_rx :: "u32 list"

fun sm_reg :: "pio_reg \<Rightarrow> sm \<Rightarrow> u32" where
  "sm_reg RegX s = sm_x s"
| "sm_reg RegY s = sm_y s"

fun sm_set :: "pio_reg \<Rightarrow> u32 \<Rightarrow> sm \<Rightarrow> sm" where
  "sm_set RegX v s = s\<lparr>sm_x := v\<rparr>"
| "sm_set RegY v s = s\<lparr>sm_y := v\<rparr>"

text \<open>The input pins as a word that starts at \<^const>\<open>in_pin\<close> and wraps around after pin 31.\<close>

definition pin_word :: "(nat \<Rightarrow> bool) \<Rightarrow> nat \<Rightarrow> u32" where
  "pin_word pins base = horner_sum of_bool 2 (map (\<lambda>k. pins ((base + k) mod 32)) [0..<32])"

fun sm_source :: "sm_config \<Rightarrow> (nat \<Rightarrow> bool) \<Rightarrow> pio_source \<Rightarrow> sm \<Rightarrow> u32" where
  "sm_source cfg pins SourcePins s = pin_word pins (in_pin cfg)"
| "sm_source cfg pins SourceNull s = 0"
| "sm_source cfg pins SourceY s = sm_y s"

text \<open>\<^verbatim>\<open>in\<close>: shift \<open>n\<close> bits in, and push when the threshold is reached.\<close>

definition sm_in :: "sm_config \<Rightarrow> nat \<Rightarrow> u32 \<Rightarrow> sm \<Rightarrow> sm" where
  "sm_in cfg n v s =
     (let isr = (case shift_direction cfg of
                   ShiftLeft \<Rightarrow> push_bit n (sm_isr s) OR take_bit n v
                 | ShiftRight \<Rightarrow> drop_bit n (sm_isr s) OR push_bit (32 - n) (take_bit n v));
          c = min 32 (sm_count s + n)
      in if auto_fill cfg \<and> threshold cfg \<le> c then s\<lparr>sm_isr := 0, sm_count := 0, sm_rx := sm_rx s @ [isr]\<rparr>
         else s\<lparr>sm_isr := isr, sm_count := c\<rparr>)"

text \<open>The state after the test of a \<^verbatim>\<open>jmp\<close>, and whether it jumps: \<^verbatim>\<open>x--\<close> tests before it
  decrements, and decrements always.\<close>

fun sm_test :: "sm_config \<Rightarrow> (nat \<Rightarrow> bool) \<Rightarrow> jmp_cond \<Rightarrow> sm \<Rightarrow> sm \<times> bool" where
  "sm_test cfg pins Always s = (s, True)"
| "sm_test cfg pins IfNotX s = (s, sm_x s = 0)"
| "sm_test cfg pins IfXDec s = (s\<lparr>sm_x := sm_x s - 1\<rparr>, sm_x s \<noteq> 0)"
| "sm_test cfg pins IfYDec s = (s\<lparr>sm_y := sm_y s - 1\<rparr>, sm_y s \<noteq> 0)"
| "sm_test cfg pins IfPin s = (s, pins (jmp_pin cfg))"

text \<open>An instruction, with the address of the next one. Delay cycles begin when the instruction has
  completed, so not while a \<^verbatim>\<open>wait\<close> stalls.\<close>

fun sm_exec :: "sm_config \<Rightarrow> (nat \<Rightarrow> bool) \<Rightarrow> nat \<Rightarrow> nat pio_instr \<Rightarrow> sm \<Rightarrow> sm" where
  "sm_exec cfg pins next_pc (SET r v) s = (sm_set r v s)\<lparr>sm_pc := next_pc\<rparr>"
| "sm_exec cfg pins next_pc (WAIT pol n d) s =
     (if pins ((in_pin cfg + n) mod 32) = pol then s\<lparr>sm_pc := next_pc, sm_delay := d\<rparr> else s)"
| "sm_exec cfg pins next_pc (JMP c target) s =
     (let (s, taken) = sm_test cfg pins c s in s\<lparr>sm_pc := if taken then target else next_pc\<rparr>)"
| "sm_exec cfg pins next_pc (IN src n) s = (sm_in cfg n (sm_source cfg pins src s) s)\<lparr>sm_pc := next_pc\<rparr>"
| "sm_exec cfg pins next_pc (MOV d src) s = (sm_set d (sm_reg src s) s)\<lparr>sm_pc := next_pc\<rparr>"

text \<open>One cycle. After the last instruction the program wraps to the first.\<close>

definition sm_cycle :: "sm_config \<Rightarrow> nat pio_instr list \<Rightarrow> (nat \<Rightarrow> bool) \<Rightarrow> sm \<Rightarrow> sm" where
  "sm_cycle cfg prog pins s =
     (if sm_delay s \<noteq> 0 then s\<lparr>sm_delay := sm_delay s - 1\<rparr>
      else sm_exec cfg pins (if Suc (sm_pc s) < length prog then Suc (sm_pc s) else 0) (prog ! sm_pc s) s)"

text \<open>A run over the levels of the pins, one entry a cycle. The scratch registers hold anything when
  the machine is enabled.\<close>

definition sm_run :: "sm_config \<Rightarrow> nat pio_instr list \<Rightarrow> (nat \<Rightarrow> bool) list \<Rightarrow> sm \<Rightarrow> sm" where
  "sm_run cfg prog cycles s = fold (sm_cycle cfg prog) cycles s"

definition sm_start :: "u32 \<Rightarrow> u32 \<Rightarrow> sm" where
  "sm_start x y = \<lparr>sm_pc = 0, sm_delay = 0, sm_x = x, sm_y = y, sm_isr = 0, sm_count = 0, sm_rx = []\<rparr>"

section \<open>The assembled program\<close>

lemma dcc_program_eq:
  "dcc_program =
    [SET RegX 10, WAIT False 0 0, WAIT True 0 29, JMP IfPin 0, JMP IfXDec 1,
     WAIT False 0 0, WAIT True 0 29, JMP IfPin 9, JMP Always 5,
     SET RegX 7, SET RegY 7, WAIT False 0 0, WAIT True 0 29, IN SourcePins 1, JMP IfYDec 11, JMP IfXDec 16,
     WAIT False 0 0, WAIT True 0 29, JMP IfPin 10, MOV RegY RegX,
     JMP IfNotX 23, IN SourceNull 8, JMP IfXDec 20, IN SourceY 8, SET RegX 9, JMP Always 1]"
  by (simp add: dcc_program_def dcc_decoder_def PREAMBLE_BITS_def PREAMBLE_BITS_WITH_END_def ZERO_DELAY_def)

lemma length_dcc_program [simp]: "length dcc_program = 26"
  by (simp add: dcc_program_eq)


text \<open>The machine only looks at its own pin, and only at one bit of it.\<close>

fun one_pin :: "nat pio_instr \<Rightarrow> bool" where
  "one_pin (IN SourcePins n) \<longleftrightarrow> n = 1"
| "one_pin (WAIT pol n d) \<longleftrightarrow> n = 0"
| "one_pin (JMP c target) \<longleftrightarrow> target < 26"
| "one_pin i \<longleftrightarrow> True"

lemma dcc_program_one_pin:
  assumes "a < 26"
  shows "one_pin (dcc_program ! a)"
proof -
  have "\<forall>i \<in> set dcc_program. one_pin i" by (simp add: dcc_program_eq)
  then show ?thesis using assms by (simp add: nth_mem)
qed

definition level_step :: "bool \<Rightarrow> sm \<Rightarrow> sm" where
  "level_step b s = sm_cycle (dcc_config 0 0) dcc_program (\<lambda>_. b) s"

lemma take_bit_pin_word:
  assumes "base < 32"
  shows "take_bit 1 (pin_word pins base) = of_bool (pins base)"
proof (rule bit_eqI)
  fix n
  show "bit (take_bit 1 (pin_word pins base)) n \<longleftrightarrow> bit (of_bool (pins base) :: u32) n"
    unfolding pin_word_def bit_take_bit_iff bit_horner_sum_bit_iff bit_of_bool_iff
    using assms by (cases n) (simp_all del: upt_conv_Cons)
qed

lemma sm_in_take_bit: "sm_in cfg n v s = sm_in cfg n (take_bit n v) s"
proof -
  have t: "take_bit n (take_bit n v) = take_bit n v" by (simp add: take_bit_take_bit)
  show ?thesis unfolding sm_in_def t ..
qed

lemma dcc_config_simps [simp]:
  "in_pin (dcc_config pin clk) = pin" "jmp_pin (dcc_config pin clk) = pin"
  "shift_direction (dcc_config pin clk) = ShiftLeft" "auto_fill (dcc_config pin clk)"
  "threshold (dcc_config pin clk) = 32"
  by (simp_all add: dcc_config_def)

lemma sm_in_dcc_config: "sm_in (dcc_config pin clk) n v s = sm_in (dcc_config 0 0) n v s"
  by (simp add: sm_in_def)

lemma sm_in_pins:
  "pin < 32 \<Longrightarrow> sm_in (dcc_config 0 0) (Suc 0) (pin_word pins pin) s
     = sm_in (dcc_config 0 0) (Suc 0) (pin_word (\<lambda>_. pins pin) 0) s"
  using sm_in_take_bit [of "dcc_config 0 0" 1 "pin_word pins pin" s] take_bit_pin_word [of pin pins]
    sm_in_take_bit [of "dcc_config 0 0" 1 "pin_word (\<lambda>_. pins pin) 0" s] take_bit_pin_word [of 0 "\<lambda>_. pins pin"]
  by simp

lemma sm_test_fields [simp]:
  "sm_pc (fst (sm_test cfg pins c s)) = sm_pc s"
  by (cases c) simp_all

lemma sm_exec_level:
  assumes "one_pin i" "pin < 32"
  shows "sm_exec (dcc_config pin clk) pins k i s = sm_exec (dcc_config 0 0) (\<lambda>_. pins pin) k i s"
proof -
  have "sm_test (dcc_config pin clk) pins c s = sm_test (dcc_config 0 0) (\<lambda>_. pins pin) c s" for c
    by (cases c) simp_all
  then show ?thesis
    using assms(1) by (cases i rule: one_pin.cases)
      (simp_all add: sm_in_pins [OF assms(2), of pins] sm_in_dcc_config [of pin clk] assms(2))
qed

lemma sm_exec_pc:
  assumes "one_pin i" "k < 26" "sm_pc s < 26"
  shows "sm_pc (sm_exec cfg pins k i s) < 26"
  using assms by (cases i) (auto simp: Let_def split: prod.split)

lemma sm_cycle_level:
  assumes "pin < 32" "sm_pc s < 26"
  shows "sm_cycle (dcc_config pin clk) dcc_program pins s = level_step (pins pin) s"
    and "sm_pc (level_step b s) < 26"
  using sm_exec_level [OF dcc_program_one_pin [OF assms(2)] assms(1)] sm_exec_pc [OF dcc_program_one_pin [OF assms(2)]] assms(2)
  by (simp_all add: level_step_def sm_cycle_def)


text \<open>A run over the levels of that pin.\<close>

definition level_run :: "bool list \<Rightarrow> sm \<Rightarrow> sm" where
  "level_run bs s = fold level_step bs s"

lemma level_run_simps [simp]:
  "level_run [] s = s" "level_run (b # bs) s = level_run bs (level_step b s)"
  "level_run (bs @ cs) s = level_run cs (level_run bs s)"
  by (simp_all add: level_run_def)

lemma sm_run_level:
  assumes "pin < 32" "sm_pc s < 26"
  shows "sm_run (dcc_config pin clk) dcc_program cycles s = level_run (map (\<lambda>pins. pins pin) cycles) s"
  using assms(2)
proof (induction cycles arbitrary: s)
  case (Cons pins cycles)
  then show ?case
    using sm_cycle_level(1) [OF assms(1) Cons.prems, of clk pins] sm_cycle_level(2) [OF assms(1) Cons.prems]
    by (simp add: sm_run_def)
qed (simp add: sm_run_def)

section \<open>The instructions one by one\<close>

text \<open>The machine at an address, with the registers of a state of the bit-level model.\<close>

definition loaded :: "nat \<Rightarrow> nat \<Rightarrow> pio \<Rightarrow> sm" where
  "loaded pc d s =
     \<lparr>sm_pc = pc, sm_delay = d, sm_x = pio_x s, sm_y = pio_y s, sm_isr = pio_isr s, sm_count = pio_count s,
      sm_rx = pio_rx s\<rparr>"

lemma sm_in_loaded: "sm_in (dcc_config 0 0) n v (loaded pc d s) = loaded pc d (pio_in n v s)"
  by (auto simp: sm_in_def pio_in_def loaded_def Let_def)

lemma loaded_fields [simp]:
  "sm_pc (loaded pc d s) = pc" "sm_delay (loaded pc d s) = d" "sm_x (loaded pc d s) = pio_x s"
  "sm_y (loaded pc d s) = pio_y s" "sm_rx (loaded pc d s) = pio_rx s"
  "(loaded pc d s)\<lparr>sm_pc := pc'\<rparr> = loaded pc' d s" "(loaded pc d s)\<lparr>sm_delay := d'\<rparr> = loaded pc d' s"
  "(loaded pc d s)\<lparr>sm_x := x\<rparr> = loaded pc d (s\<lparr>pio_x := x\<rparr>)"
  "(loaded pc d s)\<lparr>sm_y := x\<rparr> = loaded pc d (s\<lparr>pio_y := x\<rparr>)"
  "loaded pc d (s\<lparr>pio_pc := e\<rparr>) = loaded pc d s"
  by (simp_all add: loaded_def)

lemma loaded_small [simp]: "loaded (Suc (Suc 0)) = loaded 2" "loaded (Suc (Suc (Suc 0))) = loaded 3"
  by (simp_all add: numeral_2_eq_2 numeral_3_eq_3)

lemma pio_in_pin_word: "pio_in (Suc 0) (pin_word (\<lambda>_. b) 0) s = pio_in 1 (of_bool b) s"
  using take_bit_pin_word [of 0 "\<lambda>_. b"] by (simp add: pio_in_def del: bit_0)

lemma step_delay [simp]: "level_step b (loaded pc (Suc d) s) = loaded pc d s"
  by (simp add: level_step_def sm_cycle_def)

lemma steps [simp]:
  "level_step b (loaded 0 0 s) = loaded 1 0 (s\<lparr>pio_x := 10\<rparr>)"
  "level_step b (loaded (Suc 0) 0 s) = (if b then loaded (Suc 0) 0 s else loaded 2 0 s)"
  "level_step b (loaded 2 0 s) = (if b then loaded 3 29 s else loaded 2 0 s)"
  "level_step b (loaded 3 0 s) = (if b then loaded 0 0 s else loaded 4 0 s)"
  "level_step b (loaded 4 0 s) = loaded (if pio_x s \<noteq> 0 then 1 else 5) 0 (s\<lparr>pio_x := pio_x s - 1\<rparr>)"
  "level_step b (loaded 5 0 s) = (if b then loaded 5 0 s else loaded 6 0 s)"
  "level_step b (loaded 6 0 s) = (if b then loaded 7 29 s else loaded 6 0 s)"
  "level_step b (loaded 7 0 s) = (if b then loaded 9 0 s else loaded 8 0 s)"
  "level_step b (loaded 8 0 s) = loaded 5 0 s"
  "level_step b (loaded 9 0 s) = loaded 10 0 (s\<lparr>pio_x := 7\<rparr>)"
  "level_step b (loaded 10 0 s) = loaded 11 0 (s\<lparr>pio_y := 7\<rparr>)"
  "level_step b (loaded 11 0 s) = (if b then loaded 11 0 s else loaded 12 0 s)"
  "level_step b (loaded 12 0 s) = (if b then loaded 13 29 s else loaded 12 0 s)"
  "level_step b (loaded 13 0 s) = loaded 14 0 (pio_in 1 (of_bool b) s)"
  "level_step b (loaded 14 0 s) = loaded (if pio_y s \<noteq> 0 then 11 else 15) 0 (s\<lparr>pio_y := pio_y s - 1\<rparr>)"
  "level_step b (loaded 15 0 s) = loaded 16 0 (s\<lparr>pio_x := pio_x s - 1\<rparr>)"
  "level_step b (loaded 16 0 s) = (if b then loaded 16 0 s else loaded 17 0 s)"
  "level_step b (loaded 17 0 s) = (if b then loaded 18 29 s else loaded 17 0 s)"
  "level_step b (loaded 18 0 s) = (if b then loaded 10 0 s else loaded 19 0 s)"
  "level_step b (loaded 19 0 s) = loaded 20 0 (s\<lparr>pio_y := pio_x s\<rparr>)"
  "level_step b (loaded 20 0 s) = loaded (if pio_x s = 0 then 23 else 21) 0 s"
  "level_step b (loaded 21 0 s) = loaded 22 0 (pio_in 8 0 s)"
  "level_step b (loaded 22 0 s) = loaded (if pio_x s \<noteq> 0 then 20 else 23) 0 (s\<lparr>pio_x := pio_x s - 1\<rparr>)"
  "level_step b (loaded 23 0 s) = loaded 24 0 (pio_in 8 (pio_y s) s)"
  "level_step b (loaded 24 0 s) = loaded 25 0 (s\<lparr>pio_x := 9\<rparr>)"
  "level_step b (loaded 25 0 s) = loaded 1 0 s"
  by (simp_all add: level_step_def sm_cycle_def dcc_program_eq sm_in_loaded pio_in_pin_word [simplified])


section \<open>One bit\<close>

text \<open>Where the program waits for the next bit to begin with a low level; one instruction later it
  waits for the rising edge.\<close>

fun entry :: "pio_pc \<Rightarrow> nat" where
  "entry PreambleCandidate = 1"
| "entry PacketStart = 5"
| "entry ReadPacketBit = 11"
| "entry CheckMoreData = 16"

definition waiting :: "pio \<Rightarrow> sm" where
  "waiting s = loaded (entry (pio_pc s)) 0 s"

definition armed :: "pio \<Rightarrow> sm" where
  "armed s = loaded (Suc (entry (pio_pc s))) 0 s"

text \<open>The cycles from the rising edge of a bit to the next \<^verbatim>\<open>wait 0\<close>.\<close>

fun busy :: "bool \<Rightarrow> pio \<Rightarrow> nat" where
  "busy b s =
     (case pio_pc s of
        PreambleCandidate \<Rightarrow> 32
      | PacketStart \<Rightarrow> if b then 33 else 32
      | ReadPacketBit \<Rightarrow> if pio_y s \<noteq> 0 then 32 else 33
      | CheckMoreData \<Rightarrow> if b then 32 else 36 + 3 * unat (pio_x s))"

declare busy.simps [simp del]

lemma level_run_delay: "level_run bs (loaded pc (length bs) s) = loaded pc 0 s"
  by (induction bs) simp_all

lemma padding_loop_x [simp]: "padding_loop n (s\<lparr>pio_x := x\<rparr>) = (padding_loop n s)\<lparr>pio_x := x\<rparr>"
  by (induction n arbitrary: s) simp_all

lemma level_run_padding:
  assumes "length bs = 3 * unat (pio_x s) + 1"
  shows "level_run bs (loaded 20 0 s) = loaded 23 0 ((padding_loop (unat (pio_x s)) s)\<lparr>pio_x := 0\<rparr>)"
  using assms
proof (induction "unat (pio_x s)" arbitrary: s bs)
  case 0
  then have "pio_x s = 0" by (simp add: unat_eq_zero)
  then have "loaded 23 0 (s\<lparr>pio_x := 0\<rparr>) = loaded 23 0 s" by (simp add: loaded_def)
  moreover obtain b where "bs = [b]" using 0 by (auto simp: length_Suc_conv)
  ultimately show ?case using \<open>pio_x s = 0\<close> by simp
next
  case (Suc n)
  have x: "pio_x s \<noteq> 0" using Suc(2) by auto
  then have n: "unat (pio_x s - 1) = n" using Suc(2) by (simp add: unat_minus_one)
  obtain a b c cs where bs: "bs = a # b # c # cs" "length cs = 3 * n + 1"
    using Suc.prems Suc(2) by (cases bs; cases "tl bs"; cases "tl (tl bs)") auto
  show ?case
    using Suc(1) [of "(pio_in 8 0 s)\<lparr>pio_x := pio_x s - 1\<rparr>" cs] x n bs by (simp flip: Suc(2))
qed


lemma level_run_armed:
  assumes "length ms = 29"
  shows "level_run (True # ms @ bs) (armed s) = level_run bs (loaded (entry (pio_pc s) + 2) 0 s)"
  using assms level_run_delay [of ms] by (cases "pio_pc s") (simp_all add: armed_def)

lemma busy_ge: "32 \<le> busy b s"
  by (simp add: busy.simps split: pio_pc.split)

lemma level_run_end:
  assumes "pio_pc s = CheckMoreData" "length bs = 5 + 3 * unat (pio_x s)"
  shows "level_run bs (loaded 19 0 s) = waiting (pio_bit False s)"
proof -
  let ?n = "3 * unat (pio_x s) + 1"
  obtain b where b: "bs = b # take ?n (tl bs) @ drop ?n (tl bs)" "length (take ?n (tl bs)) = ?n"
    "length (drop ?n (tl bs)) = 3"
    using assms(2) by (cases bs) auto
  moreover from b(3) obtain x y z where "drop ?n (tl bs) = [x, y, z]"
    unfolding numeral_3_eq_3 length_Suc_conv by blast
  moreover note level_run_padding [of "take ?n (tl bs)" "s\<lparr>pio_y := pio_x s\<rparr>"]
  ultimately show ?thesis
    using assms(1) by (subst b(1)) (simp add: pio_bit_def waiting_def Let_def)
qed

text \<open>From the rising edge to the next \<^verbatim>\<open>wait 0\<close> the machine takes the step of the bit-level model,
  whatever the pin does except at the first and at the 31st sample.\<close>

lemma level_run_busy:
  assumes "length ms = 29" "length bs = busy b s - 31"
  shows "level_run (True # ms @ b # bs) (armed s) = waiting (pio_bit b s)"
proof -
  have run: "level_run (True # ms @ b # bs) (armed s) = level_run (b # bs) (loaded (entry (pio_pc s) + 2) 0 s)"
    by (rule level_run_armed [OF assms(1)])
  show ?thesis
  proof (cases "pio_pc s = CheckMoreData \<and> \<not> b")
    case True
    then show ?thesis using assms(2) run level_run_end [of s bs] by (simp add: busy.simps)
  next
    case False
    then have "length bs = 1 \<or> length bs = 2" using assms(2) by (auto simp: busy.simps split: pio_pc.splits if_splits)
    then obtain x where "bs = [x] \<or> (\<exists>y. bs = [x, y])" by (auto simp: length_Suc_conv numeral_2_eq_2)
    then show ?thesis
      unfolding run using False assms(2)
      by (cases "pio_pc s")
        (auto simp: busy.simps pio_bit_def waiting_def Let_def split: if_splits)
  qed
qed

text \<open>A bit as the machine samples it: a number of high samples, then a number of low ones.\<close>

definition samples :: "nat \<times> nat \<Rightarrow> bool list" where
  "samples w = replicate (fst w) True @ replicate (snd w) False"

lemma length_samples [simp]: "length (samples w) = fst w + snd w"
  by (simp add: samples_def)

lemma level_run_waiting:
  "level_run (replicate a True @ replicate (Suc c) False) (waiting s) = armed s"
proof -
  have w: "level_step True (waiting s) = waiting s" "level_step False (waiting s) = armed s"
    and a: "level_step False (armed s) = armed s"
    by (cases "pio_pc s"; simp add: waiting_def armed_def)+
  have "level_run (replicate a True) (waiting s) = waiting s" by (induction a) (simp_all add: w)
  moreover have "level_run (replicate c False) (armed s) = armed s" by (induction c) (simp_all add: a)
  ultimately show ?thesis by (simp add: w)
qed


text \<open>Still busy with the work of a bit: waiting for the next one after \<open>r\<close> more cycles, whatever the
  pin does.\<close>

definition settles :: "nat \<Rightarrow> sm \<Rightarrow> pio \<Rightarrow> bool" where
  "settles r c s \<longleftrightarrow> (\<forall>bs. length bs = r \<longrightarrow> level_run bs c = waiting s)"

lemma split_at_30:
  assumes "31 \<le> length xs"
  shows "xs = xs ! 0 # take 29 (drop 1 xs) @ xs ! 30 # drop 31 xs"
proof -
  obtain x ys where xs: "xs = x # ys" "30 \<le> length ys" using assms by (cases xs) auto
  then have "ys = take 29 ys @ ys ! 29 # drop 30 ys" using id_take_nth_drop [of 29 ys] by simp
  then show ?thesis by (simp add: xs(1))
qed

lemma samples_first:
  assumes "31 \<le> n" "n \<le> h + l" "1 \<le> h"
  shows "\<exists>ms bs. take n (samples (h, l)) = True # ms @ (30 < h) # bs \<and> length ms = 29 \<and> length bs = n - 31"
proof -
  let ?xs = "take n (samples (h, l))"
  have "?xs ! 0" "?xs ! 30 = (30 < h)" using assms by (auto simp: samples_def nth_append)
  moreover have "length ?xs = n" using assms by simp
  ultimately show ?thesis using split_at_30 [of ?xs] assms(1)
    by (intro exI [of _ "take 29 (drop 1 ?xs)"] exI [of _ "drop 31 ?xs"]) simp
qed

lemma samples_rest:
  assumes "n < h + l" "1 \<le> l"
  shows "\<exists>a c. drop n (samples (h, l)) = replicate a True @ replicate (Suc c) False"
proof (cases "n \<le> h")
  case True
  then show ?thesis using assms
    by (intro exI [of _ "h - n"] exI [of _ "l - 1"]) (simp add: samples_def flip: replicate_Suc)
next
  case False
  then show ?thesis using assms
    by (intro exI [of _ 0] exI [of _ "h + l - n - 1"]) (simp add: samples_def add.commute flip: replicate_Suc)
qed

lemma level_run_bit:
  assumes "1 \<le> h" "1 \<le> l" "31 \<le> h + l"
  shows "busy (30 < h) s < h + l \<Longrightarrow> level_run (samples (h, l)) (armed s) = armed (pio_bit (30 < h) s)"
    and "h + l \<le> busy (30 < h) s \<Longrightarrow>
      settles (busy (30 < h) s - (h + l)) (level_run (samples (h, l)) (armed s)) (pio_bit (30 < h) s)"
proof -
  let ?n = "busy (30 < h) s"
  assume n: "?n < h + l"
  have "level_run (take ?n (samples (h, l))) (armed s) = waiting (pio_bit (30 < h) s)"
    using samples_first [of ?n h l] busy_ge [of "30 < h" s] n assms(1) level_run_busy [of _ _ "30 < h" s] by force
  moreover obtain a c where "drop ?n (samples (h, l)) = replicate a True @ replicate (Suc c) False"
    using samples_rest [OF n assms(2)] by blast
  ultimately show "level_run (samples (h, l)) (armed s) = armed (pio_bit (30 < h) s)"
    using level_run_waiting [of a c] by (metis append_take_drop_id level_run_simps(3))
next
  assume n: "h + l \<le> busy (30 < h) s"
  obtain ms bs where "samples (h, l) = True # ms @ (30 < h) # bs" "length ms = 29" "length bs = h + l - 31"
    using samples_first [OF assms(3) order.refl assms(1)] by auto
  then show "settles (busy (30 < h) s - (h + l)) (level_run (samples (h, l)) (armed s)) (pio_bit (30 < h) s)"
    using level_run_busy [of ms _ "30 < h" s] n assms(3)
    by (auto simp: settles_def simp flip: level_run_simps(3))
qed

text \<open>A bit that begins while the machine is still busy is missed, and only that one.\<close>

lemma level_run_missed:
  assumes "settles r c s" "r < h" "1 \<le> l"
  shows "level_run (samples (h, l)) c = armed s"
proof -
  have "samples (h, l) = replicate r True @ replicate (h - r) True @ replicate (Suc (l - 1)) False"
    using assms(2,3) by (simp add: samples_def flip: replicate_add replicate_Suc append_assoc)
  then show ?thesis
    using assms(1) level_run_waiting [of "h - r" "l - 1"] by (simp only: level_run_simps settles_def length_replicate)
qed


section \<open>Packets\<close>

text \<open>The samples of a zero and of a one.\<close>

fun fits :: "bool \<Rightarrow> nat \<times> nat \<Rightarrow> bool" where
  "fits b (h, l) \<longleftrightarrow> 20 \<le> l \<and> (if b then 35 \<le> h else 20 \<le> h \<and> h \<le> 26)"

definition wave :: "(nat \<times> nat) list \<Rightarrow> bool list" where
  "wave ws = concat (map samples ws)"

lemma wave_simps [simp]:
  "wave [] = []" "wave (w # ws) = samples w @ wave ws" "wave (vs @ ws) = wave vs @ wave ws"
  by (simp_all add: wave_def)

text \<open>A run of bits none of which ends a packet.\<close>

fun quiet :: "bool list \<Rightarrow> pio \<Rightarrow> bool" where
  "quiet [] s \<longleftrightarrow> True"
| "quiet (b # bs) s \<longleftrightarrow> (pio_pc s = CheckMoreData \<longrightarrow> b) \<and> quiet bs (pio_bit b s)"

lemma quiet_append [simp]: "quiet (bs @ cs) s \<longleftrightarrow> quiet bs s \<and> quiet cs (pio_run bs s)"
  by (induction bs arbitrary: s) auto

lemma wave_quiet:
  "list_all2 fits bs ws \<Longrightarrow> quiet bs s \<Longrightarrow> level_run (wave ws) (armed s) = armed (pio_run bs s)"
proof (induction bs ws arbitrary: s rule: list_all2_induct)
  case (Cons b bs w ws)
  obtain h l where w: "w = (h, l)" by fastforce
  then have "(30 < h) = b" "1 \<le> h" "1 \<le> l" "31 \<le> h + l" "busy b s < h + l"
    using Cons by (auto simp: busy.simps split: if_splits pio_pc.split)
  then have "level_run (samples w) (armed s) = armed (pio_bit b s)"
    using level_run_bit(1) [of h l s] by (simp add: w)
  then show ?case using Cons by simp
qed simp

text \<open>Where the machine is between two packets, and that it then finds a preamble of \<open>n\<close> ones.\<close>

definition follows :: "sm \<Rightarrow> pio \<Rightarrow> nat \<Rightarrow> bool" where
  "follows c s n \<longleftrightarrow> pio_pc s = PreambleCandidate \<and>
     (c = armed s \<and> unat (pio_x s) < n \<or> (\<exists>r < 20. settles r c s) \<and> unat (pio_x s) + 1 < n)"

lemma quiet_preamble: "pio_pc s \<in> {PreambleCandidate, PacketStart} \<Longrightarrow> quiet (replicate n False) s"
  by (induction n arbitrary: s) (auto simp: pio_bit_def)

lemma preamble_rx:
  "pio_pc s \<in> {PreambleCandidate, PacketStart} \<Longrightarrow> pio_rx (pio_run (replicate n False) s) = pio_rx s"
  by (induction n arbitrary: s) (auto simp: pio_bit_def)

lemma quiet_byte:
  "pio_pc s = ReadPacketBit \<Longrightarrow> length bs = Suc (unat (pio_y s)) \<Longrightarrow>
    quiet bs s \<and> pio_pc (pio_run bs s) = CheckMoreData"
proof (induction bs arbitrary: s)
  case (Cons b bs)
  show ?case
  proof (cases "pio_y s = 0")
    case True
    then show ?thesis using Cons.prems by (simp add: pio_bit_def Let_def)
  next
    case False
    then have "Suc (unat (pio_y s - 1)) = unat (pio_y s)" by (simp add: unat_minus_one unat_gt_0)
    then show ?thesis using False Cons.prems Cons.IH [of "pio_bit b s"] by (simp add: pio_bit_def Let_def)
  qed
qed simp

lemma quiet_bytes:
  "pio_pc s \<in> {PacketStart, CheckMoreData} \<Longrightarrow> quiet (concat (map (\<lambda>b. True # wire_byte b) d)) s"
proof (induction d arbitrary: s)
  case (Cons b d)
  have "pio_pc (pio_bit True s) = ReadPacketBit" "pio_y (pio_bit True s) = 7"
    using Cons.prems by (auto simp: pio_bit_def)
  then show ?case using quiet_byte [of "pio_bit True s" "wire_byte b"] Cons.IH by (simp add: wire_byte_def)
qed simp

lemma wave_packet_armed:
  assumes "pio_pc s = PreambleCandidate" "unat (pio_x s) < n" "pio_holds s bs" "1 \<le> length d" "length d \<le> 7"
    and "list_all2 fits (wire_packet n d) ws"
  shows "\<exists>t. pio_holds t (bs @ frame d) \<and> follows (level_run (wave ws) (armed s)) t 11"
proof -
  let ?body = "replicate n False @ concat (map (\<lambda>b. True # wire_byte b) d)"
  obtain us w where ws: "ws = us @ [w]" "list_all2 fits ?body us" "fits False w"
  proof -
    have "list_all2 fits (?body @ [False]) ws" using assms(6) by (simp add: wire_packet_def)
    then obtain us vs where "ws = us @ vs" "list_all2 fits ?body us" "list_all2 fits [False] vs"
      using list_all2_append1 by metis
    then show thesis using that by (cases vs) auto
  qed
  obtain x where "pio_run (replicate n False) s = s\<lparr>pio_x := x, pio_pc := PacketStart\<rparr>"
    using pio_run_preamble [OF assms(1,2)] by blast
  then have "quiet ?body s" using quiet_preamble [of s n] assms(1) by (simp add: quiet_bytes)
  then have run: "level_run (wave us) (armed s) = armed (pio_run ?body s)" by (rule wave_quiet [OF ws(2)])
  obtain u where u: "pio_run ?body s = u" "pio_pc u = CheckMoreData" "pio_x u = of_nat (7 - length d)"
    using pio_run_body [OF assms(1-5)] by blast
  obtain t where t: "pio_run (wire_packet n d) s = t" "pio_holds t (bs @ frame d)"
    "pio_pc t = PreambleCandidate" "pio_x t = 9"
    using pio_run_packet [OF assms(1-5)] by blast
  have bit: "pio_bit False u = t" using u(1) t(1) by (simp add: wire_packet_def)
  obtain h l where w: "w = (h, l)" by fastforce
  then have hl: "(30 < h) = False" "1 \<le> h" "1 \<le> l" "40 \<le> h + l" using ws(3) by auto
  have "unat (pio_x u) \<le> 6" using u(3) assms(4) by (simp add: unsigned_of_nat take_bit_eq_mod)
  then have "busy False u \<le> 54" using u(2) by (simp add: busy.simps)
  have "follows (level_run (samples w) (armed u)) t 11"
  proof (cases "busy False u < h + l")
    case True
    then show ?thesis using level_run_bit(1) [of h l u] hl bit t(3,4) by (simp add: w follows_def)
  next
    case False
    then have "settles (busy False u - (h + l)) (level_run (samples w) (armed u)) t"
      using level_run_bit(2) [of h l u] hl bit by (simp add: w)
    moreover have "busy False u - (h + l) < 20" using \<open>busy False u \<le> 54\<close> hl(4) by simp
    ultimately show ?thesis using t(3,4) unfolding follows_def by auto
  qed
  then show ?thesis using t(2) run u(1) by (auto simp: ws(1))
qed


lemma follows_mono: "follows c s m \<Longrightarrow> m \<le> n \<Longrightarrow> follows c s n"
  by (auto simp: follows_def)

lemma list_all2_Cons_obtain:
  assumes "list_all2 P (x # xs) ys"
  obtains z zs where "ys = z # zs" "P x z" "list_all2 P xs zs"
  using assms by (cases ys) auto

lemma fits_missed:
  assumes "settles r c s" "r < 20" "fits b w"
  shows "level_run (samples w) c = armed s"
  using assms level_run_missed [of r c s "fst w" "snd w"] by (cases w) (auto split: if_splits)

lemma wave_packet:
  assumes "follows c s n" "pio_holds s bs" "1 \<le> length d" "length d \<le> 7" "list_all2 fits (wire_packet n d) ws"
  shows "\<exists>t. pio_holds t (bs @ frame d) \<and> follows (level_run (wave ws) c) t 11"
proof (cases "c = armed s \<and> unat (pio_x s) < n")
  case True
  then show ?thesis using wave_packet_armed [of s n bs d ws] assms by (simp add: follows_def)
next
  case False
  then obtain r where r: "r < 20" "settles r c s" "unat (pio_x s) + 1 < n" "pio_pc s = PreambleCandidate"
    using assms(1) by (auto simp: follows_def)
  then obtain m where m: "n = Suc m" "unat (pio_x s) < m" by (cases n) auto
  obtain w vs where ws: "ws = w # vs" "fits False w" "list_all2 fits (wire_packet m d) vs"
    using list_all2_Cons_obtain [of fits False "wire_packet m d" ws] assms(5) by (auto simp: m(1) wire_packet_def)
  have "level_run (samples w) c = armed s" by (rule fits_missed [OF r(2,1) ws(2)])
  then show ?thesis
    using wave_packet_armed [OF r(4) m(2) assms(2-4) ws(3)] by (simp add: ws(1))
qed

text \<open>Packets with their preambles.\<close>

definition wire_packets :: "(nat \<times> u8 list) list \<Rightarrow> bool list" where
  "wire_packets ps = concat (map (\<lambda>(n, d). wire_packet n d) ps)"

lemma wave_packets:
  assumes "follows c s 11" "pio_holds s bs" "\<forall>(n, d) \<in> set ps. 11 \<le> n \<and> 1 \<le> length d \<and> length d \<le> 7"
    and "list_all2 fits (wire_packets ps) ws"
  shows "\<exists>t. pio_holds t (bs @ concat (map (frame \<circ> snd) ps)) \<and> follows (level_run (wave ws) c) t 11"
  using assms
proof (induction ps arbitrary: c s bs ws)
  case Nil
  then show ?case by (auto simp: wire_packets_def)
next
  case (Cons p ps)
  obtain n d where p: "p = (n, d)" by fastforce
  have "list_all2 fits (wire_packet n d @ wire_packets ps) ws" using Cons.prems(4) by (simp add: wire_packets_def p)
  then obtain us vs where ws: "ws = us @ vs" "list_all2 fits (wire_packet n d) us" "list_all2 fits (wire_packets ps) vs"
    using list_all2_append1 by metis
  have n: "11 \<le> n" "1 \<le> length d" "length d \<le> 7" using Cons.prems(3) p by auto
  obtain t where t: "pio_holds t (bs @ frame d)" "follows (level_run (wave us) c) t 11"
    using wave_packet [OF follows_mono [OF Cons.prems(1) n(1)] Cons.prems(2) n(2,3) ws(2)] by blast
  then show ?case using Cons.IH [OF t(2,1) _ ws(3)] Cons.prems(3) by (simp add: ws(1) p)
qed

lemma wave_idle:
  assumes "follows c s 11" "list_all2 fits (replicate (Suc k) False) ws"
  shows "sm_rx (level_run (wave ws) c) = pio_rx s"
proof -
  have pc: "pio_pc s \<in> {PreambleCandidate, PacketStart}" using assms(1) by (simp add: follows_def)
  have rx: "sm_rx (level_run (wave vs) (armed s)) = pio_rx s" if "list_all2 fits (replicate j False) vs" for j vs
    using wave_quiet [OF that quiet_preamble [OF pc]] preamble_rx [OF pc] by (simp add: armed_def)
  show ?thesis
  proof (cases "c = armed s")
    case True
    then show ?thesis using rx [OF assms(2)] by simp
  next
    case False
    then obtain r where r: "settles r c s" "r < 20" using assms(1) by (auto simp: follows_def)
    obtain w vs where ws: "ws = w # vs" "fits False w" "list_all2 fits (replicate k False) vs"
      using list_all2_Cons_obtain [of fits False "replicate k False" ws] assms(2) by auto
    then show ?thesis using fits_missed [OF r ws(2)] rx [OF ws(3)] by simp
  qed
qed

text \<open>From the moment the machine is enabled: the line is low for a while, then come the packets, then
  at least one more bit.\<close>

lemma cycles_read_packets:
  assumes "pin < 32" "map (\<lambda>pins. pins pin) cycles = replicate (Suc (Suc lead)) False @ wave ws"
    and "\<forall>(n, d) \<in> set ps. 11 \<le> n \<and> 1 \<le> length d \<and> length d \<le> 7"
    and "list_all2 fits (wire_packets ps @ replicate (Suc k) False) ws"
  shows "pio_read_all (sm_rx (sm_run (dcc_config pin clk) dcc_program cycles (sm_start x y))) = map snd ps"
proof -
  let ?s = "pio_init\<lparr>pio_x := x, pio_y := y\<rparr>" and ?t = "pio_init\<lparr>pio_y := y, pio_x := 10\<rparr>"
  obtain us vs where ws: "ws = us @ vs" "list_all2 fits (wire_packets ps) us" "list_all2 fits (replicate (Suc k) False) vs"
    using assms(4) list_all2_append1 by metis
  have "sm_start x y = loaded 0 0 ?s" by (simp add: sm_start_def loaded_def pio_init_def)
  moreover have armed: "armed ?t = loaded 2 0 ?t" by (simp add: armed_def pio_init_def)
  moreover have "level_run (replicate lead False) (loaded 2 0 ?t) = loaded 2 0 ?t"
    by (induction lead) (simp_all add: pio_init_def)
  ultimately have "sm_run (dcc_config pin clk) dcc_program cycles (sm_start x y) = level_run (wave ws) (armed ?t)"
    using sm_run_level [OF assms(1), of "sm_start x y" clk cycles] assms(2) by (simp add: sm_start_def)
  moreover have "follows (armed ?t) ?t 11" by (simp add: follows_def pio_init_def)
  moreover have "pio_holds ?t []" using pio_holds_init by simp
  moreover from calculation(2,3) obtain t where t: "pio_holds t (concat (map (frame \<circ> snd) ps))"
    "follows (level_run (wave us) (armed ?t)) t 11"
    using wave_packets [of "armed ?t" ?t "[]", OF _ _ assms(3) ws(2)] by auto
  ultimately have rx: "sm_rx (sm_run (dcc_config pin clk) dcc_program cycles (sm_start x y)) = pio_rx t"
    using wave_idle [OF t(2) ws(3)] by (simp add: ws(1))
  have "length (concat (map (frame \<circ> snd) ps)) = 8 * length ps"
    using assms(3) by (induction ps) (auto simp: length_frame)
  then have "fifo_bytes (pio_rx t) = concat (map frame (map snd ps))"
    using pio_holds_frames [OF t(1)] by simp
  then show ?thesis unfolding rx using assms(3) by (intro pio_read_all_frames) auto
qed


section \<open>Time\<close>

text \<open>The length of a cycle in microseconds.\<close>

definition cycle_us :: "sm_config \<Rightarrow> u32 \<Rightarrow> rat" where
  "cycle_us cfg clk_sys_freq = clock_divider cfg * 1000000 / of_nat (unat clk_sys_freq)"

text \<open>Sampling every \<open>T\<close> microseconds: how many samples fall into a half bit of length \<open>d\<close> when the first
  comes \<open>ph\<close> after its beginning, and how far into the next half the one after them comes.\<close>

definition half_samples :: "rat \<Rightarrow> rat \<Rightarrow> rat \<Rightarrow> nat \<times> rat" where
  "half_samples T ph d = (let n = nat \<lceil>(d - ph) / T\<rceil> in (n, ph + of_nat n * T - d))"

lemma half_samples_iff: "0 < T \<Longrightarrow> i < fst (half_samples T ph d) \<longleftrightarrow> ph + of_nat i * T < d"
  by (simp add: half_samples_def Let_def nat_less_iff zless_nat_eq_int_zless less_ceiling_iff
      pos_less_divide_eq less_diff_eq add.commute)

fun sampled :: "rat \<Rightarrow> rat \<Rightarrow> (rat \<times> rat) list \<Rightarrow> (nat \<times> nat) list" where
  "sampled T ph [] = []"
| "sampled T ph ((h, l) # ws) =
     (let (a, ph) = half_samples T ph h; (c, ph) = half_samples T ph l in (a, c) # sampled T ph ws)"

text \<open>The high and the low half of a bit in microseconds, within the receiver tolerances.\<close>

fun tolerated :: "bool \<Rightarrow> rat \<times> rat \<Rightarrow> bool" where
  "tolerated b (h, l) \<longleftrightarrow>
     (if b then 90 \<le> h \<and> h \<le> 10000 \<and> 90 \<le> l \<and> l \<le> 10000 else 52 \<le> h \<and> h \<le> 64 \<and> 52 \<le> l \<and> l \<le> 64)"

lemma to_fixed_error: "\<bar>to_fixed_u24f8 q - q\<bar> \<le> 1 / 512"
proof -
  have "to_fixed_u24f8 q - q = (of_int (round_even (q * 256)) - q * 256) / 256"
    by (simp add: to_fixed_u24f8_def)
  then have "\<bar>to_fixed_u24f8 q - q\<bar> = \<bar>of_int (round_even (q * 256)) - q * 256\<bar> / 256"
    by (simp only: abs_divide abs_numeral)
  then show ?thesis using round_even_error [of "q * 256"] by simp
qed

lemma dcc_cycle_us:
  assumes "8875000 \<le> unat clk"
  shows "249 / 100 \<le> cycle_us (dcc_config pin clk) clk" "cycle_us (dcc_config pin clk) clk \<le> 251 / 100"
proof -
  let ?c = "of_nat (unat clk) :: rat" and ?q = "f64_div (of_nat (unat clk)) 400000"
  let ?d = "clock_divider (dcc_config pin clk)"
  have "(of_nat 8875000 :: rat) \<le> ?c" using assms by (simp only: of_nat_le_iff)
  moreover have "unat clk < 2 ^ 32" by (rule order.strict_trans2 [OF unsigned_less]) simp
  then have "?c < of_nat (2 ^ 32)" by (simp only: of_nat_less_iff)
  ultimately have c: "8875000 \<le> ?c" "?c < 2 ^ 32" by simp_all
  have "\<bar>?q - ?c / 400000\<bar> \<le> ?c / 400000 / 2 ^ 53"
    unfolding f64_div_def using c by (intro rnd64_error) simp
  also have "\<dots> \<le> 1 / 100000" using c by simp
  finally have q: "\<bar>?q - ?c / 400000\<bar> \<le> 1 / 100000" .
  have "\<bar>?d - ?q\<bar> \<le> 1 / 512"
    using to_fixed_error by (simp add: dcc_config_def)
  then have "\<bar>?d - ?c / 400000\<bar> \<le> 1 / 500" using q by linarith
  then show "249 / 100 \<le> cycle_us (dcc_config pin clk) clk" "cycle_us (dcc_config pin clk) clk \<le> 251 / 100"
    using c by (simp_all add: cycle_us_def abs_le_iff field_simps)
qed

lemma half_samples_bounds:
  assumes "249 / 100 \<le> T" "T \<le> 251 / 100" "0 \<le> ph" "ph < T" "T \<le> d"
    and "half_samples T ph d = (n, ph')"
  shows "0 \<le> ph'" "ph' < T" "d < 251 / 100 * (of_nat n + 1)" "249 / 100 * (of_nat n - 1) < d"
proof -
  define z where "z = \<lceil>(d - ph) / T\<rceil>"
  have T: "0 < T" using assms(1) by simp
  have "of_int z - 1 < (d - ph) / T" "(d - ph) / T \<le> of_int z" unfolding z_def by linarith+
  then have z: "(of_int z - 1) * T < d - ph" "d - ph \<le> of_int z * T"
    using T by (simp_all add: pos_less_divide_eq pos_divide_le_eq)
  have "0 < (d - ph) / T" using assms T by simp
  then have z1: "1 \<le> z" by (simp add: z_def)
  then have n: "of_nat n = (of_int z :: rat)" "ph' = ph + of_int z * T - d"
    using assms(6) by (auto simp: half_samples_def Let_def simp flip: z_def)
  show "0 \<le> ph'" "ph' < T" using z by (simp_all add: n(2) algebra_simps)
  have "d < (of_int z + 1) * T" "(of_int z - 1) * T < d"
    using z assms(3,4) by (simp_all add: algebra_simps)
  moreover have "(of_int z + 1) * T \<le> (of_int z + 1) * (251 / 100)" "(of_int z - 1) * (249 / 100) \<le> (of_int z - 1) * T"
    using z1 assms(1,2) by (intro mult_left_mono; simp)+
  ultimately show "d < 251 / 100 * (of_nat n + 1)" "249 / 100 * (of_nat n - 1) < d"
    unfolding n(1) by (simp_all add: mult.commute)
qed


lemma sampled_fits:
  assumes "249 / 100 \<le> T" "T \<le> 251 / 100"
  shows "list_all2 tolerated bs us \<Longrightarrow> 0 \<le> ph \<Longrightarrow> ph < T \<Longrightarrow> list_all2 fits bs (sampled T ph us)"
proof (induction bs us arbitrary: ph rule: list_all2_induct)
  case (Cons b bs u us)
  obtain h l where u: "u = (h, l)" by fastforce
  obtain a ph1 where a: "half_samples T ph h = (a, ph1)" by fastforce
  obtain c ph2 where c: "half_samples T ph1 l = (c, ph2)" by fastforce
  have hl: "T \<le> h" "T \<le> l" using Cons.hyps(1) assms(2) by (auto simp: u split: if_splits)
  note x = half_samples_bounds [OF assms Cons.prems hl(1) a]
  note y = half_samples_bounds [OF assms x(1,2) hl(2) c]
  have n: "m \<le> k" if "of_nat m < (of_nat k + 1 :: rat)" for m k :: nat
    using that by (metis of_nat_Suc of_nat_less_iff less_Suc_eq_le add.commute)
  have "20 \<le> c" by (rule n) (use y(3) Cons.hyps(1) in \<open>auto simp: u split: if_splits\<close>)
  moreover have "35 \<le> a" if b by (rule n) (use x(3) Cons.hyps(1) that in \<open>auto simp: u\<close>)
  moreover have "20 \<le> a" if "\<not> b" by (rule n) (use x(3) Cons.hyps(1) that in \<open>auto simp: u\<close>)
  moreover have "a \<le> 26" if "\<not> b" by (rule n) (use x(4) Cons.hyps(1) that in \<open>auto simp: u\<close>)
  ultimately have "fits b (a, c)" by simp
  then show ?case using Cons.IH [OF y(1,2)] by (simp add: u a c)
qed simp

text \<open>The pins of the chip over the cycles of the machine carry packets, each with the length of its
  preamble: the line is low for at least two cycles, then come the bits of the packets and at least
  one more one, each with any timing the receiver has to tolerate, sampled at any phase.\<close>

definition line_carries :: "nat \<Rightarrow> u32 \<Rightarrow> (nat \<Rightarrow> bool) list \<Rightarrow> (nat \<times> u8 list) list \<Rightarrow> bool" where
  "line_carries pin clk cycles ps \<longleftrightarrow>
     (let T = cycle_us (dcc_config pin clk) clk in
      \<exists>lead k ph us. 0 \<le> ph \<and> ph < T
        \<and> list_all2 tolerated (wire_packets ps @ replicate (Suc k) False) us
        \<and> map (\<lambda>pins. pins pin) cycles = replicate (Suc (Suc lead)) False @ wave (sampled T ph us))"

text \<open>The raw packets that the reader takes from a machine enabled with anything in its registers.\<close>

definition line_read :: "nat \<Rightarrow> u32 \<Rightarrow> u32 \<Rightarrow> u32 \<Rightarrow> (nat \<Rightarrow> bool) list \<Rightarrow> u8 list list" where
  "line_read pin clk x y cycles =
     pio_read_all (sm_rx (sm_run (dcc_config pin clk) dcc_program cycles (sm_start x y)))"

lemma line_reads_packets:
  assumes "pin < 32" "8875000 \<le> unat clk" "line_carries pin clk cycles ps"
    and "\<forall>(n, d) \<in> set ps. 11 \<le> n \<and> 1 \<le> length d \<and> length d \<le> 7"
  shows "line_read pin clk x y cycles = map snd ps"
proof -
  let ?T = "cycle_us (dcc_config pin clk) clk"
  obtain lead k ph us where l: "0 \<le> ph" "ph < ?T" "list_all2 tolerated (wire_packets ps @ replicate (Suc k) False) us"
    "map (\<lambda>pins. pins pin) cycles = replicate (Suc (Suc lead)) False @ wave (sampled ?T ph us)"
    using assms(3) by (auto simp: line_carries_def Let_def)
  have "list_all2 fits (wire_packets ps @ replicate (Suc k) False) (sampled ?T ph us)"
    by (rule sampled_fits [OF dcc_cycle_us [OF assms(2)] l(3,1,2)])
  then show ?thesis unfolding line_read_def by (rule cycles_read_packets [OF assms(1) l(4) assms(4)])
qed

text \<open>A line with nominal timing, the other pins idle.\<close>

definition nominal_cycles :: "nat \<Rightarrow> u32 \<Rightarrow> (nat \<times> u8 list) list \<Rightarrow> (nat \<Rightarrow> bool) list" where
  "nominal_cycles pin clk ps =
     map (\<lambda>b k. k = pin \<and> b)
       ([False, False] @ wave (sampled (cycle_us (dcc_config pin clk) clk) 0
          (map (\<lambda>b. if b then (100, 100) else (58, 58)) (wire_packets ps @ [False]))))"

lemma nominal_line_carries:
  assumes "8875000 \<le> unat clk"
  shows "line_carries pin clk (nominal_cycles pin clk ps) ps"
proof -
  let ?us = "map (\<lambda>b. if b then (100, 100) else (58, 58)) (wire_packets ps @ replicate (Suc 0) False) :: (rat \<times> rat) list"
  have "list_all2 tolerated (wire_packets ps @ replicate (Suc 0) False) ?us"
    unfolding list_all2_map2 by (rule list.rel_refl) simp
  moreover have "map (\<lambda>pins. pins pin) (nominal_cycles pin clk ps)
      = replicate (Suc (Suc 0)) False @ wave (sampled (cycle_us (dcc_config pin clk) clk) 0 ?us)"
    by (simp add: nominal_cycles_def comp_def)
  moreover have "0 < cycle_us (dcc_config pin clk) clk" using dcc_cycle_us(1) [OF assms, of pin] by simp
  ultimately show ?thesis unfolding line_carries_def Let_def by blast
qed

section \<open>Properties\<close>

text \<open>C11: the receiver, cycle by cycle. Put any packets of one to seven bytes on the line, each after at
  least eleven ones, with every half bit anywhere between 52 and 64 us for a one and between 90 and
  10000 us for a zero, and run the assembled PIO program under its configuration from a system clock of
  at least 8.875 MHz, at any phase, with anything in its registers and on the other pins: exactly these
  packets are read, in order. That holds although the program may still be padding a packet when the
  next preamble begins and misses one bit of it.\<close>

theorem waveform_to_packets:
  assumes "pin < 32" "8875000 \<le> unat clk" "line_carries pin clk cycles ps"
    and "\<forall>(n, d) \<in> set ps. 11 \<le> n \<and> 1 \<le> length d \<and> length d \<le> 7"
  shows "line_read pin clk x y cycles = map snd ps"
  by (rule line_reads_packets [OF assms])

lemma waveform_to_packets_witness:
  "line_read 21 125000000 7 9 (nominal_cycles 21 125000000 [(14, [3, 0x3F, 0x90, 0xAC]), (11, [0xFF, 0, 0xFF])])
     = [[3, 0x3F, 0x90, 0xAC], [0xFF, 0, 0xFF]]"
  by (subst waveform_to_packets [OF _ _ nominal_line_carries]) simp_all

end
