(* ===== verification/Accel.thy ===== *)
theory Accel
  imports Motor_Types
begin

text \<open>
  The acceleration helper (\<^verbatim>\<open>motor/src/speed/accel.rs\<close>): one \<^verbatim>\<open>step\<close> moves the current
  velocity one speed step towards the target and says how long to wait before the next one.
\<close>

section \<open>State\<close>

record accel_config =
  accel_rate :: u8
  decel_rate :: u8
  loop_delay :: duration

record accel_helper =
  ah_config :: accel_config
  ah_target :: velocity_setpoint
  ah_current :: velocity_setpoint

definition accel_new :: "accel_config \<Rightarrow> accel_helper" where
  "accel_new c = \<lparr>ah_config = c, ah_target = velocity_default, ah_current = velocity_default\<rparr>"

definition accel_set_target :: "velocity_setpoint \<Rightarrow> accel_helper \<Rightarrow> accel_helper" where
  "accel_set_target t h = h\<lparr>ah_target := t\<rparr>"

definition accel_reset :: "accel_helper \<Rightarrow> accel_helper" where
  "accel_reset h = h\<lparr>ah_current := velocity_default, ah_target := velocity_default\<rparr>"

section \<open>One step\<close>

text \<open>Lines 49--58: a pending direction change takes effect once the decoder is stopped, or at
  once when there is no deceleration rate.\<close>

definition accel_switch :: "accel_helper \<Rightarrow> velocity_setpoint" where
  "accel_switch h =
     (let cur = ah_current h; tgt = ah_target h in
      if vs_direction cur \<noteq> vs_direction tgt
         \<and> (decel_rate (ah_config h) = 0 \<or> idx (vs_speed_step cur) = 0)
      then cur\<lparr>vs_speed_step := Stop, vs_direction := vs_direction tgt\<rparr>
      else cur)"

text \<open>Lines 60--61.\<close>

definition accelerating :: "velocity_setpoint \<Rightarrow> velocity_setpoint \<Rightarrow> bool" where
  "accelerating cur tgt \<longleftrightarrow>
     idx (vs_speed_step cur) < idx (vs_speed_step tgt) \<and> vs_direction cur = vs_direction tgt"

text \<open>Lines 63--86: the new speed step. \<^verbatim>\<open>current_idx + 1\<close> and \<^verbatim>\<open>current_idx - 1\<close> are u8
  arithmetic. The error type is \<^typ>\<open>unit\<close>: the helper returns no errors.\<close>

definition next_speed_step ::
  "profile \<Rightarrow> accel_config \<Rightarrow> velocity_setpoint \<Rightarrow> velocity_setpoint \<Rightarrow> (unit, speed_step) res" where
  "next_speed_step p c cur tgt =
     (if vs_speed_step tgt = EmergencyStop then Ok EmergencyStop
      else let i = idx (vs_speed_step cur) in
        res_bind
          (if accelerating cur tgt
           then (if accel_rate c > 0 then word_add p i 1 else Ok (idx (vs_speed_step tgt)))
           else (if decel_rate c > 0 then word_sub p i 1 else Ok (idx (vs_speed_step tgt))))
          (\<lambda>n. Ok (Num n)))"

text \<open>Lines 93--99.\<close>

definition accel_delay :: "accel_config \<Rightarrow> bool \<Rightarrow> (unit, duration) res" where
  "accel_delay c acc =
     (if acc then duration_mul (unat (accel_rate c)) (loop_delay c)
      else duration_mul (unat (decel_rate c)) (loop_delay c))"

definition accel_step ::
  "profile \<Rightarrow> accel_helper \<Rightarrow> accel_helper \<times> (unit, velocity_setpoint \<times> duration) res" where
  "accel_step p h =
     (if equivalent (ah_current h) (ah_target h) then (h, Ok (ah_target h, duration_max))
      else
        let cur = accel_switch h; tgt = ah_target h; acc = accelerating cur tgt in
        st_bind (h\<lparr>ah_current := cur\<rparr>, next_speed_step p (ah_config h) cur tgt)
          (\<lambda>h1 s.
            let cur2 = cur\<lparr>vs_speed_step := s\<rparr>; h2 = h1\<lparr>ah_current := cur2\<rparr> in
            if equivalent cur2 tgt then (h2, Ok (tgt, duration_max))
            else st_bind (h2, accel_delay (ah_config h) acc) (\<lambda>h3 d. (h3, Ok (cur2, d)))))"

text \<open>The application calls \<^verbatim>\<open>step\<close> each time the returned delay expires: \<^term>\<open>n\<close> calls in a
  row, stopping at the first panic.\<close>

fun accel_steps :: "profile \<Rightarrow> nat \<Rightarrow> accel_helper \<Rightarrow> (unit, accel_helper) res" where
  "accel_steps p 0 h = Ok h"
| "accel_steps p (Suc n) h =
     (case accel_step p h of (h', Ok _) \<Rightarrow> accel_steps p n h' | (h', Err e) \<Rightarrow> Err e | (h', Panic) \<Rightarrow> Panic)"

section \<open>Abstract specification: a signed velocity\<close>

text \<open>Forward speeds are positive, reverse speeds negative. A helper with both rates set moves
  the signed velocity one unit towards the target.\<close>

definition signed_velocity :: "velocity_setpoint \<Rightarrow> int" where
  "signed_velocity v = (case vs_direction v of Forward \<Rightarrow> uint (idx (vs_speed_step v))
                                    | Reverse \<Rightarrow> - uint (idx (vs_speed_step v)))"

definition towards :: "int \<Rightarrow> int \<Rightarrow> int" where
  "towards x y = x + sgn (y - x)"

text \<open>The one situation in which \<^verbatim>\<open>step\<close> subtracts one from speed index zero: stopped, told to
  stop in the other direction, with a deceleration rate set.\<close>

definition stop_reversal :: "accel_helper \<Rightarrow> bool" where
  "stop_reversal h \<longleftrightarrow>
     decel_rate (ah_config h) > 0
     \<and> idx (vs_speed_step (ah_current h)) = 0
     \<and> idx (vs_speed_step (ah_target h)) = 0
     \<and> vs_speed_step (ah_target h) \<noteq> EmergencyStop
     \<and> vs_direction (ah_current h) \<noteq> vs_direction (ah_target h)"

text \<open>The delay products of lines 95 and 98 fit in a \<^verbatim>\<open>Duration\<close>; the CVs allow at most 255 ms.\<close>

definition delay_ok :: "accel_helper \<Rightarrow> bool" where
  "delay_ok h \<longleftrightarrow> 255 * loop_delay (ah_config h) \<le> duration_max"

section \<open>Lemmas\<close>

lemma accel_delay_ok:
  assumes "delay_ok h" shows "\<exists>d. accel_delay (ah_config h) acc = Ok d"
proof -
  have "unat r * loop_delay (ah_config h) \<le> duration_max" for r :: u8
  proof -
    have "unat r * loop_delay (ah_config h) \<le> 255 * loop_delay (ah_config h)"
      by (rule mult_le_mono1 [OF unat_u8_le])
    also have "\<dots> \<le> duration_max" using assms by (simp add: delay_ok_def)
    finally show ?thesis .
  qed
  then show ?thesis by (simp add: accel_delay_def duration_mul_def)
qed

lemma accel_switch_cases:
  "accel_switch h = ah_current h
   \<or> vs_direction (accel_switch h) = vs_direction (ah_target h)
     \<and> vs_speed_step (accel_switch h) = Stop
     \<and> vs_direction (ah_current h) \<noteq> vs_direction (ah_target h)
     \<and> (decel_rate (ah_config h) = 0 \<or> idx (vs_speed_step (ah_current h)) = 0)"
  by (simp add: accel_switch_def Let_def)

lemma u8_less_add_one_ok: "(i :: u8) < j \<Longrightarrow> word_add p i 1 = Ok (i + 1)"
  using unat_u8_le [of j] by (auto simp: word_add_def word_less_nat_alt)

lemma next_speed_step_panics:
  "next_speed_step p (ah_config h) (accel_switch h) (ah_target h) = Panic \<longleftrightarrow>
   p = Dev \<and> decel_rate (ah_config h) > 0 \<and> vs_speed_step (ah_target h) \<noteq> EmergencyStop
   \<and> \<not> accelerating (accel_switch h) (ah_target h) \<and> idx (vs_speed_step (accel_switch h)) = 0"
  by (auto simp: next_speed_step_def Let_def res_bind_eq_Panic u8_less_add_one_ok accelerating_def
      word_sub_def)

lemma accel_step_equivalent:
  "equivalent (ah_current h) (ah_target h) \<Longrightarrow> accel_step p h = (h, Ok (ah_target h, duration_max))"
  by (simp add: accel_step_def)

lemma accel_step_moves:
  assumes "\<not> equivalent (ah_current h) (ah_target h)" "delay_ok h"
    and "next_speed_step p (ah_config h) (accel_switch h) (ah_target h) = Ok s"
  shows "\<exists>v d. accel_step p h = (h\<lparr>ah_current := (accel_switch h)\<lparr>vs_speed_step := s\<rparr>\<rparr>, Ok (v, d))
     \<and> equivalent v ((accel_switch h)\<lparr>vs_speed_step := s\<rparr>)"
proof -
  obtain d where "accel_delay (ah_config h) (accelerating (accel_switch h) (ah_target h)) = Ok d"
    using accel_delay_ok [OF assms(2)] by blast
  then show ?thesis
    using assms by (auto simp: accel_step_def Let_def equivalent_sym [of "ah_target h"])
qed

lemma next_speed_step_no_err:
  "next_speed_step p c cur tgt = Panic \<or> (\<exists>s. next_speed_step p c cur tgt = Ok s)"
  by (auto simp: next_speed_step_def word_add_def word_sub_def Let_def)

lemma hazard_iff_underflow:
  "\<not> equivalent (ah_current h) (ah_target h) \<Longrightarrow>
   decel_rate (ah_config h) > 0 \<and> vs_speed_step (ah_target h) \<noteq> EmergencyStop
   \<and> \<not> accelerating (accel_switch h) (ah_target h) \<and> idx (vs_speed_step (accel_switch h)) = 0
   \<longleftrightarrow> stop_reversal h"
  by (auto simp: stop_reversal_def accelerating_def accel_switch_def equivalent_def word_gt_0 Let_def
      split: if_splits)

text \<open>When a step panics.\<close>

lemma accel_step_panics:
  assumes "delay_ok h"
  shows "snd (accel_step p h) = (Panic :: (unit, velocity_setpoint \<times> duration) res)
         \<longleftrightarrow> p = Dev \<and> stop_reversal h"
proof (cases "equivalent (ah_current h) (ah_target h)")
  case True
  then show ?thesis by (auto simp: accel_step_equivalent equivalent_def stop_reversal_def)
next
  case False
  show ?thesis
  proof (cases "next_speed_step p (ah_config h) (accel_switch h) (ah_target h) :: (unit, speed_step) res")
    case (Ok s)
    from accel_step_moves [OF False assms Ok] Ok show ?thesis
      using next_speed_step_panics [of p h] hazard_iff_underflow [OF False] by auto
  next
    case (Err e)
    then show ?thesis
      using next_speed_step_no_err [of p "ah_config h" "accel_switch h" "ah_target h"] by simp
  next
    case Panic
    then show ?thesis
      using next_speed_step_panics [of p h] hazard_iff_underflow [OF False] False
      by (auto simp: accel_step_def Let_def)
  qed
qed

lemma accel_step_config: "ah_config (fst (accel_step p h)) = ah_config h"
  by (auto simp: accel_step_def st_bind_def Let_def split: res.split prod.split)

text \<open>In the dev profile \<^verbatim>\<open>Helper::step\<close> panics exactly in the stop-reversal situation (the u8
  subtraction of line 79 underflows); in the release profile it never panics.\<close>
theorem accel_step_panics_iff:
  assumes "delay_ok h"
  shows "snd (accel_step p h) = (Panic :: (unit, velocity_setpoint \<times> duration) res)
         \<longleftrightarrow> p = Dev \<and> stop_reversal h"
  by (rule accel_step_panics [OF assms])

lemma next_speed_step_ok:
  assumes "\<not> equivalent (ah_current h) (ah_target h)" "\<not> stop_reversal h"
  shows "\<exists>s. next_speed_step p (ah_config h) (accel_switch h) (ah_target h) = Ok s"
  using next_speed_step_no_err next_speed_step_panics hazard_iff_underflow [OF assms(1)] assms(2)
  by blast

text \<open>Every result of a step that is not the stop reversal, in one rule.\<close>

lemma accel_step_progress:
  assumes "\<not> equivalent (ah_current h) (ah_target h)" "\<not> stop_reversal h" "delay_ok h"
  obtains s v d where
    "next_speed_step p (ah_config h) (accel_switch h) (ah_target h) = Ok s"
    "accel_step p h = (h\<lparr>ah_current := (accel_switch h)\<lparr>vs_speed_step := s\<rparr>\<rparr>, Ok (v, d))"
    "equivalent v ((accel_switch h)\<lparr>vs_speed_step := s\<rparr>)"
  using next_speed_step_ok [OF assms(1,2)] accel_step_moves [OF assms(1,3)] by blast

lemma next_speed_step_signed:
  assumes "next_speed_step p c cur tgt = Ok s" "vs_speed_step tgt \<noteq> EmergencyStop"
  shows "accelerating cur tgt \<Longrightarrow> accel_rate c > 0 \<Longrightarrow> s = Num (idx (vs_speed_step cur) + 1)"
    and "accelerating cur tgt \<Longrightarrow> accel_rate c = 0 \<Longrightarrow> s = Num (idx (vs_speed_step tgt))"
    and "\<not> accelerating cur tgt \<Longrightarrow> decel_rate c > 0 \<Longrightarrow> s = Num (idx (vs_speed_step cur) - 1)"
    and "\<not> accelerating cur tgt \<Longrightarrow> decel_rate c = 0 \<Longrightarrow> s = Num (idx (vs_speed_step tgt))"
  using assms by (auto simp: next_speed_step_def Let_def word_add_def word_sub_def split: if_splits)

lemma uint_pos_iff: "0 < uint (x :: 'a::len word) \<longleftrightarrow> x \<noteq> 0"
  by (simp add: uint_0_iff less_le)

lemma towards_less: "x < y \<Longrightarrow> towards x y = x + 1"
  and towards_greater: "y < x \<Longrightarrow> towards x y = x - 1"
  by (simp_all add: towards_def)

lemma towards_opposite:
  "0 < uint x \<Longrightarrow> towards (uint (x :: u8)) (- uint (y :: u8)) = uint x - 1"
  "0 < uint x \<Longrightarrow> towards (- uint (x :: u8)) (uint (y :: u8)) = 1 - uint x"
proof -
  have y: "0 \<le> uint y" by (rule uint_ge_0)
  assume x: "0 < uint x"
  show "towards (uint x) (- uint y) = uint x - 1"
    using x y by (intro towards_greater) linarith
  have "towards (- uint x) (uint y) = - uint x + 1"
    using x y by (intro towards_less) linarith
  then show "towards (- uint x) (uint y) = 1 - uint x" by simp
qed

lemma signed_speed_update:
  "signed_velocity (v\<lparr>vs_speed_step := Num n\<rparr>) = (case vs_direction v of Forward \<Rightarrow> uint n | Reverse \<Rightarrow> - uint n)"
  by (simp add: signed_velocity_def split: direction.split)

text \<open>The signed velocity after one ramped step, case by case.\<close>

lemma accel_ramp_signed:
  assumes step: "next_speed_step p (ah_config h) (accel_switch h) (ah_target h) = Ok s"
    and neq: "\<not> equivalent (ah_current h) (ah_target h)" and safe: "\<not> stop_reversal h"
    and rates: "accel_rate (ah_config h) > 0" "decel_rate (ah_config h) > 0"
    and run: "vs_speed_step (ah_target h) \<noteq> EmergencyStop"
  shows "signed_velocity ((accel_switch h)\<lparr>vs_speed_step := s\<rparr>) = towards (signed_velocity (ah_current h)) (signed_velocity (ah_target h))"
proof (cases "accelerating (accel_switch h) (ah_target h)")
  case True
  then have less: "idx (vs_speed_step (accel_switch h)) < idx (vs_speed_step (ah_target h))"
    and dir: "vs_direction (accel_switch h) = vs_direction (ah_target h)"
    by (simp_all add: accelerating_def)
  have s: "s = Num (idx (vs_speed_step (accel_switch h)) + 1)"
    using next_speed_step_signed(1) [OF step run True rates(1)] .
  have same: "signed_velocity (accel_switch h) = signed_velocity (ah_current h)"
    using rates by (auto simp: accel_switch_def signed_velocity_def Let_def split: direction.splits)
  show ?thesis
    unfolding same [symmetric] using less dir uint_plus_one_word [OF less]
    by (cases "vs_direction (ah_target h)")
      (auto simp: s signed_speed_update signed_velocity_def word_less_def towards_less towards_greater)
next
  case False
  have pos: "idx (vs_speed_step (accel_switch h)) \<noteq> 0"
    using hazard_iff_underflow [OF neq] safe rates run False by blast
  then have cur: "accel_switch h = ah_current h"
    using accel_switch_cases [of h] by auto
  have s: "s = Num (idx (vs_speed_step (ah_current h)) - 1)"
    using next_speed_step_signed(3) [OF step run False rates(2)] cur by simp
  have "vs_direction (ah_current h) = vs_direction (ah_target h) \<Longrightarrow>
      uint (idx (vs_speed_step (ah_target h))) < uint (idx (vs_speed_step (ah_current h)))"
    using False neq cur
    by (auto simp: accelerating_def equivalent_def not_less simp flip: word_less_def intro: le_neq_trans)
  then show ?thesis
    using pos cur uint_minus_one_word [OF pos] uint_pos_iff [of "idx (vs_speed_step (ah_current h))"]
    by (cases "vs_direction (ah_current h)"; cases "vs_direction (ah_target h)")
      (auto simp: s signed_speed_update signed_velocity_def towards_less towards_greater towards_opposite)
qed


definition ramp_example :: accel_helper where
  "ramp_example = \<lparr>ah_config = \<lparr>accel_rate = 10, decel_rate = 10, loop_delay = from_millis 7\<rparr>,
     ah_target = velocity_new (Num 3) Reverse, ah_current = velocity_new (Num 2) Forward\<rparr>"

definition stop_reversal_example :: accel_helper where
  "stop_reversal_example = ramp_example\<lparr>ah_target := velocity_new Stop Reverse,
     ah_current := velocity_default\<rparr>"

lemmas example_defs = ramp_example_def stop_reversal_example_def velocity_new_def velocity_default_def
  delay_ok_def from_millis_def duration_max_def stop_reversal_def

lemma accel_step_panics_iff_witness:
  "delay_ok stop_reversal_example \<and> stop_reversal stop_reversal_example
   \<and> snd (accel_step Dev stop_reversal_example) = Panic"
proof -
  have ok: "delay_ok stop_reversal_example" by (simp add: example_defs)
  have rev: "stop_reversal stop_reversal_example" by (simp add: example_defs)
  show ?thesis using accel_step_panics_iff [OF ok, of Dev] ok rev by simp
qed


text \<open>In the release profile the stop reversal does not stop the motor: the step returns speed
  index 255 in the new direction (above every valid speed step) with the deceleration delay, so a
  stopped locomotive is told to run at the top of the speed table.\<close>
theorem accel_stop_reversal_runs_away:
  assumes "stop_reversal h" "delay_ok h"
  shows "\<exists>d. accel_step Release h =
     (h\<lparr>ah_current := \<lparr>vs_speed_step = Num 255, vs_direction = vs_direction (ah_target h)\<rparr>\<rparr>,
      Ok (\<lparr>vs_speed_step = Num 255, vs_direction = vs_direction (ah_target h)\<rparr>, d))"
proof -
  have sw: "accel_switch h = \<lparr>vs_speed_step = Stop, vs_direction = vs_direction (ah_target h)\<rparr>"
    using assms(1) by (simp add: stop_reversal_def accel_switch_def Let_def)
  have nxt: "next_speed_step Release (ah_config h) (accel_switch h) (ah_target h) = Ok (Num 255)"
    using assms(1) by (auto simp: stop_reversal_def next_speed_step_def accelerating_def sw word_sub_def)
  obtain d where d: "accel_delay (ah_config h) False = Ok d"
    using accel_delay_ok [OF assms(2)] by blast
  show ?thesis
    using assms(1) nxt d
    by (auto simp: accel_step_def Let_def equivalent_def stop_reversal_def accelerating_def sw)
qed

lemma accel_stop_reversal_runs_away_witness:
  "\<exists>d. snd (accel_step Release stop_reversal_example)
       = Ok (\<lparr>vs_speed_step = Num 255, vs_direction = Reverse\<rparr>, d)"
proof -
  have "stop_reversal stop_reversal_example" "delay_ok stop_reversal_example"
    by (simp_all add: example_defs)
  from accel_stop_reversal_runs_away [OF this] show ?thesis
    by (auto simp: stop_reversal_example_def velocity_new_def)
qed

text \<open>Safety of a reversal under load. While a deceleration rate is set, one step changes the
  direction of travel only if the speed index was already zero.\<close>
theorem accel_direction_changes_only_at_rest:
  assumes "decel_rate (ah_config h) > 0"
    and "vs_direction (ah_current (fst (accel_step p h))) \<noteq> vs_direction (ah_current h)"
  shows "idx (vs_speed_step (ah_current h)) = 0"
proof (rule ccontr)
  assume moving: "idx (vs_speed_step (ah_current h)) \<noteq> 0"
  then have "accel_switch h = ah_current h"
    using assms(1) by (auto simp: accel_switch_def Let_def)
  then show False
    using assms(2) by (auto simp: accel_step_def Let_def st_bind_def split: if_splits res.splits)
qed

lemma accel_direction_changes_only_at_rest_witness:
  "decel_rate (ah_config (ramp_example\<lparr>ah_current := velocity_default\<rparr>)) > 0
   \<and> idx (vs_speed_step (ah_current (ramp_example\<lparr>ah_current := velocity_default\<rparr>))) = 0"
proof -
  let ?h = "ramp_example\<lparr>ah_current := velocity_default\<rparr>"
  have rate: "decel_rate (ah_config ?h) > 0" by (simp add: example_defs word_gt_0)
  have "vs_direction (ah_current (fst (accel_step Dev ?h))) \<noteq> vs_direction (ah_current ?h)"
    by (simp add: example_defs accel_step_def equivalent_def accel_switch_def accelerating_def Let_def
        next_speed_step_def word_add_def accel_delay_def duration_mul_def word_gt_0)
  from accel_direction_changes_only_at_rest [OF rate this] rate show ?thesis by simp
qed

text \<open>Emergency stop. Whatever the current velocity, rates and profile, one step towards an
  emergency-stop target succeeds and commands speed index zero.\<close>
theorem accel_emergency_stop_immediate:
  assumes "vs_speed_step (ah_target h) = EmergencyStop" "delay_ok h"
  shows "\<exists>h' v d. accel_step p h = (h', Ok (v, d)) \<and> idx (vs_speed_step v) = 0
     \<and> idx (vs_speed_step (ah_current h')) = 0"
proof (cases "equivalent (ah_current h) (ah_target h)")
  case True
  then show ?thesis using assms(1) by (simp add: accel_step_equivalent equivalent_def)
next
  case False
  have "next_speed_step p (ah_config h) (accel_switch h) (ah_target h) = Ok EmergencyStop"
    using assms(1) by (simp add: next_speed_step_def)
  from accel_step_moves [OF False assms(2) this] show ?thesis
    by (auto simp: equivalent_def)
qed

lemma accel_emergency_stop_immediate_witness:
  "\<exists>h' v d. accel_step Dev (ramp_example\<lparr>ah_target := velocity_new EmergencyStop Reverse\<rparr>) = (h', Ok (v, d))
     \<and> idx (vs_speed_step v) = 0"
proof -
  let ?h = "ramp_example\<lparr>ah_target := velocity_new EmergencyStop Reverse\<rparr>"
  have "vs_speed_step (ah_target ?h) = EmergencyStop" "delay_ok ?h"
    by (simp_all add: example_defs)
  from accel_emergency_stop_immediate [OF this, of Dev] show ?thesis by auto
qed

section \<open>Convergence\<close>

text \<open>A target the helper cannot reach without the underflow: stop in the other direction with a
  deceleration rate. Every other target is reached.\<close>

definition reachable_target :: "accel_helper \<Rightarrow> bool" where
  "reachable_target h \<longleftrightarrow>
     \<not> (decel_rate (ah_config h) > 0 \<and> idx (vs_speed_step (ah_target h)) = 0
        \<and> vs_speed_step (ah_target h) \<noteq> EmergencyStop
        \<and> vs_direction (ah_current h) \<noteq> vs_direction (ah_target h))"

text \<open>The distance still to go: the signed-velocity gap, plus one for a pending change of
  direction. It is at most 511.\<close>

definition accel_gap :: "velocity_setpoint \<Rightarrow> velocity_setpoint \<Rightarrow> nat" where
  "accel_gap cur tgt = nat \<bar>signed_velocity tgt - signed_velocity cur\<bar>
     + (if vs_direction cur = vs_direction tgt then 0 else 1)"

lemma reachable_target_safe: "reachable_target h \<Longrightarrow> \<not> stop_reversal h"
  by (auto simp: reachable_target_def stop_reversal_def)

lemma uint_u8_le: "uint (x :: u8) \<le> 255"
proof -
  have "uint x < 2 ^ LENGTH(8)" by (rule uint_bounded)
  then show ?thesis by simp
qed

lemma signed_velocity_bound: "\<bar>signed_velocity v\<bar> \<le> 255"
  by (simp add: signed_velocity_def uint_u8_le split: direction.split)

lemma accel_gap_bound: "accel_gap cur tgt \<le> 511"
proof -
  have "nat \<bar>signed_velocity tgt - signed_velocity cur\<bar> \<le> 510"
    using signed_velocity_bound [of cur] signed_velocity_bound [of tgt] by linarith
  then show ?thesis by (simp add: accel_gap_def)
qed

lemma abs_minus_uint_minus_uint: "\<bar>- uint (x :: 'a::len word) - uint (y :: 'a word)\<bar> = uint y + uint x"
proof -
  have "0 \<le> uint x" "0 \<le> uint y" by simp_all
  then show ?thesis by linarith
qed

lemma signed_velocity_opposite:
  "vs_direction a \<noteq> vs_direction b \<Longrightarrow>
   \<bar>signed_velocity b - signed_velocity a\<bar> = uint (idx (vs_speed_step a)) + uint (idx (vs_speed_step b))"
  by (auto simp: signed_velocity_def abs_minus_uint_minus_uint split: direction.splits)

lemma signed_velocity_same:
  "vs_direction a = vs_direction b \<Longrightarrow>
   \<bar>signed_velocity b - signed_velocity a\<bar> = \<bar>uint (idx (vs_speed_step b)) - uint (idx (vs_speed_step a))\<bar>"
  by (auto simp: signed_velocity_def split: direction.splits)

text \<open>One step that is not already at its target closes the gap.\<close>

lemma accel_gap_decreases_same:
  assumes "vs_direction cur = vs_direction tgt" "idx (vs_speed_step cur) \<noteq> idx (vs_speed_step tgt)"
    and "next_speed_step p c cur tgt = Ok s"
  shows "accel_gap (cur\<lparr>vs_speed_step := s\<rparr>) tgt < accel_gap cur tgt"
proof -
  let ?i = "uint (idx (vs_speed_step cur))" and ?j = "uint (idx (vs_speed_step tgt))"
  have neq: "?i \<noteq> ?j" using assms(2) by (simp add: word_uint_eq_iff)
  consider "s = EmergencyStop" "?j = 0" | "uint (idx s) = ?i + 1" "?i < ?j"
    | "uint (idx s) = ?j" | "uint (idx s) = ?i - 1" "?j < ?i"
  proof (cases "vs_speed_step tgt = EmergencyStop")
    case True
    then show thesis using that(1) assms(3) by (simp add: next_speed_step_def)
  next
    case False
    note S = next_speed_step_signed [OF assms(3) False]
    show thesis
    proof (cases "idx (vs_speed_step cur) < idx (vs_speed_step tgt)")
      case True
      then show thesis
        using that(2,3) S(1,2) assms(1) uint_plus_one_word [OF True] True [unfolded word_less_def]
        by (cases "accel_rate c = 0") (auto simp: accelerating_def word_gt_0)
    next
      case ge: False
      then have "idx (vs_speed_step cur) \<noteq> 0" using assms(2) by (auto simp: word_gt_0)
      then show thesis
        using that(3,4) S(3,4) ge neq ge [unfolded word_less_def]
          uint_minus_one_word [of "idx (vs_speed_step cur)"]
        by (cases "decel_rate c = 0") (auto simp: accelerating_def word_gt_0)
    qed
  qed
  then have "nat \<bar>?j - uint (idx s)\<bar> < nat \<bar>?j - ?i\<bar>"
    using neq by cases (simp_all add: nat_less_eq_zless unat_gt_0 uint_0_iff)
  then show ?thesis
    using assms(1) by (simp add: accel_gap_def signed_velocity_same)
qed

lemma accel_switch_unchanged:
  assumes "accel_switch h = ah_current h" "vs_direction (ah_current h) \<noteq> vs_direction (ah_target h)"
  shows "decel_rate (ah_config h) > 0" "idx (vs_speed_step (ah_current h)) \<noteq> 0"
  using arg_cong [OF assms(1), of vs_direction] assms(2)
  by (auto simp: accel_switch_def Let_def word_gt_0 split: if_splits)

lemma accel_gap_decreases_opposite:
  assumes "vs_direction (ah_current h) \<noteq> vs_direction (ah_target h)" "reachable_target h"
    and "next_speed_step p (ah_config h) (accel_switch h) (ah_target h) = Ok s"
  shows "accel_gap ((accel_switch h)\<lparr>vs_speed_step := s\<rparr>) (ah_target h) < accel_gap (ah_current h) (ah_target h)"
proof (cases "accel_switch h = ah_current h")
  case True
  then have slow: "decel_rate (ah_config h) > 0" and moving: "idx (vs_speed_step (ah_current h)) \<noteq> 0"
    using accel_switch_unchanged [OF True assms(1)] by auto
  have "uint (idx s) < uint (idx (vs_speed_step (ah_current h)))"
  proof (cases "vs_speed_step (ah_target h) = EmergencyStop")
    case True
    then show ?thesis using assms(3) moving by (simp add: next_speed_step_def uint_pos_iff)
  next
    case False
    have "s = Num (idx (vs_speed_step (ah_current h)) - 1)"
      using next_speed_step_signed(3) [OF assms(3) False _ slow] True assms(1)
      by (simp add: accelerating_def)
    then show ?thesis using uint_minus_one_word [OF moving] by simp
  qed
  then show ?thesis
    using True assms(1) moving
    by (simp add: accel_gap_def signed_velocity_opposite nat_less_eq_zless add_pos_nonneg uint_pos_iff)
next
  case False
  let ?sw = "accel_switch h"
  have sw: "vs_direction ?sw = vs_direction (ah_target h)" "vs_speed_step ?sw = Stop"
    using False accel_switch_cases [of h] by auto
  have less: "accel_gap ?sw (ah_target h) < accel_gap (ah_current h) (ah_target h)"
  proof -
    have "0 \<le> uint (idx (vs_speed_step (ah_current h)))" by simp
    then show ?thesis
      using assms(1) sw by (simp add: accel_gap_def signed_velocity_opposite signed_velocity_same
          nat_add_distrib)
  qed
  show ?thesis
  proof (cases "idx (vs_speed_step (ah_target h)) = 0")
    case True
    then have "idx s = 0"
      using assms sw next_speed_step_signed(4) [OF assms(3)]
      by (cases "vs_speed_step (ah_target h) = EmergencyStop")
        (auto simp: reachable_target_def next_speed_step_def accelerating_def word_gt_0)
    then show ?thesis
      using sw True less by (simp add: accel_gap_def signed_velocity_same)
  next
    case nz: False
    have "accel_gap (?sw\<lparr>vs_speed_step := s\<rparr>) (ah_target h) < accel_gap ?sw (ah_target h)"
      by (rule accel_gap_decreases_same [OF sw(1) _ assms(3)]) (simp add: sw nz [symmetric])
    with less show ?thesis by simp
  qed
qed

lemma accel_step_closes_gap:
  assumes "\<not> equivalent (ah_current h) (ah_target h)" "reachable_target h" "delay_ok h"
  obtains h' r where "accel_step p h = (h', Ok r)"
    "accel_gap (ah_current h') (ah_target h) < accel_gap (ah_current h) (ah_target h)"
    "ah_target h' = ah_target h" "reachable_target h'" "delay_ok h'"
proof -
  obtain s v d where S: "next_speed_step p (ah_config h) (accel_switch h) (ah_target h) = Ok s"
    and step: "accel_step p h = (h\<lparr>ah_current := (accel_switch h)\<lparr>vs_speed_step := s\<rparr>\<rparr>, Ok (v, d))"
    by (rule accel_step_progress [OF assms(1) reachable_target_safe [OF assms(2)] assms(3)])
  have gap: "accel_gap ((accel_switch h)\<lparr>vs_speed_step := s\<rparr>) (ah_target h) < accel_gap (ah_current h) (ah_target h)"
  proof (cases "vs_direction (ah_current h) = vs_direction (ah_target h)")
    case True
    then have "accel_switch h = ah_current h" by (simp add: accel_switch_def Let_def)
    then show ?thesis
      using accel_gap_decreases_same [OF True _ S [unfolded \<open>accel_switch h = ah_current h\<close>]] assms(1) True
      by (simp add: equivalent_def)
  next
    case False
    then show ?thesis by (rule accel_gap_decreases_opposite [OF _ assms(2) S])
  qed
  show thesis
    by (rule that [OF step])
      (use gap assms accel_switch_cases [of h] in \<open>auto simp: reachable_target_def delay_ok_def\<close>)
qed

lemma accel_steps_close_gap:
  "reachable_target h \<Longrightarrow> delay_ok h \<Longrightarrow> accel_gap (ah_current h) (ah_target h) \<le> n \<Longrightarrow>
   \<exists>h'. accel_steps p n h = Ok h' \<and> equivalent (ah_current h') (ah_target h')
      \<and> ah_target h' = ah_target h"
proof (induction n arbitrary: h)
  case 0
  then have "equivalent (ah_current h) (ah_target h)"
    by (rule_tac ccontr, erule_tac p = p in accel_step_closes_gap) auto
  then show ?case by simp
next
  case (Suc n)
  show ?case
  proof (cases "equivalent (ah_current h) (ah_target h)")
    case True
    then have "accel_gap (ah_current h) (ah_target h) = 0"
      by (auto simp: equivalent_def accel_gap_def signed_velocity_def split: direction.splits)
    then show ?thesis
      using Suc.IH [OF Suc.prems(1,2)] True by (simp add: accel_step_equivalent)
  next
    case False
    obtain h' r where H: "accel_step p h = (h', Ok r)"
      "accel_gap (ah_current h') (ah_target h) < accel_gap (ah_current h) (ah_target h)"
      "ah_target h' = ah_target h" "reachable_target h'" "delay_ok h'"
      by (rule accel_step_closes_gap [OF False Suc.prems(1,2)])
    then show ?thesis using Suc.IH [of h'] Suc.prems(3) by simp
  qed
qed



end
