(* ===== verification/Timers.thy ===== *)
theory Timers
  imports Prelude
begin

text \<open>
  Timers: the trait \<^verbatim>\<open>Timer\<close> of \<^verbatim>\<open>dcc/src/lib.rs\<close> as a dictionary, its implementation over
  the system clock (\<^verbatim>\<open>application/src/timer.rs\<close>), and the saturating alarms of
  \<^verbatim>\<open>application/src/timers.rs\<close>. Every operation that reads \<^verbatim>\<open>Instant::now()\<close> takes the
  clock as an argument, in ticks of one microsecond.
\<close>

section \<open>The trait and its laws\<close>

type_synonym instant = nat

record 't timer_ops =
  tm_stop :: "'t \<Rightarrow> 't"
  tm_start :: "instant \<Rightarrow> 't \<Rightarrow> 't"
  tm_elapsed_ms :: "instant \<Rightarrow> 't \<Rightarrow> usize option"

text \<open>A stopped timer has no elapsed time; a started one counts the milliseconds since it was last
  started, as long as they fit the 32 bits of a \<^verbatim>\<open>usize\<close>.\<close>

locale service_timer =
  fixes tops :: "'t timer_ops"
  assumes stopped: "tm_elapsed_ms tops now (tm_stop tops t) = None"
    and started: "t0 \<le> now \<Longrightarrow> (now - t0) div 1000 < 2 ^ 32 \<Longrightarrow>
      tm_elapsed_ms tops now (tm_start tops t0 t) = Some ((now - t0) div 1000)"
begin

lemma elapsed_below:
  assumes "t0 \<le> now" "now < t0 + 1000 * k" "k < 2 ^ 32"
  shows "\<exists>e. tm_elapsed_ms tops now (tm_start tops t0 t) = Some e \<and> e < k"
proof -
  have "(now - t0) div 1000 < k" using assms(1,2) by (simp add: div_less_iff_less_mult)
  then show ?thesis using started [OF assms(1), of t] assms(3) by simp
qed

lemma not_elapsed_below:
  assumes "t0 + 1000 * k \<le> now" "(now - t0) div 1000 < 2 ^ 32"
  shows "\<exists>e. tm_elapsed_ms tops now (tm_start tops t0 t) = Some e \<and> k \<le> e"
proof -
  have "k \<le> (now - t0) div 1000" using assms(1) by (simp add: less_eq_div_iff_mult_less_eq)
  then show ?thesis using started [of t0 now t] assms by simp
qed

end

section \<open>The timer over the system clock\<close>

record instant_timer =
  mark :: "instant option"

definition instant_timer_new :: instant_timer where
  "instant_timer_new = \<lparr>mark = None\<rparr>"

definition instant_timer_stop :: "instant_timer \<Rightarrow> instant_timer" where
  "instant_timer_stop t = t\<lparr>mark := None\<rparr>"

definition instant_timer_start :: "instant \<Rightarrow> instant_timer \<Rightarrow> instant_timer" where
  "instant_timer_start now t = t\<lparr>mark := Some now\<rparr>"

text \<open>\<^verbatim>\<open>elapsed()\<close> in whole milliseconds, truncated to a \<^verbatim>\<open>usize\<close>. The clock never runs
  backwards.\<close>

definition instant_timer_elapsed_ms :: "instant \<Rightarrow> instant_timer \<Rightarrow> usize option" where
  "instant_timer_elapsed_ms now t = map_option (\<lambda>m. ((now - m) div 1000) mod 2 ^ 32) (mark t)"

definition instant_timer_ops :: "instant_timer timer_ops" where
  "instant_timer_ops =
     \<lparr>tm_stop = instant_timer_stop, tm_start = instant_timer_start, tm_elapsed_ms = instant_timer_elapsed_ms\<rparr>"

interpretation itm: service_timer instant_timer_ops
  by unfold_locales
    (simp_all add: instant_timer_ops_def instant_timer_stop_def instant_timer_start_def
      instant_timer_elapsed_ms_def)

section \<open>Alarms\<close>

definition INSTANT_MAX_FIXED :: instant where
  "INSTANT_MAX_FIXED = 2 ^ 64 - 2"

text \<open>\<^verbatim>\<open>duration_to_timer_saturating\<close>: the time at which the alarm goes off, with
  \<^verbatim>\<open>saturating_add\<close> on 64-bit ticks.\<close>

definition duration_to_timer_saturating :: "instant \<Rightarrow> nat \<Rightarrow> instant" where
  "duration_to_timer_saturating now d = min (min (now + d) (2 ^ 64 - 1)) INSTANT_MAX_FIXED"

lemma duration_to_timer_saturating_le: "duration_to_timer_saturating now d \<le> INSTANT_MAX_FIXED"
  by (simp add: duration_to_timer_saturating_def)

lemma duration_to_timer_saturating_exact:
  "now + d \<le> INSTANT_MAX_FIXED \<Longrightarrow> duration_to_timer_saturating now d = now + d"
  by (simp add: duration_to_timer_saturating_def INSTANT_MAX_FIXED_def)

end
