(* ===== verification/Pid.thy ===== *)
theory Pid
  imports F32
begin

text \<open>
  The PID controller of the speed control (\<^verbatim>\<open>motor/src/speed/pid.rs\<close>): a wrapper around the
  \<^verbatim>\<open>discrete_pid\<close> crate that schedules the proportional gain over two ranges of the set point.
  The crate is not part of the repository: it is a parameter, a dictionary of the functions the
  wrapper calls.
\<close>

section \<open>The PID crate\<close>

record ('e, 'c, 'p) pid_lib =
  pl_default :: 'c
  pl_set_kp :: "'c \<Rightarrow> f32 \<Rightarrow> ('e, 'c) res"
  pl_set_ki :: "'c \<Rightarrow> f32 \<Rightarrow> ('e, 'c) res"
  pl_set_kd :: "'c \<Rightarrow> f32 \<Rightarrow> ('e, 'c) res"
  pl_set_filter_tc :: "'c \<Rightarrow> f32 \<Rightarrow> ('e, 'c) res"
  pl_set_sample_time :: "'c \<Rightarrow> duration \<Rightarrow> ('e, 'c) res"
  pl_set_output_limits :: "'c \<Rightarrow> f32 \<Rightarrow> f32 \<Rightarrow> ('e, 'c) res"
  pl_set_use_derivative_on_measurement :: "'c \<Rightarrow> bool \<Rightarrow> 'c"
  pl_set_use_strict_causal_integrator :: "'c \<Rightarrow> bool \<Rightarrow> 'c"
  pl_new_uninit :: "'c \<Rightarrow> 'p"
  pl_reset_integral :: "'p \<Rightarrow> 'p"
  pl_config_set_kp :: "'p \<Rightarrow> f32 \<Rightarrow> 'p \<times> ('e, unit) res"
  pl_compute :: "'p \<Rightarrow> f32 \<Rightarrow> f32 \<Rightarrow> u64 \<Rightarrow> f32 option \<Rightarrow> 'p \<times> f32"

text \<open>What the speed control relies on: a controller keeps the output limits it was configured
  with and clamps every output to them. \<^term>\<open>clim\<close> and \<^term>\<open>plim\<close> are the limits of a
  configuration and of a controller.\<close>

definition pid_lib_limits ::
  "('e, 'c, 'p) pid_lib \<Rightarrow> ('c \<Rightarrow> f32 \<times> f32) \<Rightarrow> ('p \<Rightarrow> f32 \<times> f32) \<Rightarrow> bool" where
  "pid_lib_limits lib clim plim \<longleftrightarrow>
     (\<forall>c lo hi c'. pl_set_output_limits lib c lo hi = Ok c' \<longrightarrow> clim c' = (lo, hi))
   \<and> (\<forall>c b. clim (pl_set_use_derivative_on_measurement lib c b) = clim c)
   \<and> (\<forall>c b. clim (pl_set_use_strict_causal_integrator lib c b) = clim c)
   \<and> (\<forall>c. plim (pl_new_uninit lib c) = clim c)
   \<and> (\<forall>s. plim (pl_reset_integral lib s) = plim s)
   \<and> (\<forall>s k. plim (fst (pl_config_set_kp lib s k)) = plim s)
   \<and> (\<forall>s k. snd (pl_config_set_kp lib s k) \<noteq> Panic)
   \<and> (\<forall>s m sp t ff. plim (fst (pl_compute lib s m sp t ff)) = plim s
        \<and> fst (plim s) \<le> snd (pl_compute lib s m sp t ff) \<and> snd (pl_compute lib s m sp t ff) \<le> snd (plim s))"

lemma pid_lib_limitsD:
  assumes "pid_lib_limits lib clim plim"
  shows "pl_config_set_kp lib s k = (s', r) \<Longrightarrow> plim s' = plim s \<and> r \<noteq> Panic"
    and "pl_compute lib s m sp t ff = (s', out) \<Longrightarrow> plim s' = plim s \<and> fst (plim s) \<le> out \<and> out \<le> snd (plim s)"
    and "plim (pl_reset_integral lib s) = plim s"
proof -
  note lib = assms [unfolded pid_lib_limits_def]
  show "plim s' = plim s \<and> r \<noteq> Panic" if "pl_config_set_kp lib s k = (s', r)"
    using lib that by (metis fst_conv snd_conv)
  show "plim s' = plim s \<and> fst (plim s) \<le> out \<and> out \<le> snd (plim s)" if "pl_compute lib s m sp t ff = (s', out)"
    using lib that by (metis fst_conv snd_conv)
  show "plim (pl_reset_integral lib s) = plim s" using lib by blast
qed

section \<open>Gain ranges\<close>

datatype 'e pid_error = ConfigError 'e

record pid_config =
  pc_sample_time :: duration
  pc_filter_tc :: duration
  pc_ki :: f32
  pc_kd :: f32
  pc_output_max :: u16
  pc_kp_gain_range1_end :: f32
  pc_kp_y0 :: f32
  pc_kp_y1 :: f32
  pc_kp_y2 :: f32
  pc_max_setpoint :: f32

record gain_range =
  gr_start :: f32
  gr_end :: f32
  gr_kp_start :: f32
  gr_slope :: f32

text \<open>\<^verbatim>\<open>f32::EPSILON\<close>.\<close>

definition F32_EPSILON :: f32 where
  "F32_EPSILON = 1 / 2 ^ 23"

definition gain_range_new :: "f32 \<Rightarrow> f32 \<Rightarrow> f32 \<Rightarrow> f32 \<Rightarrow> gain_range" where
  "gain_range_new start stop kp_start kp_end =
     (let slope =
        (if \<not> start < stop \<or> \<bar>f_sub stop start\<bar> < F32_EPSILON then 1
         else f_div (f_sub kp_end kp_start) (f_sub stop start))
      in \<lparr>gr_start = start, gr_end = stop, gr_kp_start = kp_start, gr_slope = slope\<rparr>)"

definition get_kp :: "gain_range \<Rightarrow> f32 \<Rightarrow> f32" where
  "get_kp g setpoint = f_add (f_mul (gr_slope g) (f_sub setpoint (gr_start g))) (gr_kp_start g)"

definition gain_range_contains :: "gain_range \<Rightarrow> f32 \<Rightarrow> bool" where
  "gain_range_contains g setpoint \<longleftrightarrow> gr_start g \<le> setpoint \<and> setpoint < gr_end g"

section \<open>The controller\<close>

record 'p pid_controller =
  pid_state :: 'p
  pid_params :: pid_config
  gain_range_low :: gain_range
  gain_range_high :: gain_range

text \<open>\<^verbatim>\<open>Duration::as_secs_f32\<close>.\<close>

definition as_secs_f32 :: "duration \<Rightarrow> f32" where
  "as_secs_f32 d = f_add (f_of_nat (d div 1000000000)) (f_div (f_of_nat (d mod 1000000000)) 1000000000)"

definition pid_new :: "('e, 'c, 'p) pid_lib \<Rightarrow> pid_config \<Rightarrow> ('e pid_error, 'p pid_controller) res" where
  "pid_new lib cfg =
     res_bind (map_err ConfigError (pl_set_kp lib (pl_default lib) 1)) (\<lambda>c.
     res_bind (map_err ConfigError (pl_set_ki lib c (pc_ki cfg))) (\<lambda>c.
     res_bind (map_err ConfigError (pl_set_kd lib c (pc_kd cfg))) (\<lambda>c.
     res_bind (map_err ConfigError (pl_set_filter_tc lib c (as_secs_f32 (pc_filter_tc cfg)))) (\<lambda>c.
     res_bind (map_err ConfigError (pl_set_sample_time lib c (pc_sample_time cfg))) (\<lambda>c.
     res_bind (map_err ConfigError (pl_set_output_limits lib c 0 (f_of_nat (unat (pc_output_max cfg))))) (\<lambda>c.
       let c = pl_set_use_derivative_on_measurement lib c True;
           c = pl_set_use_strict_causal_integrator lib c True;
           pid = pl_new_uninit lib c;
           kp_x1 = f_mul (pc_max_setpoint cfg) (pc_kp_gain_range1_end cfg);
           gain_range1 = gain_range_new 0 kp_x1 (pc_kp_y0 cfg) (pc_kp_y1 cfg);
           gain_range2 = gain_range_new kp_x1 (pc_max_setpoint cfg) (pc_kp_y1 cfg) (pc_kp_y2 cfg)
       in Ok \<lparr>pid_state = pid, pid_params = cfg, gain_range_low = gain_range1, gain_range_high = gain_range2\<rparr>))))))"

definition pid_reset :: "('e, 'c, 'p) pid_lib \<Rightarrow> 'p pid_controller \<Rightarrow> 'p pid_controller" where
  "pid_reset lib c = c\<lparr>pid_state := pl_reset_integral lib (pid_state c)\<rparr>"

definition kp_for_setpoint :: "'p pid_controller \<Rightarrow> f32 \<Rightarrow> ('e, f32) res" where
  "kp_for_setpoint c sp =
     res_bind (f_clamp sp (gr_start (gain_range_low c)) (gr_end (gain_range_high c))) (\<lambda>sp.
       Ok (if gain_range_contains (gain_range_low c) sp then get_kp (gain_range_low c) sp
           else get_kp (gain_range_high c) sp))"

definition pid_compute ::
  "('e, 'c, 'p) pid_lib \<Rightarrow> f32 \<Rightarrow> f32 \<Rightarrow> u64 \<Rightarrow> f32 \<Rightarrow> 'p pid_controller
   \<Rightarrow> 'p pid_controller \<times> ('e pid_error, u16) res" where
  "pid_compute lib measurement setpoint timestamp_ms feedforward c =
     st_bind (c, f_clamp setpoint 0 (pc_max_setpoint (pid_params c))) (\<lambda>c setpoint.
     st_bind (c, kp_for_setpoint c setpoint) (\<lambda>c kp.
       let (pid, r) = pl_config_set_kp lib (pid_state c) kp in
       st_bind (c\<lparr>pid_state := pid\<rparr>, map_err ConfigError r) (\<lambda>c _.
         let (pid, out) = pl_compute lib (pid_state c) measurement setpoint timestamp_ms (Some feedforward)
         in (c\<lparr>pid_state := pid\<rparr>, Ok (f_to_u16 out)))))"

section \<open>Output limits\<close>

text \<open>A controller made by \<^term>\<open>pid_new\<close>: its set points start at 0 and end at a non-negative
  maximum, and its outputs are limited to \<^verbatim>\<open>output_max\<close>.\<close>

definition pid_wf :: "('p \<Rightarrow> f32 \<times> f32) \<Rightarrow> 'p pid_controller \<Rightarrow> bool" where
  "pid_wf plim c \<longleftrightarrow> plim (pid_state c) = (0, of_nat (unat (pc_output_max (pid_params c))))
     \<and> gr_start (gain_range_low c) = 0 \<and> 0 \<le> pc_max_setpoint (pid_params c)
     \<and> gr_end (gain_range_high c) = pc_max_setpoint (pid_params c)"

lemma f_of_u16 [simp]: "f_of_nat (unat (v :: u16)) = of_nat (unat v)"
  using unat_u16_le [of v] by (intro f_of_nat) simp

lemma pid_new_wf:
  assumes "pid_lib_limits lib clim plim" "pid_new lib cfg = Ok c" "0 \<le> pc_max_setpoint cfg"
  shows "pid_wf plim c" "pid_params c = cfg"
  using assms by (auto simp: pid_new_def pid_wf_def gain_range_new_def Let_def pid_lib_limits_def)

lemma pid_reset_wf:
  "pid_lib_limits lib clim plim \<Longrightarrow> pid_wf plim c \<Longrightarrow> pid_wf plim (pid_reset lib c)"
  by (simp add: pid_wf_def pid_reset_def pid_lib_limits_def)

lemma f_to_u16_le:
  assumes "x \<le> of_nat (unat m)" shows "f_to_u16 x \<le> m"
proof -
  consider "x \<le> 0" | "65535 \<le> x" | "0 < x" "x < 65535" by linarith
  then show ?thesis
  proof cases
    case 2
    then have "(65535 :: rat) \<le> of_nat (unat m)" using assms by linarith
    then have "of_nat 65535 \<le> (of_nat (unat m) :: rat)" by simp
    then have "65535 \<le> unat m" by (simp only: of_nat_le_iff)
    then show ?thesis using 2 by (simp add: f_to_u16_def word_le_nat_alt)
  next
    case 3
    then have f: "0 \<le> \<lfloor>x\<rfloor>" "\<lfloor>x\<rfloor> < 65536" by linarith+
    have e: "(of_nat (unat m) :: rat) = of_int (uint m)" by simp
    have "x \<le> of_int (uint m)" using assms by (simp only: e)
    then have "\<lfloor>x\<rfloor> \<le> uint m" by (simp only: floor_le_iff)
    then show ?thesis using 3 f by (simp add: f_to_u16_def word_le_def uint_word_of_int)
  qed (simp add: f_to_u16_def)
qed

lemma pid_compute_limits:
  fixes lib :: "('e, 'c, 'p) pid_lib"
  assumes "pid_lib_limits lib clim plim" "pid_wf plim c" "pid_compute lib m sp t ff c = (c', r)"
  shows "pid_wf plim c'" "pid_params c' = pid_params c" "r \<noteq> Panic"
    "r = Ok out \<Longrightarrow> out \<le> pc_output_max (pid_params c)"
proof -
  obtain sp' where sp': "f_clamp sp 0 (pc_max_setpoint (pid_params c)) = (Ok sp' :: ('e pid_error, f32) res)"
    using assms(2) by (auto simp: f_clamp_def pid_wf_def)
  obtain kp where kp: "kp_for_setpoint c sp' = (Ok kp :: ('e pid_error, f32) res)"
    using assms(2) by (auto simp: kp_for_setpoint_def f_clamp_def pid_wf_def)
  obtain s1 r1 where s1: "pl_config_set_kp lib (pid_state c) kp = (s1, r1)" by fastforce
  then have l1: "plim s1 = plim (pid_state c)" "r1 \<noteq> Panic" using pid_lib_limitsD(1) [OF assms(1)] by blast+
  obtain s2 o2 where s2: "pl_compute lib s1 m sp' t (Some ff) = (s2, o2)" by fastforce
  then have l2: "plim s2 = plim s1" "o2 \<le> snd (plim s1)" using pid_lib_limitsD(2) [OF assms(1)] by blast+
  have res: "c' = c\<lparr>pid_state := s2\<rparr> \<and> r = Ok (f_to_u16 o2)
      \<or> (\<exists>e. c' = c\<lparr>pid_state := s1\<rparr> \<and> r = Err (ConfigError e))"
    using assms(3) l1(2) by (cases r1) (auto simp: pid_compute_def sp' kp s1 s2)
  have lim: "snd (plim s1) = of_nat (unat (pc_output_max (pid_params c)))"
    using l1 assms(2) by (simp add: pid_wf_def)
  have "plim (pid_state c') = plim (pid_state c)" using res l1(1) l2(1) by auto
  moreover have "c' = c\<lparr>pid_state := pid_state c'\<rparr>" using res by auto
  ultimately show "pid_wf plim c'" using assms(2) by (metis pid_wf_def pid_controller.select_convs(2-4) pid_controller.surjective pid_controller.update_convs(1))
  show "pid_params c' = pid_params c" "r \<noteq> Panic" using res by auto
  show "out \<le> pc_output_max (pid_params c)" if "r = Ok out"
    using res that l2(2) lim f_to_u16_le [of o2 "pc_output_max (pid_params c)"] by simp
qed

section \<open>Accuracy of the gain schedule\<close>

text \<open>Relative error of one rounding, and of a product of terms close to 1.\<close>

lemma rnd_rel: "\<exists>d. rnd x = x * d \<and> \<bar>d - 1\<bar> \<le> 1 / 2 ^ 24"
proof (cases "x = 0")
  case False
  have "2 powi (ilog2 \<bar>x\<bar>) \<le> \<bar>x\<bar>" using False by (intro ilog2_bounds) simp
  then have "ulp x \<le> \<bar>x\<bar> / 8388608" by (simp add: ulp_def power_int_diff)
  then have "\<bar>rnd x - x\<bar> \<le> \<bar>x\<bar> / 16777216" using rnd_error_ulp [OF False] by linarith
  then have e: "\<bar>rnd x - x\<bar> \<le> \<bar>x\<bar> / 2 ^ 24" by simp
  have "\<bar>rnd x / x - 1\<bar> = \<bar>rnd x - x\<bar> / \<bar>x\<bar>"
    using False by (simp add: field_simps flip: abs_divide)
  also have "\<dots> \<le> 1 / 2 ^ 24" using e False by (simp add: pos_divide_le_eq)
  finally show ?thesis using False by (intro exI [of _ "rnd x / x"]) simp
qed (auto intro!: exI [of _ 1])

lemma near_one_mult:
  fixes x y :: rat
  assumes "\<bar>x - 1\<bar> \<le> p" "\<bar>y - 1\<bar> \<le> q" shows "\<bar>x * y - 1\<bar> \<le> p + q + p * q"
proof -
  have "x * y - 1 = (x - 1) + (y - 1) + (x - 1) * (y - 1)" by (simp add: algebra_simps)
  moreover have "\<bar>(x - 1) * (y - 1)\<bar> \<le> p * q"
    unfolding abs_mult using assms by (intro mult_mono) auto
  ultimately show ?thesis using assms by linarith
qed

lemma near_one_inverse:
  fixes x :: rat
  assumes "\<bar>x - 1\<bar> \<le> p" "p \<le> 1 / 2" shows "\<bar>1 / x - 1\<bar> \<le> 2 * p"
proof -
  have x: "1 / 2 \<le> x" using assms by linarith
  have "1 / x - 1 = (1 - x) / x" using x by (simp add: field_simps)
  then have "\<bar>1 / x - 1\<bar> = \<bar>x - 1\<bar> / x" using x by (simp add: abs_minus_commute)
  also have "\<dots> \<le> p / (1 / 2)" using x assms(1) by (intro frac_le) auto
  finally show ?thesis by simp
qed

text \<open>A gain range computes the line through its end points; single precision costs at most
  1/2000 for gains up to 656 (the largest a CV can hold is 655.35).\<close>

lemma gain_line_accurate:
  assumes "0 \<le> y0" "y0 \<le> 656" "0 \<le> y1" "y1 \<le> 656" "a < b" "a \<le> x" "x \<le> b"
  shows "\<bar>rnd (rnd (rnd (rnd (y1 - y0) / rnd (b - a)) * rnd (x - a)) + y0) - (y0 + (y1 - y0) * (x - a) / (b - a))\<bar> \<le> 1 / 2000"
proof -
  let ?e = "1 / 2 ^ 24 :: rat"
  define l where "l = (y1 - y0) * (x - a) / (b - a)"
  obtain d1 where d1: "rnd (y1 - y0) = (y1 - y0) * d1" "\<bar>d1 - 1\<bar> \<le> ?e" using rnd_rel by blast
  obtain d2 where d2: "rnd (b - a) = (b - a) * d2" "\<bar>d2 - 1\<bar> \<le> ?e" using rnd_rel by blast
  obtain d3 where d3: "rnd (rnd (y1 - y0) / rnd (b - a)) = rnd (y1 - y0) / rnd (b - a) * d3" "\<bar>d3 - 1\<bar> \<le> ?e"
    using rnd_rel by blast
  obtain d4 where d4: "rnd (x - a) = (x - a) * d4" "\<bar>d4 - 1\<bar> \<le> ?e" using rnd_rel by blast
  let ?s = "rnd (rnd (y1 - y0) / rnd (b - a))"
  obtain d5 where d5: "rnd (?s * rnd (x - a)) = ?s * rnd (x - a) * d5" "\<bar>d5 - 1\<bar> \<le> ?e" using rnd_rel by blast
  define f where "f = d1 * d3 * (d4 * d5) * (1 / d2)"
  note d5(1)
  also have "?s * rnd (x - a) * d5 = rnd (y1 - y0) / rnd (b - a) * d3 * ((x - a) * d4) * d5"
    by (simp only: d4(1) d3(1))
  also have "\<dots> = (y1 - y0) * d1 / ((b - a) * d2) * d3 * ((x - a) * d4) * d5"
    by (simp only: d1(1) d2(1))
  also have "\<dots> = l * f" by (simp add: l_def f_def)
  finally have p: "rnd (?s * rnd (x - a)) = l * f" .
  have "\<bar>d1 * d3 - 1\<bar> \<le> 1 / 8000000" "\<bar>d4 * d5 - 1\<bar> \<le> 1 / 8000000"
    using near_one_mult [OF d1(2) d3(2)] near_one_mult [OF d4(2) d5(2)] by simp_all
  then have "\<bar>d1 * d3 * (d4 * d5) - 1\<bar> \<le> 1 / 3900000"
    using near_one_mult [of "d1 * d3" "1 / 8000000" "d4 * d5" "1 / 8000000"] by simp
  moreover have "\<bar>1 / d2 - 1\<bar> \<le> 1 / 8000000" using near_one_inverse [OF d2(2)] by simp
  ultimately have f: "\<bar>f - 1\<bar> \<le> 1 / 2500000"
    using near_one_mult [of "d1 * d3 * (d4 * d5)" "1 / 3900000" "1 / d2" "1 / 8000000"] by (simp add: f_def)
  have t: "0 \<le> (x - a) / (b - a)" "(x - a) / (b - a) \<le> 1" using assms(5-7) by simp_all
  have "\<bar>l\<bar> = \<bar>y1 - y0\<bar> * ((x - a) / (b - a))" using assms(5-7) by (simp add: l_def abs_mult)
  also have "\<dots> \<le> 656 * 1" using assms(1-4) t by (intro mult_mono) auto
  finally have l: "\<bar>l\<bar> \<le> 656" by simp
  have "\<bar>l * f - l\<bar> = \<bar>l\<bar> * \<bar>f - 1\<bar>" by (simp flip: abs_mult add: algebra_simps)
  also have "\<dots> \<le> 656 * (1 / 2500000)" using l f by (intro mult_mono) auto
  finally have e: "\<bar>l * f - l\<bar> \<le> 656 / 2500000" by simp
  have "\<bar>l * f + y0\<bar> \<le> 2048" using e l assms(1,2) unfolding abs_le_iff by linarith
  then have "\<bar>rnd (l * f + y0) - (l * f + y0)\<bar> \<le> 1 / 8192" using rnd_error [of "l * f + y0" 11] by simp
  then have "\<bar>rnd (l * f + y0) - (y0 + l)\<bar> \<le> 1 / 2000" using e unfolding abs_le_iff by linarith
  then show ?thesis unfolding p l_def by (simp add: add.commute)
qed

section \<open>The schedule\<close>

text \<open>A configuration as \<^verbatim>\<open>main.rs\<close> makes it from CVs: the gains are hundredths of a \<^verbatim>\<open>u16\<close>, the end
  of the first range is a number of 255ths, and the largest set point is an entry of the speed
  table.\<close>

definition cv_gains :: "pid_config \<Rightarrow> bool" where
  "cv_gains cfg \<longleftrightarrow>
     (\<exists>n a. pc_max_setpoint cfg = of_nat n \<and> n \<le> 4080 \<and> a \<le> 255 \<and> pc_kp_gain_range1_end cfg = f_div (of_nat a) 255)
   \<and> {pc_kp_y0 cfg, pc_kp_y1 cfg, pc_kp_y2 cfg} \<subseteq> {0..656} \<and> rnd (pc_kp_y1 cfg) = pc_kp_y1 cfg"

text \<open>Where the two ranges meet, and the exact schedule: a line from \<^verbatim>\<open>kp_y0\<close> to \<^verbatim>\<open>kp_y1\<close>, then one
  to \<^verbatim>\<open>kp_y2\<close>.\<close>

definition kp_x1 :: "pid_config \<Rightarrow> f32" where
  "kp_x1 cfg = f_mul (pc_max_setpoint cfg) (pc_kp_gain_range1_end cfg)"

definition exact_kp :: "pid_config \<Rightarrow> f32 \<Rightarrow> rat" where
  "exact_kp cfg sp =
     (if sp < kp_x1 cfg then pc_kp_y0 cfg + (pc_kp_y1 cfg - pc_kp_y0 cfg) * sp / kp_x1 cfg
      else pc_kp_y1 cfg + (pc_kp_y2 cfg - pc_kp_y1 cfg) * (sp - kp_x1 cfg) / (pc_max_setpoint cfg - kp_x1 cfg))"

lemma rnd_of_frac: "\<bar>m\<bar> < 2 ^ 24 \<Longrightarrow> rnd (of_int m / 256) = of_int m / 256"
  using rnd_exact [of m "- 8"] by (simp add: power_int_def power_divide)

text \<open>The meeting point lies in the set-point range, and no closer than 1/256 to its ends unless it
  coincides with one.\<close>

lemma kp_x1_range:
  assumes "n \<le> 4080" "a \<le> 255"
  defines "x \<equiv> f_mul (of_nat n) (f_div (of_nat a) 255)"
  shows "0 \<le> x" "x \<le> of_nat n" "x = 0 \<or> 1 / 256 \<le> x" "x = of_nat n \<or> x \<le> of_nat n - 1 / 256"
proof -
  define f where "f = rnd (of_nat a / 255)"
  have x: "x = rnd (of_nat n * f)" by (simp add: x_def f_def f_mul_def f_div_def)
  have one: "rnd 1 = (1 :: rat)" using rnd_of_int [of 1] by simp
  have n: "rnd (of_nat n) = of_nat n" using assms(1) by (intro rnd_of_nat) simp
  have f0: "0 \<le> f" unfolding f_def by (intro rnd_nonneg) simp
  have "(of_nat a :: rat) / 255 \<le> 1" using assms(2) by simp
  then have f1: "f \<le> 1" unfolding f_def using rnd_mono one by metis
  show "0 \<le> x" unfolding x using f0 by (intro rnd_nonneg) simp
  have "of_nat n * f \<le> of_nat n" using f1 by (simp add: mult_left_le)
  then show "x \<le> of_nat n" unfolding x using rnd_mono n by metis
  show "x = 0 \<or> 1 / 256 \<le> x"
  proof (cases "n = 0 \<or> a = 0")
    case True
    then show ?thesis by (auto simp: x f_def)
  next
    case False
    have q: "rnd (1 / 256) = (1 / 256 :: rat)" using rnd_of_frac [of 1] by simp
    have "(1 / 256 :: rat) \<le> of_nat a / 255" using False by (simp add: field_simps)
    then have "1 / 256 \<le> f" unfolding f_def using rnd_mono q by metis
    moreover have "(1 :: rat) \<le> of_nat n" using False by simp
    ultimately have "1 * (1 / 256) \<le> of_nat n * f" by (intro mult_mono) auto
    then show ?thesis unfolding x using rnd_mono q by (metis mult_1)
  qed
  show "x = of_nat n \<or> x \<le> of_nat n - 1 / 256"
  proof (cases "n = 0 \<or> a = 255")
    case True
    then show ?thesis using one n by (auto simp: x f_def)
  next
    case False
    have q: "rnd (of_int 255 / 256) = (of_int 255 / 256 :: rat)" by (intro rnd_of_frac) simp
    have "a \<le> 254" using False assms(2) by simp
    then have "(of_nat a :: rat) \<le> 254" by simp
    then have "(of_nat a :: rat) / 255 \<le> of_int 255 / 256" by simp
    then have f: "f \<le> 255 / 256" unfolding f_def using rnd_mono q by (metis of_int_numeral)
    have "of_nat n * f \<le> of_nat n * (255 / 256)" using f by (intro mult_left_mono) simp_all
    also have "\<dots> = of_int (255 * int n) / 256" by simp
    finally have "x \<le> rnd (of_int (255 * int n) / 256)" unfolding x by (rule rnd_mono)
    also have "\<dots> = of_int (255 * int n) / 256" using assms(1) by (intro rnd_of_frac) simp
    finally have "x \<le> of_nat n * (255 / 256)" by simp
    moreover have "(1 :: rat) \<le> of_nat n" using False by simp
    ultimately show ?thesis by linarith
  qed
qed

lemma gain_range_new_simps [simp]:
  "gr_start (gain_range_new a b y z) = a" "gr_end (gain_range_new a b y z) = b"
  "gr_kp_start (gain_range_new a b y z) = y"
  by (simp_all add: gain_range_new_def Let_def)

lemma get_kp_accurate:
  assumes "0 \<le> y0" "y0 \<le> 656" "0 \<le> y1" "y1 \<le> 656" "a + 1 / 256 \<le> b" "a \<le> x" "x \<le> b"
  shows "\<bar>get_kp (gain_range_new a b y0 y1) x - (y0 + (y1 - y0) * (x - a) / (b - a))\<bar> \<le> 1 / 2000"
proof -
  have "rnd (1 / 256) = (1 / 256 :: rat)" using rnd_of_frac [of 1] by simp
  moreover have "1 / 256 \<le> b - a" using assms(5) by linarith
  ultimately have "1 / 256 \<le> rnd (b - a)" using rnd_mono by metis
  then have "\<not> \<bar>f_sub b a\<bar> < F32_EPSILON" by (simp add: f_sub_def F32_EPSILON_def)
  moreover have "a < b" using assms(5) by linarith
  ultimately show ?thesis
    using gain_line_accurate [OF assms(1-4) _ assms(6,7)]
    by (simp add: get_kp_def gain_range_new_def f_add_def f_mul_def f_div_def f_sub_def)
qed

text \<open>At the end of an empty second range.\<close>

lemma get_kp_start: "rnd y = y \<Longrightarrow> get_kp (gain_range_new a b y z) a = y"
  by (simp add: get_kp_def gain_range_new_def f_add_def f_mul_def f_sub_def Let_def)

text \<open>C33: the gain schedule is accurate. For every configuration that CVs can express, the gain used at
  a set point within the range is the two-piece linear schedule through \<^verbatim>\<open>kp_y0\<close>, \<^verbatim>\<open>kp_y1\<close> and
  \<^verbatim>\<open>kp_y2\<close> to within 1/2000, also when one of the ranges is empty; a set point above the range
  gives the gain of its end, and looking it up never panics.\<close>

theorem kp_schedule_accurate:
  assumes "pid_new lib cfg = Ok c" "cv_gains cfg" "0 \<le> sp"
  shows "\<exists>kp. kp_for_setpoint c sp = (Ok kp :: ('e, f32) res) \<and> \<bar>kp - exact_kp cfg (min sp (pc_max_setpoint cfg))\<bar> \<le> 1 / 2000"
proof -
  let ?x1 = "kp_x1 cfg" and ?max = "pc_max_setpoint cfg"
  obtain n a where m: "?max = of_nat n" "n \<le> 4080" "a \<le> 255" "pc_kp_gain_range1_end cfg = f_div (of_nat a) 255"
    and y: "0 \<le> pc_kp_y0 cfg" "pc_kp_y0 cfg \<le> 656" "0 \<le> pc_kp_y1 cfg" "pc_kp_y1 cfg \<le> 656"
      "0 \<le> pc_kp_y2 cfg" "pc_kp_y2 cfg \<le> 656" "rnd (pc_kp_y1 cfg) = pc_kp_y1 cfg"
    using assms(2) by (auto simp: cv_gains_def)
  note x1 = kp_x1_range [OF m(2,3), folded m(1,4), folded kp_x1_def]
  have g: "gain_range_low c = gain_range_new 0 ?x1 (pc_kp_y0 cfg) (pc_kp_y1 cfg)"
    "gain_range_high c = gain_range_new ?x1 ?max (pc_kp_y1 cfg) (pc_kp_y2 cfg)"
    using assms(1) by (auto simp: pid_new_def kp_x1_def Let_def)
  define s where "s = min sp ?max"
  have s: "0 \<le> s" "s \<le> ?max" using assms(3) m(1) by (simp_all add: s_def)
  have "kp_for_setpoint c sp = (Ok (if s < ?x1 then get_kp (gain_range_low c) s else get_kp (gain_range_high c) s) :: ('e, f32) res)"
    using assms(3) m(1) s by (auto simp: kp_for_setpoint_def f_clamp_def g gain_range_contains_def s_def min_def)
  moreover have "\<bar>get_kp (gain_range_low c) s - exact_kp cfg s\<bar> \<le> 1 / 2000" if "s < ?x1"
    using that s x1 get_kp_accurate [OF y(1-4), of 0 ?x1 s] by (simp add: g exact_kp_def)
  moreover have "\<bar>get_kp (gain_range_high c) s - exact_kp cfg s\<bar> \<le> 1 / 2000" if "\<not> s < ?x1"
  proof (cases "?x1 = ?max")
    case True
    then show ?thesis using that s get_kp_start [OF y(7)] by (simp add: g exact_kp_def)
  next
    case False
    then show ?thesis
      using that s x1 m(1) get_kp_accurate [OF y(3-6), of ?x1 ?max s] by (simp add: g exact_kp_def)
  qed
  ultimately show ?thesis unfolding s_def [symmetric] by auto
qed

text \<open>A clamped proportional controller in the place of the crate: its state is the gain and the
  output limits.\<close>

definition p_lib :: "(unit, f32 \<times> f32 \<times> f32, f32 \<times> f32 \<times> f32) pid_lib" where
  "p_lib =
     \<lparr>pl_default = (0, 0, 0),
      pl_set_kp = \<lambda>(k, l) k'. if k' < 0 then Err () else Ok (k', l),
      pl_set_ki = \<lambda>c k. Ok c, pl_set_kd = \<lambda>c k. Ok c, pl_set_filter_tc = \<lambda>c k. Ok c,
      pl_set_sample_time = \<lambda>c d. Ok c,
      pl_set_output_limits = \<lambda>(k, l) lo hi. if lo \<le> hi then Ok (k, lo, hi) else Err (),
      pl_set_use_derivative_on_measurement = \<lambda>c b. c,
      pl_set_use_strict_causal_integrator = \<lambda>c b. c,
      pl_new_uninit = \<lambda>(k, lo, hi). (k, lo, max lo hi),
      pl_reset_integral = \<lambda>s. s,
      pl_config_set_kp = \<lambda>(k, l) k'. if k' < 0 then ((k, l), Err ()) else ((k', l), Ok ()),
      pl_compute = \<lambda>(k, lo, hi) m sp t ff. ((k, lo, max lo hi), max lo (min (max lo hi) (k * (sp - m) + (case ff of None \<Rightarrow> 0 | Some f \<Rightarrow> f))))\<rparr>"

definition sample_pid_config :: pid_config where
  "sample_pid_config = \<lparr>pc_sample_time = from_millis 5, pc_filter_tc = from_millis 10, pc_ki = 5 / 2, pc_kd = 1 / 200,
     pc_output_max = 5000, pc_kp_gain_range1_end = f_div (of_nat 13) 255, pc_kp_y0 = 20, pc_kp_y1 = 5 / 2,
     pc_kp_y2 = 3 / 2, pc_max_setpoint = 1600\<rparr>"

lemma sample_cv_gains: "cv_gains sample_pid_config"
proof -
  have "rnd (5 / 2) = (5 / 2 :: rat)" using rnd_of_frac [of 640] by simp
  moreover have "\<exists>n a. (1600 :: rat) = of_nat n \<and> n \<le> 4080 \<and> a \<le> 255 \<and> f_div (of_nat 13) 255 = f_div (of_nat a) 255"
    by (intro exI [of _ 1600] exI [of _ 13]) simp
  ultimately show ?thesis by (simp add: cv_gains_def sample_pid_config_def)
qed

lemma sample_pid_new: "\<exists>c. pid_new p_lib sample_pid_config = Ok c"
  by (simp add: pid_new_def p_lib_def Let_def sample_pid_config_def)

lemma kp_schedule_accurate_witness:
  "\<exists>c kp. pid_new p_lib sample_pid_config = Ok c \<and> kp_for_setpoint c 5000 = (Ok kp :: (unit, f32) res) \<and> \<bar>kp - 3 / 2\<bar> \<le> 1 / 2000"
proof -
  obtain c where c: "pid_new p_lib sample_pid_config = Ok c" using sample_pid_new by blast
  obtain kp where kp: "kp_for_setpoint c 5000 = (Ok kp :: (unit, f32) res)"
    "\<bar>kp - exact_kp sample_pid_config (min 5000 (pc_max_setpoint sample_pid_config))\<bar> \<le> 1 / 2000"
    using kp_schedule_accurate [OF c sample_cv_gains, of 5000] by auto
  have x: "kp_x1 sample_pid_config \<le> 1500"
  proof -
    have "f_div (of_nat 13) 255 \<le> rnd (of_int 240 / 256)"
      unfolding f_div_def by (intro rnd_mono) simp
    also have "rnd (of_int 240 / 256) = (of_int 240 / 256 :: rat)" by (intro rnd_of_frac) simp
    finally have "f_div (of_nat 13) 255 \<le> 240 / 256" by simp
    then have "f_mul 1600 (f_div (of_nat 13) 255) \<le> rnd (of_int 1500)"
      unfolding f_mul_def by (intro rnd_mono) simp
    then show ?thesis using rnd_of_int [of 1500] by (simp add: kp_x1_def sample_pid_config_def)
  qed
  have v: "pc_kp_y1 sample_pid_config = 5 / 2" "pc_kp_y2 sample_pid_config = 3 / 2" "pc_max_setpoint sample_pid_config = 1600"
    by (simp_all add: sample_pid_config_def)
  have e: "exact_kp sample_pid_config 1600 = 3 / 2"
    using x by (simp add: exact_kp_def v field_simps)
  have "min 5000 (pc_max_setpoint sample_pid_config) = 1600" by (simp add: v)
  then have "\<bar>kp - 3 / 2\<bar> \<le> 1 / 2000" using kp(2) e by metis
  then show ?thesis using c kp(1) by blast
qed

end
