(* ===== verification/Startup.thy ===== *)
theory Startup
  imports F32
begin

text \<open>
  The startup controller (\<^verbatim>\<open>motor/src/speed/startup.rs\<close>): while the motor stands still the
  output is ramped up from a level learnt from earlier starts; when the back EMF shows that the
  motor turns, the level is remembered and handed over to the PID controller as a feed-forward
  term.
\<close>

section \<open>State\<close>

definition START_OUTPUT_ARR_LEN :: usize where
  "START_OUTPUT_ARR_LEN = 16"

text \<open>\<^verbatim>\<open>CONTROLLER_HANDOVER\<close> of \<^verbatim>\<open>motor/src/speed/mod.rs\<close>.\<close>

definition CONTROLLER_HANDOVER :: f32 where
  "CONTROLLER_HANDOVER = 15 / 2"

record startup_config =
  sc_output_max :: u16
  sc_pid_ff :: f32

record startup =
  st_config :: startup_config
  prev_start_output :: "u16 list"
  buf_write_idx :: usize
  st_output :: u16

datatype compute_result = Output u16 | Handover f32

section \<open>Operations\<close>

definition startup_new :: "startup_config \<Rightarrow> startup" where
  "startup_new c = \<lparr>st_config = c, prev_start_output = replicate START_OUTPUT_ARR_LEN 0, buf_write_idx = 0, st_output = 0\<rparr>"

text \<open>The sums of 16 values of 16 bits fit a \<^verbatim>\<open>usize\<close>; the result fits a \<^verbatim>\<open>u16\<close> because it is at most
  two thirds of an average.\<close>

definition get_initial_level :: "startup \<Rightarrow> u16" where
  "get_initial_level s =
     (let (sum, cnt) = foldl (\<lambda>(sum, cnt) v. (sum + unat v, cnt + 1)) (0 :: usize, 0 :: usize)
          (filter (\<lambda>i. i > 0) (prev_start_output s))
      in if cnt \<noteq> 0 then of_nat ((sum div cnt) * 2 div 3) else 0)"

definition startup_reset :: "startup \<Rightarrow> startup" where
  "startup_reset s = s\<lparr>st_output := 0\<rparr>"

definition startup_compute :: "profile \<Rightarrow> f32 \<Rightarrow> startup \<Rightarrow> startup \<times> (unit, compute_result) res" where
  "startup_compute p measurement s =
     (let s = (if st_output s = 0 then s\<lparr>st_output := get_initial_level s\<rparr> else s) in
      if measurement < CONTROLLER_HANDOVER then
        let curr_output = st_output s in
        st_bind (s, word_add p (st_output s) (sc_output_max (st_config s) div 250)) (\<lambda>s output.
          let s = s\<lparr>st_output := output\<rparr>;
              s = (if st_output s > sc_output_max (st_config s)
                   then s\<lparr>st_output := get_initial_level s div 2\<rparr> else s)
          in (s, Ok (Output curr_output)))
      else
        let ff = f_mul (sc_pid_ff (st_config s)) (f_of_nat (unat (st_output s))) in
        if buf_write_idx s < length (prev_start_output s) then
          let s = s\<lparr>prev_start_output := (prev_start_output s)[buf_write_idx s := st_output s]\<rparr>;
              s = s\<lparr>buf_write_idx := (buf_write_idx s + 1) mod length (prev_start_output s)\<rparr>
          in (s\<lparr>st_output := 0\<rparr>, Ok (Handover ff))
        else (s, Panic))"

text \<open>A run of computations that all see a motor standing still.\<close>

fun startup_stalled :: "profile \<Rightarrow> f32 list \<Rightarrow> startup \<Rightarrow> startup \<times> (unit, u16 list) res" where
  "startup_stalled p [] s = (s, Ok [])"
| "startup_stalled p (m # ms) s =
     st_bind (startup_compute p m s) (\<lambda>s r.
       case r of
         Output out \<Rightarrow> st_bind (startup_stalled p ms s) (\<lambda>s outs. (s, Ok (out # outs)))
       | Handover ff \<Rightarrow> (s, Ok []))"

section \<open>Invariant\<close>

text \<open>The ring buffer has its 16 places, the write index lies inside, and neither the output nor a
  remembered level exceeds the maximal output.\<close>

definition startup_wf :: "startup \<Rightarrow> bool" where
  "startup_wf s \<longleftrightarrow> length (prev_start_output s) = 16 \<and> buf_write_idx s < 16
     \<and> st_output s \<le> sc_output_max (st_config s)
     \<and> (\<forall>v \<in> set (prev_start_output s). v \<le> sc_output_max (st_config s))"

lemma startup_new_wf: "startup_wf (startup_new c)"
  by (simp add: startup_wf_def startup_new_def START_OUTPUT_ARR_LEN_def)

lemma startup_reset_wf: "startup_wf s \<Longrightarrow> startup_wf (startup_reset s)"
  by (simp add: startup_wf_def startup_reset_def)

lemma foldl_sum_cnt:
  "foldl (\<lambda>(sum, cnt) v. (sum + unat v, cnt + 1)) (a, c) xs = (a + sum_list (map unat xs), c + length xs)"
  for xs :: "u16 list"
  by (induction xs arbitrary: a c) auto

lemma get_initial_level_sum:
  "get_initial_level s = (let xs = filter (\<lambda>i. i > 0) (prev_start_output s)
     in of_nat (sum_list (map unat xs) div length xs * 2 div 3))"
  unfolding get_initial_level_def foldl_sum_cnt Let_def by simp

lemma sum_list_div_le:
  "\<forall>x \<in> set xs. f x \<le> m \<Longrightarrow> sum_list (map f xs) div length xs \<le> (m :: nat)"
proof (cases "xs = []")
  case False
  assume "\<forall>x \<in> set xs. f x \<le> m"
  then have "sum_list (map f xs) \<le> length xs * m" by (induction xs) auto
  then have "sum_list (map f xs) div length xs \<le> length xs * m div length xs" by (rule div_le_mono)
  also have "\<dots> = m" using False by simp
  finally show ?thesis .
qed simp

text \<open>The initial level is at most two thirds of the maximal output.\<close>

lemma get_initial_level_le:
  assumes "startup_wf s"
  shows "3 * unat (get_initial_level s) \<le> 2 * unat (sc_output_max (st_config s))"
proof -
  let ?xs = "filter (\<lambda>i. i > 0) (prev_start_output s)" and ?m = "sc_output_max (st_config s)"
  define q where "q = sum_list (map unat ?xs) div length ?xs"
  have "q \<le> unat ?m"
    unfolding q_def using assms by (intro sum_list_div_le) (auto simp: startup_wf_def word_le_nat_alt)
  then have n: "3 * (q * 2 div 3) \<le> 2 * unat ?m" by linarith
  then have "q * 2 div 3 < 2 ^ 16" using unat_u16_le [of ?m] by (simp add: less_eq_div_iff_mult_less_eq)
  then have "unat (of_nat (q * 2 div 3) :: u16) = q * 2 div 3" by (simp add: unat_of_nat)
  then show ?thesis using n unfolding get_initial_level_sum Let_def q_def by simp
qed

lemma get_initial_level_bound: "startup_wf s \<Longrightarrow> get_initial_level s \<le> sc_output_max (st_config s)"
  using get_initial_level_le [of s] by (simp add: word_le_nat_alt)

text \<open>The addition cannot overflow as long as \<^verbatim>\<open>output_max\<close> leaves room for one more step.\<close>

definition ramp_room :: "u16 \<Rightarrow> bool" where
  "ramp_room m \<longleftrightarrow> unat m + unat m div 250 < 65536"

lemma ramp_room_iff: "ramp_room m \<longleftrightarrow> unat m \<le> 65274"
proof -
  have "unat m + unat m div 250 < 65536 \<longleftrightarrow> unat m \<le> 65274" for m :: u16
    by linarith
  then show ?thesis by (simp add: ramp_room_def)
qed

lemma ramp_add:
  assumes "ramp_room m" "out \<le> m"
  shows "word_add p out (m div 250) = Ok (out + m div 250)" and "unat (out + m div 250) = unat out + unat m div 250"
proof -
  have "unat out \<le> unat m" using assms(2) by (simp add: word_le_nat_alt)
  moreover have q: "unat (m div 250) = unat m div 250" using unat_div [of m 250] by simp
  ultimately have "unat out + unat (m div 250) < 2 ^ 16"
    using assms(1) by (simp add: ramp_room_def)
  then show "word_add p out (m div 250) = Ok (out + m div 250)"
    "unat (out + m div 250) = unat out + unat m div 250"
    using unat_u16_le [of m] by (simp_all add: word_add_ok unat_word_ariths q)
qed

lemma startup_compute_keeps:
  assumes "startup_wf s" "ramp_room (sc_output_max (st_config s))" "startup_compute p m s = (s', r)"
  shows "startup_wf s'" "st_config s' = st_config s" "\<exists>c. r = Ok c"
    "r = Ok (Output out) \<Longrightarrow> out \<le> sc_output_max (st_config s)"
proof -
  define t where "t = (if st_output s = 0 then s\<lparr>st_output := get_initial_level s\<rparr> else s)"
  have t: "startup_wf t" "st_config t = st_config s"
    using assms(1) get_initial_level_bound [OF assms(1)] by (simp_all add: t_def startup_wf_def)
  have half: "get_initial_level u div 2 \<le> sc_output_max (st_config s)" if "startup_wf u" "st_config u = st_config s" for u
    using get_initial_level_le [OF that(1)] that(2) by (simp add: word_le_nat_alt unat_div) 
  have lvl: "get_initial_level (t\<lparr>st_output := o'\<rparr>) = get_initial_level t" for o'
    by (simp add: get_initial_level_def)
  have o_le: "st_output t \<le> sc_output_max (st_config s)" using t by (simp add: startup_wf_def)
  note add = ramp_add [OF assms(2) o_le]
  have "startup_wf s' \<and> st_config s' = st_config s \<and> (\<exists>c. r = Ok c)
    \<and> (r = Ok (Output out) \<longrightarrow> out \<le> sc_output_max (st_config s))"
  proof (cases "m < CONTROLLER_HANDOVER")
    case True
    then have "startup_compute p m s = (let u = t\<lparr>st_output := st_output t + sc_output_max (st_config s) div 250\<rparr>
        in (if st_output u > sc_output_max (st_config s) then u\<lparr>st_output := get_initial_level t div 2\<rparr> else u,
          Ok (Output (st_output t))))"
      using t(2) by (simp add: startup_compute_def Let_def lvl add(1) flip: t_def)
    then show ?thesis
      using assms(3) t o_le half [OF t] by (auto simp: startup_wf_def Let_def split: if_splits)
  next
    case False
    have "startup_compute p m s = (t\<lparr>prev_start_output := (prev_start_output t)[buf_write_idx t := st_output t],
        buf_write_idx := (buf_write_idx t + 1) mod 16, st_output := 0\<rparr>,
        Ok (Handover (f_mul (sc_pid_ff (st_config s)) (f_of_nat (unat (st_output t))))))"
      using False t by (simp add: startup_compute_def Let_def startup_wf_def flip: t_def)
    then show ?thesis
      using assms(3) t o_le by (auto simp: startup_wf_def dest!: set_update_subset_insert [THEN subsetD])
  qed
  then show "startup_wf s'" "st_config s' = st_config s" "\<exists>c. r = Ok c"
    "r = Ok (Output out) \<Longrightarrow> out \<le> sc_output_max (st_config s)" by blast+
qed

section \<open>A motor that does not start\<close>

text \<open>The level the next computation applies.\<close>

definition next_level :: "startup \<Rightarrow> u16" where
  "next_level s = (if st_output s = 0 then get_initial_level s else st_output s)"

lemma next_level_le: "startup_wf s \<Longrightarrow> next_level s \<le> sc_output_max (st_config s)"
  using get_initial_level_bound [of s] by (simp add: next_level_def startup_wf_def)

lemma startup_compute_stalled:
  assumes "startup_wf s" "ramp_room (sc_output_max (st_config s))" "m < CONTROLLER_HANDOVER"
  obtains s' where "startup_compute p m s = (s', Ok (Output (next_level s)))"
    "startup_wf s'" "st_config s' = st_config s"
    "unat (next_level s) + unat (sc_output_max (st_config s)) div 250 \<le> unat (sc_output_max (st_config s))
      \<Longrightarrow> 0 < unat (sc_output_max (st_config s)) div 250
      \<Longrightarrow> unat (next_level s') = unat (next_level s) + unat (sc_output_max (st_config s)) div 250"
proof -
  let ?m = "sc_output_max (st_config s)"
  define t where "t = (if st_output s = 0 then s\<lparr>st_output := get_initial_level s\<rparr> else s)"
  have t: "st_config t = st_config s" "st_output t = next_level s"
    by (simp_all add: t_def next_level_def)
  note add = ramp_add [OF assms(2) next_level_le [OF assms(1)]]
  obtain s' where s': "startup_compute p m s = (s', Ok (Output (next_level s)))"
    and out: "\<not> ?m < next_level s + ?m div 250 \<Longrightarrow> st_output s' = next_level s + ?m div 250"
    using assms(3) t by (simp add: startup_compute_def Let_def add(1) flip: t_def)
  have up: "unat (next_level s') = unat (next_level s) + unat ?m div 250"
    if "unat (next_level s) + unat ?m div 250 \<le> unat ?m" "0 < unat ?m div 250"
  proof -
    have "\<not> ?m < next_level s + ?m div 250"
      using that(1) add(2) by (simp only: word_less_nat_alt)
    from out [OF this] have "unat (st_output s') = unat (next_level s) + unat ?m div 250" using add(2) by simp
    moreover from this that(2) have "st_output s' \<noteq> 0" by auto
    ultimately show ?thesis by (simp add: next_level_def)
  qed
  show thesis
    by (rule that [OF s' startup_compute_keeps(1,2) [OF assms(1,2) s'] up])
qed

lemma startup_stalled_outputs:
  assumes "startup_wf s" "ramp_room (sc_output_max (st_config s))" "\<forall>m \<in> set ms. m < CONTROLLER_HANDOVER"
  shows "\<exists>s' outs. startup_stalled p ms s = (s', Ok outs) \<and> startup_wf s' \<and> length outs = length ms
    \<and> (\<forall>out \<in> set outs. out \<le> sc_output_max (st_config s))
    \<and> (unat (sc_output_max (st_config s)) < unat (next_level s) + length ms * (unat (sc_output_max (st_config s)) div 250)
       \<longrightarrow> 0 < unat (sc_output_max (st_config s)) div 250 \<longrightarrow> ms \<noteq> [] \<longrightarrow>
         (\<exists>out \<in> set outs. unat (sc_output_max (st_config s)) < unat out + unat (sc_output_max (st_config s)) div 250))"
  using assms
proof (induction ms arbitrary: s)
  case (Cons m ms)
  let ?om = "unat (sc_output_max (st_config s))"
  obtain s1 where s1: "startup_compute p m s = (s1, Ok (Output (next_level s)))" "startup_wf s1"
    "st_config s1 = st_config s"
    and up: "unat (next_level s) + ?om div 250 \<le> ?om \<Longrightarrow> 0 < ?om div 250
      \<Longrightarrow> unat (next_level s1) = unat (next_level s) + ?om div 250"
    using startup_compute_stalled [OF Cons.prems(1,2), of m p] Cons.prems(3) by auto
  obtain s' outs where r: "startup_stalled p ms s1 = (s', Ok outs)" "startup_wf s'" "length outs = length ms"
    "\<forall>out \<in> set outs. out \<le> sc_output_max (st_config s)"
    and live: "?om < unat (next_level s1) + length ms * (?om div 250) \<Longrightarrow> 0 < ?om div 250 \<Longrightarrow> ms \<noteq> []
      \<Longrightarrow> \<exists>out \<in> set outs. ?om < unat out + ?om div 250"
    using Cons.IH [of s1] s1 Cons.prems by auto
  have "\<exists>out \<in> set (next_level s # outs). ?om < unat out + ?om div 250"
    if "?om < unat (next_level s) + length (m # ms) * (?om div 250)" "0 < ?om div 250"
  proof (cases "?om < unat (next_level s) + ?om div 250")
    case False
    then have n: "unat (next_level s1) = unat (next_level s) + ?om div 250" using up that(2) by simp
    then have "?om < unat (next_level s1) + length ms * (?om div 250)" using that(1) by (simp add: algebra_simps)
    moreover from this False n have "ms \<noteq> []" by auto
    ultimately show ?thesis using live that(2) by auto
  qed auto
  then show ?case
    using s1 r next_level_le [OF Cons.prems(1)] by (intro exI [of _ s'] exI [of _ "next_level s # outs"]) auto
qed simp

text \<open>C31: the startup ramp is safe and reaches full power. As long as the motor stands still, no
  computation panics or leaves the output range, and within 500 computations an output within one
  step (1/250) of the maximal output is applied, whatever was learnt from earlier starts.\<close>

theorem startup_ramp:
  assumes "startup_wf s" "ramp_room (sc_output_max (st_config s))" "\<forall>m \<in> set ms. m < CONTROLLER_HANDOVER"
    "500 \<le> length ms" "250 \<le> unat (sc_output_max (st_config s))"
  shows "\<exists>s' outs. startup_stalled p ms s = (s', Ok outs) \<and> length outs = length ms
    \<and> (\<forall>out \<in> set outs. out \<le> sc_output_max (st_config s))
    \<and> (\<exists>out \<in> set outs. unat (sc_output_max (st_config s)) < unat out + unat (sc_output_max (st_config s)) div 250)"
proof -
  let ?om = "unat (sc_output_max (st_config s))"
  have q: "1 \<le> ?om div 250" using assms(5) by (simp add: less_eq_div_iff_mult_less_eq)
  have "?om = 250 * (?om div 250) + ?om mod 250" "?om mod 250 < 250" by simp_all
  then have "?om < 500 * (?om div 250)" using q by linarith
  also have "\<dots> \<le> length ms * (?om div 250)" using assms(4) by (rule mult_right_mono) simp
  finally have "?om < unat (next_level s) + length ms * (?om div 250)" by simp
  moreover have "0 < ?om div 250" "ms \<noteq> []" using assms(4,5) by auto
  ultimately show ?thesis using startup_stalled_outputs [OF assms(1-3), of p] by blast
qed

lemma startup_ramp_witness:
  "\<exists>s' outs. startup_stalled Dev (replicate 500 0) (startup_new \<lparr>sc_output_max = 5000, sc_pid_ff = 1\<rparr>) = (s', Ok outs)
    \<and> (\<exists>out \<in> set outs. 4980 < unat out)"
  using startup_ramp [of "startup_new \<lparr>sc_output_max = 5000, sc_pid_ff = 1\<rparr>" "replicate 500 0" Dev]
    startup_new_wf [of "\<lparr>sc_output_max = 5000, sc_pid_ff = 1\<rparr>"]
  by (auto simp: startup_new_def ramp_room_def CONTROLLER_HANDOVER_def)

end
