(* ===== verification/Speed_Control.thy ===== *)
theory Speed_Control
  imports Pid Startup
begin

text \<open>
  The unified speed controller (\<^verbatim>\<open>motor/src/speed/mod.rs\<close>): the startup controller until the
  motor turns, the PID controller from then on, until the set point is 0 or the controller is
  reset. \<^verbatim>\<open>ITERATION_COUNT\<close> only thins out the trace output and is left out.
\<close>

section \<open>State and operations\<close>

record speed_config =
  spc_pid :: pid_config
  spc_startup :: startup_config
  spc_adc_offset :: f32

datatype mode = Startup | Pid f32

record 'p speed_controller =
  spd_config :: speed_config
  spd_mode :: mode
  spd_pid :: "'p pid_controller"
  spd_startup :: startup

datatype 'e speed_error = PidError "'e pid_error"

definition speed_new :: "('e, 'c, 'p) pid_lib \<Rightarrow> speed_config \<Rightarrow> ('e speed_error, 'p speed_controller) res" where
  "speed_new lib config =
     res_bind (map_err PidError (pid_new lib (spc_pid config))) (\<lambda>pid.
       Ok \<lparr>spd_config = config, spd_mode = Startup, spd_pid = pid, spd_startup = startup_new (spc_startup config)\<rparr>)"

definition speed_reset :: "('e, 'c, 'p) pid_lib \<Rightarrow> 'p speed_controller \<Rightarrow> 'p speed_controller" where
  "speed_reset lib c =
     c\<lparr>spd_startup := startup_reset (spd_startup c), spd_pid := pid_reset lib (spd_pid c), spd_mode := Startup\<rparr>"

definition speed_compute ::
  "profile \<Rightarrow> ('e, 'c, 'p) pid_lib \<Rightarrow> f32 \<Rightarrow> u32 \<Rightarrow> u64 \<Rightarrow> 'p speed_controller
   \<Rightarrow> 'p speed_controller \<times> ('e speed_error, u16 option) res" where
  "speed_compute p lib measurement setpoint timestamp_ms c =
     (if setpoint = 0 then (speed_reset lib c, Ok (Some 0))
      else
        let measurement = max (f_sub measurement (spc_adc_offset (spd_config c))) 0 in
        case spd_mode c of
          Startup \<Rightarrow>
            (case startup_compute p measurement (spd_startup c) of
               (st, Ok (Output out)) \<Rightarrow> (c\<lparr>spd_startup := st\<rparr>, Ok (Some out))
             | (st, Ok (Handover ff)) \<Rightarrow> (c\<lparr>spd_startup := st, spd_mode := Pid ff\<rparr>, Ok None)
             | (st, Err e) \<Rightarrow> (c\<lparr>spd_startup := st\<rparr>, Panic)
             | (st, Panic) \<Rightarrow> (c\<lparr>spd_startup := st\<rparr>, Panic))
        | Pid ff \<Rightarrow>
            (case pid_compute lib measurement (f_of_nat (unat setpoint)) timestamp_ms ff (spd_pid c) of
               (pid, r) \<Rightarrow> st_bind (c\<lparr>spd_pid := pid\<rparr>, map_err PidError r) (\<lambda>c out. (c, Ok (Some out)))))"

section \<open>Invariant\<close>

text \<open>Both controllers are well formed and limited to the same maximal output.\<close>

definition speed_wf :: "('p \<Rightarrow> f32 \<times> f32) \<Rightarrow> u16 \<Rightarrow> 'p speed_controller \<Rightarrow> bool" where
  "speed_wf plim m c \<longleftrightarrow> startup_wf (spd_startup c) \<and> sc_output_max (st_config (spd_startup c)) = m
     \<and> pid_wf plim (spd_pid c) \<and> pc_output_max (pid_params (spd_pid c)) = m \<and> ramp_room m"

lemma speed_new_wf:
  assumes "pid_lib_limits lib clim plim" "speed_new lib cfg = Ok c" "0 \<le> pc_max_setpoint (spc_pid cfg)"
    "pc_output_max (spc_pid cfg) = m" "sc_output_max (spc_startup cfg) = m" "ramp_room m"
  shows "speed_wf plim m c"
  using assms pid_new_wf [OF assms(1) _ assms(3)] startup_new_wf [of "spc_startup cfg"]
  by (auto simp: speed_new_def speed_wf_def) (auto simp: startup_new_def)

lemma speed_reset_wf:
  "pid_lib_limits lib clim plim \<Longrightarrow> speed_wf plim m c \<Longrightarrow> speed_wf plim m (speed_reset lib c)"
  using pid_reset_wf [of lib clim plim "spd_pid c"] startup_reset_wf [of "spd_startup c"]
  by (simp add: speed_wf_def speed_reset_def pid_reset_def startup_reset_def)

lemma speed_compute_wf:
  fixes lib :: "('e, 'c, 'p) pid_lib"
  assumes "pid_lib_limits lib clim plim" "speed_wf plim m c" "speed_compute p lib meas sp t c = (c', r)"
  shows "speed_wf plim m c' \<and> r \<noteq> Panic \<and> (\<forall>out. r = Ok (Some out) \<longrightarrow> out \<le> m)"
proof (cases "sp = 0")
  case True
  then show ?thesis using assms(3) speed_reset_wf [OF assms(1,2)] by (auto simp: speed_compute_def)
next
  case False
  let ?m = "max (f_sub meas (spc_adc_offset (spd_config c))) 0"
  note wf = assms(2) [unfolded speed_wf_def]
  show ?thesis
  proof (cases "spd_mode c")
    case Startup
    obtain st rr where s: "startup_compute p ?m (spd_startup c) = (st, rr)" by fastforce
    note k = startup_compute_keeps [OF _ _ s]
    obtain x where x: "rr = Ok x" using k(3) wf by auto
    show ?thesis
      using assms(3) False Startup wf s x k(1,2,4) by (cases x) (auto simp: speed_compute_def speed_wf_def)
  next
    case (Pid ff)
    obtain pid rr where s: "pid_compute lib ?m (f_of_nat (unat sp)) t ff (spd_pid c) = (pid, rr)" by fastforce
    note k = pid_compute_limits [OF assms(1) _ s]
    show ?thesis
      using assms(3) False Pid wf s k by (cases rr) (auto simp: speed_compute_def speed_wf_def)
  qed
qed

text \<open>A run of the controller: resets and computations with arbitrary measurements, set points and
  clock readings, collecting what the computations return.\<close>

datatype speed_call = Reset | Compute f32 u32 u64

fun speed_run ::
  "profile \<Rightarrow> ('e, 'c, 'p) pid_lib \<Rightarrow> speed_call list \<Rightarrow> 'p speed_controller
   \<Rightarrow> 'p speed_controller \<times> ('e speed_error, u16 option) res list" where
  "speed_run p lib [] c = (c, [])"
| "speed_run p lib (Reset # cs) c = speed_run p lib cs (speed_reset lib c)"
| "speed_run p lib (Compute meas sp t # cs) c =
     (let (c, r) = speed_compute p lib meas sp t c; (c, rs) = speed_run p lib cs c in (c, r # rs))"

lemma speed_run_wf:
  assumes "pid_lib_limits lib clim plim" "speed_wf plim m c" "speed_run p lib cs c = (c', rs)"
  shows "speed_wf plim m c' \<and> Panic \<notin> set rs \<and> (\<forall>out. Ok (Some out) \<in> set rs \<longrightarrow> out \<le> m)"
  using assms(2,3)
proof (induction cs arbitrary: c c' rs)
  case (Cons x cs)
  show ?case
  proof (cases x)
    case Reset
    then show ?thesis using Cons speed_reset_wf [OF assms(1) Cons.prems(1)] by simp
  next
    case (Compute meas sp t)
    obtain c1 r where r: "speed_compute p lib meas sp t c = (c1, r)" by fastforce
    obtain c2 rs' where rs: "speed_run p lib cs c1 = (c2, rs')" by fastforce
    note k = speed_compute_wf [OF assms(1) Cons.prems(1) r]
    show ?thesis using Cons.IH [of c1 c2 rs'] Cons.prems(2) k r rs Compute by auto
  qed
qed simp

section \<open>Properties\<close>

text \<open>C25: the motor output never exceeds \<^verbatim>\<open>output_max\<close>. From the construction of the controller on,
  through every sequence of resets and computations with arbitrary measurements, set points and
  times, no computation panics and no PWM level above the configured maximum is returned, provided
  the maximum leaves room for one ramp step and the PID crate respects its output limits.\<close>

theorem speed_output_bounded:
  assumes "pid_lib_limits lib clim plim" "speed_new lib cfg = Ok c" "0 \<le> pc_max_setpoint (spc_pid cfg)"
    "pc_output_max (spc_pid cfg) = m" "sc_output_max (spc_startup cfg) = m" "ramp_room m"
    "speed_run p lib cs c = (c', rs)"
  shows "Panic \<notin> set rs \<and> (\<forall>out. Ok (Some out) \<in> set rs \<longrightarrow> out \<le> m)"
  using speed_run_wf [OF assms(1) speed_new_wf [OF assms(1-6)] assms(7)] by blast

lemma p_lib_limits: "pid_lib_limits p_lib (\<lambda>(k, lo, hi). (lo, max lo hi)) (\<lambda>(k, lo, hi). (lo, max lo hi))"
  by (auto simp: pid_lib_limits_def p_lib_def max_def min_def split: if_splits)

definition sample_speed_config :: speed_config where
  "sample_speed_config = \<lparr>spc_pid = sample_pid_config, spc_startup = \<lparr>sc_output_max = 5000, sc_pid_ff = 1 / 2\<rparr>, spc_adc_offset = 0\<rparr>"

lemma speed_output_bounded_witness:
  "\<exists>c. speed_new p_lib sample_speed_config = Ok c
    \<and> Panic \<notin> set (snd (speed_run Dev p_lib [Compute 0 100 0, Compute 20 100 5, Compute 20 100 10, Reset] c))"
proof -
  obtain c where c: "speed_new p_lib sample_speed_config = Ok c"
    using sample_pid_new by (auto simp: speed_new_def sample_speed_config_def)
  have "0 \<le> pc_max_setpoint (spc_pid sample_speed_config)" "pc_output_max (spc_pid sample_speed_config) = 5000"
    "sc_output_max (spc_startup sample_speed_config) = 5000" "ramp_room 5000"
    by (simp_all add: sample_speed_config_def sample_pid_config_def ramp_room_def)
  from speed_output_bounded [OF p_lib_limits c this prod.collapse [symmetric]] c show ?thesis by blast
qed

text \<open>C27: handover from the startup ramp to the PID controller. With a set point other than 0 the
  controller leaves the startup mode exactly when the measurement, corrected for the ADC offset,
  reaches 7.5; it then returns no output for this round, remembers the level for later starts and
  uses it, scaled, as the feed-forward term of the PID mode, which it keeps until it is reset or
  the set point becomes 0.\<close>

theorem speed_handover:
  fixes lib :: "('e, 'c, 'p) pid_lib"
  assumes "speed_wf plim m c" "pid_lib_limits lib clim plim" "sp \<noteq> 0" "speed_compute p lib meas sp t c = (c', r)"
  defines "corrected \<equiv> max (f_sub meas (spc_adc_offset (spd_config c))) 0"
  shows "case spd_mode c of
      Pid ff \<Rightarrow> spd_mode c' = Pid ff
    | Startup \<Rightarrow>
        if corrected < 15 / 2 then spd_mode c' = Startup \<and> r = Ok (Some (next_level (spd_startup c)))
        else spd_mode c' = Pid (f_mul (sc_pid_ff (st_config (spd_startup c))) (of_nat (unat (next_level (spd_startup c)))))
          \<and> r = Ok None
          \<and> prev_start_output (spd_startup c') = (prev_start_output (spd_startup c))[buf_write_idx (spd_startup c) := next_level (spd_startup c)]"
proof (cases "spd_mode c")
  case Startup
  note wf = assms(1) [unfolded speed_wf_def]
  let ?s = "spd_startup c"
  show ?thesis
  proof (cases "corrected < 15 / 2")
    case True
    then obtain s' where "startup_compute p corrected ?s = (s', Ok (Output (next_level ?s)))"
      using startup_compute_stalled [of ?s corrected p] wf by (auto simp: CONTROLLER_HANDOVER_def)
    then show ?thesis using assms(3,4) Startup True by (auto simp: speed_compute_def corrected_def)
  next
    case False
    have "\<exists>s'. startup_compute p corrected ?s = (s', Ok (Handover (f_mul (sc_pid_ff (st_config ?s)) (of_nat (unat (next_level ?s))))))
      \<and> prev_start_output s' = (prev_start_output ?s)[buf_write_idx ?s := next_level ?s]"
      using wf False
      by (auto simp: startup_compute_def CONTROLLER_HANDOVER_def next_level_def startup_wf_def Let_def)
    then show ?thesis using assms(3,4) Startup False by (auto simp: speed_compute_def corrected_def)
  qed
next
  case (Pid ff)
  obtain pid rr where "pid_compute lib corrected (f_of_nat (unat sp)) t ff (spd_pid c) = (pid, rr)" by fastforce
  then show ?thesis
    using assms(3,4) Pid by (cases rr) (auto simp: speed_compute_def corrected_def)
qed

lemma speed_handover_witness:
  "\<exists>c. speed_new p_lib sample_speed_config = Ok c \<and> (\<exists>ff. spd_mode (fst (speed_compute Dev p_lib 20 100 5 c)) = Pid ff)"
proof -
  obtain c where c: "speed_new p_lib sample_speed_config = Ok c"
    using sample_pid_new by (auto simp: speed_new_def sample_speed_config_def)
  have wf: "speed_wf (\<lambda>(k, lo, hi). (lo, max lo hi)) 5000 c"
    by (rule speed_new_wf [OF p_lib_limits c])
      (simp_all add: sample_speed_config_def sample_pid_config_def ramp_room_def)
  have m: "spd_mode c = Startup" "spc_adc_offset (spd_config c) = 0"
    using c by (auto simp: speed_new_def sample_speed_config_def)
  have "rnd 20 = (20 :: rat)" using rnd_of_int [of 20] by simp
  moreover obtain c' r where r: "speed_compute Dev p_lib 20 100 5 c = (c', r)" by fastforce
  ultimately show ?thesis
    using speed_handover [OF wf p_lib_limits _ r] c m by (auto simp: f_sub_def)
qed

end
