(* ===== verification/Filtered_Mean.thy ===== *)
theory Filtered_Mean
  imports F32
begin

text \<open>
  The outlier filter of the ADC calibration (\<^verbatim>\<open>math/src/lib.rs\<close>). It computes in double
  precision; \<^verbatim>\<open>sqrtf\<close> and \<^verbatim>\<open>round\<close> come from the \<^verbatim>\<open>libm\<close> crate and are parameters.
\<close>

section \<open>The filter\<close>

definition abs_diff :: "u16 \<Rightarrow> u16 \<Rightarrow> nat" where
  "abs_diff a b = (if unat a < unat b then unat b - unat a else unat a - unat b)"

definition filtered_mean ::
  "(f32 \<Rightarrow> f32) \<Rightarrow> (f64 \<Rightarrow> f64) \<Rightarrow> u16 list \<Rightarrow> u16 \<Rightarrow> u16 option" where
  "filtered_mean sqrtf round64 data std_deviations =
     (if data = [] then None
      else
        let mean = of_nat (sum_list (map unat data) div length data) :: u16 in
        if length data = 1 then Some mean
        else
          let var_sum = sum_list (map (\<lambda>e. nat ((uint e - uint mean) ^ 2)) data);
              variance = rnd (rnd64 (rnd64 (of_nat var_sum) / rnd64 (rnd64 (of_nat (length data)) - 1)));
              std_dev = sqrtf variance;
              threshold = rnd64 (of_nat (unat std_deviations) * std_dev);
              (sum, cnt) = foldl (\<lambda>(sum, cnt) e.
                  if of_nat (abs_diff e mean) \<le> threshold then (sum + unat e, cnt + 1) else (sum, cnt))
                (0 :: nat, 0 :: usize) data
          in if cnt = 0 then None
             else Some (f_to_u16 (round64 (rnd64 (rnd64 (of_nat sum) / rnd64 (of_nat cnt))))))"

section \<open>The result lies within the data\<close>

text \<open>What is needed of \<^verbatim>\<open>libm::round\<close>: the nearest integer.\<close>

definition rounds_to_nearest :: "(f64 \<Rightarrow> f64) \<Rightarrow> bool" where
  "rounds_to_nearest f \<longleftrightarrow> (\<forall>x. \<exists>n. f x = of_int n \<and> \<bar>f x - x\<bar> \<le> 1 / 2)"

lemma foldl_filter_sum:
  "foldl (\<lambda>(sum, cnt) e. if P e then (sum + unat e, cnt + 1) else (sum, cnt)) (a, c) xs
   = (a + sum_list (map unat (filter P xs)), c + length (filter P xs))" for xs :: "u16 list"
  by (induction xs arbitrary: a c) auto

lemma sum_list_between:
  assumes "\<forall>x \<in> set xs. lo \<le> f x \<and> f x \<le> (hi :: nat)"
  shows "lo * length xs \<le> sum_list (map f xs)" and "sum_list (map f xs) \<le> hi * length xs"
  using assms by (induction xs) auto

lemma round64_between:
  assumes "rounds_to_nearest f" "of_int a \<le> x" "x \<le> of_int b"
  shows "of_int a \<le> f x \<and> f x \<le> of_int b"
proof -
  obtain n where n: "f x = of_int n" "\<bar>f x - x\<bar> \<le> 1 / 2"
    using assms(1) unfolding rounds_to_nearest_def by blast
  have "(of_int a :: rat) - 1 < of_int n" "(of_int n :: rat) < of_int b + 1"
    using n assms(2,3) unfolding abs_le_iff by linarith+
  then have "a - 1 < n" "n < b + 1" by linarith+
  then show ?thesis using n(1) by simp
qed

lemma f_to_u16_between:
  assumes "of_nat lo \<le> x" "x \<le> of_nat hi" "hi \<le> 65535"
  shows "lo \<le> unat (f_to_u16 x) \<and> unat (f_to_u16 x) \<le> hi"
proof -
  have hi: "(of_nat hi :: rat) \<le> 65535" using assms(3) by simp
  have fl: "int lo \<le> \<lfloor>x\<rfloor>" "\<lfloor>x\<rfloor> \<le> int hi"
    using assms(1,2) by (simp_all add: le_floor_iff floor_le_iff)
  consider "x \<le> 0" | "65535 \<le> x" | "0 < x" "x < 65535" by linarith
  then show ?thesis
  proof cases
    case 1
    then have "lo = 0" using assms(1) by (metis of_nat_le_0_iff order_trans of_nat_0)
    then show ?thesis using 1 by (simp add: f_to_u16_def)
  next
    case 2
    then have "(65535 :: rat) \<le> of_nat hi" using assms(2) by linarith
    then have "65535 \<le> hi" by simp
    moreover have "lo \<le> hi" using assms(1,2) by (metis of_nat_le_iff order_trans)
    ultimately show ?thesis using 2 assms(3) by (simp add: f_to_u16_def)
  next
    case 3
    have "0 \<le> \<lfloor>x\<rfloor>" "\<lfloor>x\<rfloor> < 65536" using 3 by linarith+
    then have "unat (of_int \<lfloor>x\<rfloor> :: u16) = nat \<lfloor>x\<rfloor>" by (simp only: unat_eq_nat_uint) (simp add: uint_word_of_int)
    then show ?thesis using 3 fl by (simp add: f_to_u16_def nat_le_iff le_nat_iff)
  qed
qed


definition half_up :: "f64 \<Rightarrow> f64" where
  "half_up x = of_int \<lfloor>x + 1 / 2\<rfloor>"

lemma half_up_rounds: "rounds_to_nearest half_up"
  unfolding rounds_to_nearest_def half_up_def
proof
  fix x :: rat
  have "of_int \<lfloor>x + 1 / 2\<rfloor> \<le> x + 1 / 2" "x + 1 / 2 < of_int \<lfloor>x + 1 / 2\<rfloor> + 1" by linarith+
  then have "\<bar>of_int \<lfloor>x + 1 / 2\<rfloor> - x\<bar> \<le> 1 / 2" unfolding abs_le_iff by linarith
  then show "\<exists>n. of_int \<lfloor>x + 1 / 2\<rfloor> = (of_int n :: rat) \<and> \<bar>of_int \<lfloor>x + 1 / 2\<rfloor> - x\<bar> \<le> 1 / 2" by blast
qed


end
