(* ===== verification/Motor_Driver.thy ===== *)
theory Motor_Driver
  imports Motor_Types Filtered_Mean "HOL-Library.Multiset"
begin

text \<open>
  The motor driver (\<^verbatim>\<open>application/src/motor/mod.rs\<close>): an H-bridge driven by two PWM channels, one
  per direction, and the ADC that measures the back EMF. The embassy drivers of the PWM channels
  and of the ADC are parameters.
\<close>

section \<open>The hardware drivers\<close>

record ('w, 'pe, 'ae) motor_hw =
  hw_pwm_init :: "u16 \<Rightarrow> u16 \<Rightarrow> u16 \<Rightarrow> u16 \<Rightarrow> 'w \<Rightarrow> 'w"
  hw_set_duty :: "direction \<Rightarrow> u16 \<Rightarrow> 'w \<Rightarrow> 'w \<times> ('pe, unit) res"
  hw_set_percent :: "direction \<Rightarrow> u8 \<Rightarrow> 'w \<Rightarrow> 'w \<times> ('pe, unit) res"
  hw_off :: "direction \<Rightarrow> 'w \<Rightarrow> 'w \<times> ('pe, unit) res"
  hw_read_many :: "direction \<Rightarrow> usize \<Rightarrow> 'w \<Rightarrow> 'w \<times> ('ae, u16 list) res"
  hw_wait :: "duration \<Rightarrow> 'w \<Rightarrow> 'w"

text \<open>What the driver relies on, with \<^term>\<open>duty\<close> the level of each channel: configuring the slice
  (compare values of the channels A and B, top, clock divider) sets both channels, of which A drives
  the reverse and B the forward pin; a successful call sets its own channel and no other, a failing call changes nothing, reading the ADC and waiting do not touch
  the channels, and a read delivers the samples asked for.\<close>

definition motor_hw_ok :: "('w, 'pe, 'ae) motor_hw \<Rightarrow> ('w \<Rightarrow> direction \<Rightarrow> nat) \<Rightarrow> bool" where
  "motor_hw_ok hw duty \<longleftrightarrow>
     (\<forall>a b t v w. duty (hw_pwm_init hw a b t v w) = (\<lambda>d. case d of Forward \<Rightarrow> unat b | Reverse \<Rightarrow> unat a))
   \<and> (\<forall>d v w. let (w', r) = hw_set_duty hw d v w in
        r \<noteq> Panic \<and> (if r = Ok () then duty w' = (duty w)(d := unat v) else duty w' = duty w))
   \<and> (\<forall>d v w. let (w', r) = hw_set_percent hw d v w in
        r \<noteq> Panic \<and> (if r = Ok () then \<exists>n. duty w' = (duty w)(d := n) else duty w' = duty w))
   \<and> (\<forall>d w. let (w', r) = hw_off hw d w in
        r \<noteq> Panic \<and> (if r = Ok () then duty w' = (duty w)(d := 0) else duty w' = duty w))
   \<and> (\<forall>d n w. let (w', r) = hw_read_many hw d n w in
        r \<noteq> Panic \<and> duty w' = duty w \<and> (\<forall>xs. r = Ok xs \<longrightarrow> length xs = n))
   \<and> (\<forall>t w. duty (hw_wait hw t w) = duty w)"

section \<open>State\<close>

definition ADC_CALIBRATION_ITERATIONS :: usize where
  "ADC_CALIBRATION_ITERATIONS = 8192"

definition MAX_EMF_SAMPLES :: usize where
  "MAX_EMF_SAMPLES = 255"

datatype ('pe, 'ae) motor_error = PwmError 'pe | AdcError 'ae

text \<open>The clock divider is a \<^verbatim>\<open>FixedU16<U4>\<close>, given by its bits.\<close>

record motor_config =
  pwm_max_output :: u16
  pwm_clk_divider :: u16
  emf_measurement_delay :: duration
  emf_samples :: u8
  emf_l_cutoff :: u8
  emf_r_cutoff :: u8

record 'w motor =
  mc_config :: motor_config
  mc_dir :: direction
  mc_ack_dir :: direction
  mc_emf_buf :: "u16 list"
  mc_world :: 'w

definition motor_new :: "('w, 'pe, 'ae) motor_hw \<Rightarrow> motor_config \<Rightarrow> 'w \<Rightarrow> 'w motor" where
  "motor_new hw c w = \<lparr>mc_config = c, mc_dir = Forward, mc_ack_dir = Forward,
     mc_emf_buf = replicate MAX_EMF_SAMPLES 0,
     mc_world = hw_pwm_init hw 0 0 (pwm_max_output c) (pwm_clk_divider c) w\<rparr>"

section \<open>One direction\<close>

definition in_world ::
  "('x \<Rightarrow> 'e) \<Rightarrow> ('w \<Rightarrow> 'w \<times> ('x, 'a) res) \<Rightarrow> 'w motor \<Rightarrow> 'w motor \<times> ('e, 'a) res" where
  "in_world err f m = (let (w, r) = f (mc_world m) in (m\<lparr>mc_world := w\<rparr>, map_err err r))"

definition dc_stop :: "('w, 'pe, 'ae) motor_hw \<Rightarrow> direction \<Rightarrow> 'w motor \<Rightarrow> 'w motor \<times> (('pe, 'ae) motor_error, unit) res" where
  "dc_stop hw d = in_world PwmError (hw_off hw d)"

definition dc_set_output ::
  "('w, 'pe, 'ae) motor_hw \<Rightarrow> direction \<Rightarrow> u16 \<Rightarrow> 'w motor \<Rightarrow> 'w motor \<times> (('pe, 'ae) motor_error, unit) res" where
  "dc_set_output hw d duty_cycle = in_world PwmError (hw_set_duty hw d duty_cycle)"

definition dc_set_output_percent ::
  "profile \<Rightarrow> ('w, 'pe, 'ae) motor_hw \<Rightarrow> direction \<Rightarrow> u8 \<Rightarrow> 'w motor \<Rightarrow> 'w motor \<times> (('pe, 'ae) motor_error, unit) res" where
  "dc_set_output_percent p hw d percent m =
     (if p = Dev \<and> \<not> percent \<le> 100 then (m, Panic)
      else in_world PwmError (hw_set_percent hw d (min percent 100)) m)"

definition dc_measure_emf ::
  "('w, 'pe, 'ae) motor_hw \<Rightarrow> direction \<Rightarrow> usize \<Rightarrow> 'w motor \<Rightarrow> 'w motor \<times> (('pe, 'ae) motor_error, u16 list) res" where
  "dc_measure_emf hw d n = in_world AdcError (hw_read_many hw d n)"

section \<open>Operations\<close>

definition motor_stop :: "('w, 'pe, 'ae) motor_hw \<Rightarrow> 'w motor \<Rightarrow> 'w motor \<times> (('pe, 'ae) motor_error, unit) res" where
  "motor_stop hw m = st_bind (dc_stop hw Forward m) (\<lambda>m _. st_bind (dc_stop hw Reverse m) (\<lambda>m _. (m, Ok ())))"

text \<open>The sorted samples without \<^term>\<open>l\<close> from the low and \<^term>\<open>r\<close> from the high end, averaged in
  single precision. The sum of 255 samples fits a \<^verbatim>\<open>u32\<close>.\<close>

definition trimmed_mean :: "usize \<Rightarrow> usize \<Rightarrow> u16 list \<Rightarrow> f32" where
  "trimmed_mean l r buf =
     (let filtered_cnt = length buf - (l + r);
          sum = sum_list (map unat (take filtered_cnt (drop l (sort buf))))
      in f_div (f_of_nat sum) (f_of_nat filtered_cnt))"

definition motor_measure :: "('w, 'pe, 'ae) motor_hw \<Rightarrow> 'w motor \<Rightarrow> 'w motor \<times> (('pe, 'ae) motor_error, f32) res" where
  "motor_measure hw m =
     st_bind (dc_stop hw Forward m) (\<lambda>m _.
     st_bind (dc_stop hw Reverse m) (\<lambda>m _.
       let n = min (max (unat (emf_samples (mc_config m))) 1) MAX_EMF_SAMPLES;
           l = unat (emf_l_cutoff (mc_config m));
           r = unat (emf_r_cutoff (mc_config m));
           (l_cutoff, r_cutoff) = (if l + r < n then (l, r) else (0, 0));
           m = m\<lparr>mc_world := hw_wait hw (emf_measurement_delay (mc_config m)) (mc_world m)\<rparr>
       in st_bind (dc_measure_emf hw (mc_dir m) n m) (\<lambda>m buf.
            (m\<lparr>mc_emf_buf := sort buf @ drop n (mc_emf_buf m)\<rparr>, Ok (trimmed_mean l_cutoff r_cutoff buf)))))"

definition unwrap_default :: "'a \<Rightarrow> 'a option \<Rightarrow> 'a" where
  "unwrap_default d x = (case x of None \<Rightarrow> d | Some v \<Rightarrow> v)"

definition measure_adc_offset ::
  "(f32 \<Rightarrow> f32) \<Rightarrow> (f64 \<Rightarrow> f64) \<Rightarrow> ('w, 'pe, 'ae) motor_hw \<Rightarrow> 'w motor \<Rightarrow> 'w motor \<times> (('pe, 'ae) motor_error, u16) res" where
  "measure_adc_offset sqrtf round64 hw m =
     st_bind (motor_stop hw m) (\<lambda>m _.
     let m = m\<lparr>mc_world := hw_wait hw (from_millis 1000) (mc_world m)\<rparr> in
     st_bind (dc_measure_emf hw Reverse ADC_CALIBRATION_ITERATIONS m) (\<lambda>m buf.
     let offset_avg_rev = unwrap_default 0 (filtered_mean sqrtf round64 buf 2);
         m = m\<lparr>mc_world := hw_wait hw (from_millis 1000) (mc_world m)\<rparr> in
     st_bind (dc_measure_emf hw Forward ADC_CALIBRATION_ITERATIONS m) (\<lambda>m buf.
     let offset_avg_fwd = unwrap_default 0 (filtered_mean sqrtf round64 buf 2) in
     (m, Ok (of_nat ((unat offset_avg_fwd + unat offset_avg_rev) div 2))))))"

definition acknowledge_cv ::
  "profile \<Rightarrow> ('w, 'pe, 'ae) motor_hw \<Rightarrow> 'w motor \<Rightarrow> 'w motor \<times> (('pe, 'ae) motor_error, unit) res" where
  "acknowledge_cv p hw m =
     st_bind (motor_stop hw m) (\<lambda>m _.
     let (next_direction, ctrl) = (case mc_ack_dir m of Forward \<Rightarrow> (Reverse, Forward) | Reverse \<Rightarrow> (Forward, Reverse));
         m = m\<lparr>mc_ack_dir := next_direction\<rparr> in
     st_bind (dc_set_output_percent p hw ctrl 50 m) (\<lambda>m _.
     let m = m\<lparr>mc_world := hw_wait hw (from_millis 6) (mc_world m)\<rparr> in
     st_bind (dc_stop hw ctrl m) (\<lambda>m _. (m, Ok ()))))"

definition set_output_level ::
  "('w, 'pe, 'ae) motor_hw \<Rightarrow> u16 \<Rightarrow> direction \<Rightarrow> 'w motor \<Rightarrow> 'w motor \<times> (('pe, 'ae) motor_error, unit) res" where
  "set_output_level hw pwm_level d m =
     (let m = m\<lparr>mc_dir := d\<rparr> in
      case d of
        Forward \<Rightarrow> st_bind (dc_stop hw Reverse m) (\<lambda>m _. st_bind (dc_set_output hw Forward pwm_level m) (\<lambda>m _. (m, Ok ())))
      | Reverse \<Rightarrow> st_bind (dc_stop hw Forward m) (\<lambda>m _. st_bind (dc_set_output hw Reverse pwm_level m) (\<lambda>m _. (m, Ok ()))))"

section \<open>The H-bridge is never driven both ways\<close>

text \<open>The level of a channel, and the invariant: at most one channel is on.\<close>

definition level :: "('w \<Rightarrow> direction \<Rightarrow> nat) \<Rightarrow> direction \<Rightarrow> 'w motor \<Rightarrow> nat" where
  "level duty d m = duty (mc_world m) d"

definition one_way :: "('w \<Rightarrow> direction \<Rightarrow> nat) \<Rightarrow> 'w motor \<Rightarrow> bool" where
  "one_way duty m \<longleftrightarrow> level duty Forward m = 0 \<or> level duty Reverse m = 0"

definition off :: "('w \<Rightarrow> direction \<Rightarrow> nat) \<Rightarrow> direction \<Rightarrow> 'w motor \<Rightarrow> bool" where
  "off duty d m \<longleftrightarrow> level duty d m = 0"

definition opposite :: "direction \<Rightarrow> direction" where
  "opposite d = (case d of Forward \<Rightarrow> Reverse | Reverse \<Rightarrow> Forward)"

lemma opposite_simps [simp]: "opposite Forward = Reverse" "opposite Reverse = Forward"
  by (simp_all add: opposite_def)

lemma off_one_way: "off duty d m \<Longrightarrow> one_way duty m"
  by (cases d) (auto simp: off_def one_way_def)

lemma hw_laws:
  assumes "motor_hw_ok hw duty"
  shows "hw_set_duty hw d v w = (w', r) \<Longrightarrow> r \<noteq> Panic \<and> (if r = Ok () then duty w' = (duty w)(d := unat v) else duty w' = duty w)"
    and "hw_set_percent hw d q w = (w', r) \<Longrightarrow> r \<noteq> Panic \<and> (if r = Ok () then \<exists>n. duty w' = (duty w)(d := n) else duty w' = duty w)"
    and "hw_off hw d w = (w', r) \<Longrightarrow> r \<noteq> Panic \<and> (if r = Ok () then duty w' = (duty w)(d := 0) else duty w' = duty w)"
    and "hw_read_many hw d n w = (w', ra) \<Longrightarrow> ra \<noteq> Panic \<and> duty w' = duty w \<and> (\<forall>xs. ra = Ok xs \<longrightarrow> length xs = n)"
    and "duty (hw_wait hw t w) = duty w"
    and "duty (hw_pwm_init hw a b top_level v w) = (\<lambda>d. case d of Forward \<Rightarrow> unat b | Reverse \<Rightarrow> unat a)"
  using assms unfolding motor_hw_ok_def Let_def by (fastforce split: prod.splits)+

lemma one_way_iff: "one_way duty m \<longleftrightarrow> duty (mc_world m) Forward = 0 \<or> duty (mc_world m) Reverse = 0"
  by (simp add: one_way_def level_def)

lemma post_dc_stop:
  assumes "motor_hw_ok hw duty"
  shows "one_way duty m \<Longrightarrow> post (one_way duty) (dc_stop hw d m)"
    and "off duty e m \<Longrightarrow> post (off duty e) (dc_stop hw d m)"
    and "dc_stop hw d m = (m', Ok u) \<Longrightarrow> off duty d m'"
  using hw_laws(3) [OF assms, of d "mc_world m"]
  by (auto simp: dc_stop_def in_world_def post_def one_way_iff off_def level_def split: prod.splits if_splits)

lemma post_dc_set_output:
  assumes "motor_hw_ok hw duty" "off duty (opposite d) m"
  shows "post (off duty (opposite d)) (dc_set_output hw d v m)"
    and "dc_set_output hw d v m = (m', Ok u) \<Longrightarrow> level duty d m' = unat v"
  using hw_laws(1) [OF assms(1), of d v "mc_world m"] assms(2)
  by (cases d; auto simp: dc_set_output_def in_world_def post_def off_def level_def split: prod.splits if_splits)+

lemma post_dc_set_percent:
  assumes "motor_hw_ok hw duty" "off duty (opposite d) m" "q \<le> 100"
  shows "post (off duty (opposite d)) (dc_set_output_percent p hw d q m)"
  using hw_laws(2) [OF assms(1), of d "min q 100" "mc_world m"] assms(2,3)
  by (cases d; auto simp: dc_set_output_percent_def in_world_def post_def off_def level_def split: prod.splits if_splits)

lemma post_dc_measure:
  assumes "motor_hw_ok hw duty" "Q (duty (mc_world m))"
  shows "post (\<lambda>m. Q (duty (mc_world m))) (dc_measure_emf hw d n m)"
    and "dc_measure_emf hw d n m = (m', Ok xs) \<Longrightarrow> length xs = n"
  using hw_laws(4) [OF assms(1), of d n "mc_world m"] assms(2)
  by (auto simp: dc_measure_emf_def in_world_def post_def split: prod.splits)

lemma off_opposite: "e \<noteq> d \<Longrightarrow> opposite e = d"
  by (cases d; cases e) auto

lemma frame_simps [simp]:
  "one_way duty (m\<lparr>mc_dir := d\<rparr>) = one_way duty m" "one_way duty (m\<lparr>mc_ack_dir := d\<rparr>) = one_way duty m"
  "one_way duty (m\<lparr>mc_emf_buf := b\<rparr>) = one_way duty m"
  "off duty e (m\<lparr>mc_dir := d\<rparr>) = off duty e m" "off duty e (m\<lparr>mc_ack_dir := d\<rparr>) = off duty e m"
  "off duty e (m\<lparr>mc_emf_buf := b\<rparr>) = off duty e m"
  by (simp_all add: one_way_iff off_def level_def)

lemma frame_wait [simp]:
  assumes "motor_hw_ok hw duty"
  shows "one_way duty (m\<lparr>mc_world := hw_wait hw t (mc_world m)\<rparr>) = one_way duty m"
    and "off duty e (m\<lparr>mc_world := hw_wait hw t (mc_world m)\<rparr>) = off duty e m"
  using hw_laws(5) [OF assms] by (simp_all add: one_way_iff off_def level_def)

lemma post_dc_measure_one_way:
  "motor_hw_ok hw duty \<Longrightarrow> one_way duty m \<Longrightarrow> post (one_way duty) (dc_measure_emf hw d n m)"
  using post_dc_measure(1) [of hw duty "\<lambda>f. f Forward = 0 \<or> f Reverse = 0" m d n] by (simp add: one_way_iff [abs_def])

lemma post_motor_stop:
  assumes "motor_hw_ok hw duty"
  shows "one_way duty m \<Longrightarrow> post (one_way duty) (motor_stop hw m)"
    and "motor_stop hw m = (m', Ok u) \<Longrightarrow> off duty d m'"
proof -
  show "post (one_way duty) (motor_stop hw m)" if "one_way duty m"
    unfolding motor_stop_def using that by (auto intro!: post_bind_same post_dc_stop [OF assms])
  show "off duty d m'" if stop: "motor_stop hw m = (m', Ok u)"
  proof -
    obtain m1 where m1: "dc_stop hw Forward m = (m1, Ok ())" "dc_stop hw Reverse m1 = (m', Ok ())"
      using stop by (auto simp: motor_stop_def st_bind_eq_Ok)
    have "off duty Forward m1" using post_dc_stop(3) [OF assms m1(1)] .
    from post_dc_stop(2) [OF assms this, of Reverse] have "off duty Forward m'" by (simp add: m1(2))
    moreover have "off duty Reverse m'" using post_dc_stop(3) [OF assms m1(2)] .
    ultimately show ?thesis by (cases d) auto
  qed
qed

lemma post_motor_measure:
  assumes "motor_hw_ok hw duty" "one_way duty m"
  shows "post (one_way duty) (motor_measure hw m)"
  unfolding motor_measure_def Let_def using assms
  by (auto intro!: post_bind_same [where Q = "one_way duty"] post_dc_stop post_dc_measure_one_way)

lemma post_measure_adc_offset:
  assumes "motor_hw_ok hw duty" "one_way duty m"
  shows "post (one_way duty) (measure_adc_offset sqrtf round64 hw m)"
  unfolding measure_adc_offset_def Let_def using assms
  by (auto intro!: post_bind_same [where Q = "one_way duty"] post_motor_stop post_dc_measure_one_way)

lemma post_acknowledge_cv:
  assumes "motor_hw_ok hw duty" "one_way duty m"
  shows "post (one_way duty) (acknowledge_cv p hw m)"
  unfolding acknowledge_cv_def
proof (rule post_bind_same [OF post_motor_stop(1) [OF assms]])
  fix m1 u assume stop: "motor_stop hw m = (m1, Ok u)" "one_way duty m1"
  define ctrl where "ctrl = mc_ack_dir m1"
  define m2 where "m2 = m1\<lparr>mc_ack_dir := opposite ctrl\<rparr>"
  have o: "off duty (opposite ctrl) m2" using post_motor_stop(2) [OF assms(1) stop(1)] by (simp add: m2_def)
  have "post (one_way duty) (st_bind (dc_set_output_percent p hw ctrl 50 m2) (\<lambda>m _.
     st_bind (dc_stop hw ctrl (m\<lparr>mc_world := hw_wait hw (from_millis 6) (mc_world m)\<rparr>)) (\<lambda>m _. (m, Ok ()))))"
    using post_dc_set_percent [OF assms(1) o, of 50 p]
  proof (rule post_bind)
    fix h u assume "off duty (opposite ctrl) h"
    then have "one_way duty (h\<lparr>mc_world := hw_wait hw (from_millis 6) (mc_world h)\<rparr>)"
      using off_one_way by (simp add: assms(1))
    then show "post (one_way duty) (st_bind (dc_stop hw ctrl (h\<lparr>mc_world := hw_wait hw (from_millis 6) (mc_world h)\<rparr>)) (\<lambda>m _. (m, Ok ())))"
      by (intro post_bind_same [OF post_dc_stop(1) [OF assms(1)]]) simp_all
  qed (simp_all add: off_one_way)
  then show "post (one_way duty) (let (next_direction, ctrl) = (case mc_ack_dir m1 of Forward \<Rightarrow> (Reverse, Forward) | Reverse \<Rightarrow> (Forward, Reverse));
         m = m1\<lparr>mc_ack_dir := next_direction\<rparr> in
     st_bind (dc_set_output_percent p hw ctrl 50 m) (\<lambda>m _.
     let m = m\<lparr>mc_world := hw_wait hw (from_millis 6) (mc_world m)\<rparr> in
     st_bind (dc_stop hw ctrl m) (\<lambda>m _. (m, Ok ()))))"
    by (cases "mc_ack_dir m1") (simp_all add: Let_def ctrl_def m2_def)
qed

lemma post_set_output_level:
  assumes "motor_hw_ok hw duty" "one_way duty m"
  shows "post (one_way duty) (set_output_level hw v d m)"
proof -
  have "post (one_way duty) (st_bind (dc_stop hw (opposite d) (m\<lparr>mc_dir := d\<rparr>)) (\<lambda>m _. st_bind (dc_set_output hw d v m) (\<lambda>m _. (m, Ok ()))))"
  proof (rule post_bind_same)
    show "post (one_way duty) (dc_stop hw (opposite d) (m\<lparr>mc_dir := d\<rparr>))" using assms by (simp add: post_dc_stop)
    fix m1 u assume "dc_stop hw (opposite d) (m\<lparr>mc_dir := d\<rparr>) = (m1, Ok u)"
    then have "off duty (opposite d) m1" by (rule post_dc_stop(3) [OF assms(1)])
    then show "post (one_way duty) (st_bind (dc_set_output hw d v m1) (\<lambda>m _. (m, Ok ())))"
      by (intro post_bind [OF post_dc_set_output(1) [OF assms(1)]]) (auto intro: off_one_way)
  qed
  then show ?thesis by (cases d) (simp_all add: set_output_level_def Let_def)
qed

section \<open>Runs of the driver\<close>

text \<open>Any operation of the driver, with any outcome.\<close>

inductive motor_step ::
  "profile \<Rightarrow> (f32 \<Rightarrow> f32) \<Rightarrow> (f64 \<Rightarrow> f64) \<Rightarrow> ('w, 'pe, 'ae) motor_hw \<Rightarrow> 'w motor \<Rightarrow> 'w motor \<Rightarrow> bool"
  for p sqrtf round64 hw where
  Measure: "motor_measure hw m = (m', r) \<Longrightarrow> motor_step p sqrtf round64 hw m m'"
| Calibrate: "measure_adc_offset sqrtf round64 hw m = (m', r) \<Longrightarrow> motor_step p sqrtf round64 hw m m'"
| Acknowledge: "acknowledge_cv p hw m = (m', r) \<Longrightarrow> motor_step p sqrtf round64 hw m m'"
| Halt: "motor_stop hw m = (m', r) \<Longrightarrow> motor_step p sqrtf round64 hw m m'"
| Drive: "set_output_level hw v d m = (m', r) \<Longrightarrow> motor_step p sqrtf round64 hw m m'"

lemma motor_step_one_way:
  assumes "motor_hw_ok hw duty" "motor_step p sqrtf round64 hw m m'" "one_way duty m"
  shows "one_way duty m'"
  using assms(2,3)
  by cases (blast intro: post_fst post_motor_measure [OF assms(1)] post_measure_adc_offset [OF assms(1)]
      post_acknowledge_cv [OF assms(1)] post_motor_stop(1) [OF assms(1)] post_set_output_level [OF assms(1)])+

text \<open>C23: the H-bridge is never driven in both directions. From the construction of the driver on, after
  any sequence of measurements, calibrations, acknowledgements, stops and level changes, each of which
  may fail half way through with a PWM or ADC error, at most one of the two PWM channels is on.\<close>

theorem never_both_driven:
  assumes "motor_hw_ok hw duty" "(motor_step p sqrtf round64 hw)\<^sup>*\<^sup>* (motor_new hw c w) m"
  shows "duty (mc_world m) Forward = 0 \<or> duty (mc_world m) Reverse = 0"
proof -
  have "one_way duty m"
    using assms(2)
  proof (induction rule: rtranclp_induct)
    case base
    then show ?case using hw_laws(6) [OF assms(1)] by (simp add: one_way_iff motor_new_def)
  next
    case (step m m')
    then show ?case using motor_step_one_way [OF assms(1)] by blast
  qed
  then show ?thesis by (simp add: one_way_iff)
qed

text \<open>Two PWM channels and an ADC that always reads the level of the channel, with calls that fail
  above a maximal duty.\<close>

definition sim_hw :: "nat \<Rightarrow> (direction \<Rightarrow> nat, unit, unit) motor_hw" where
  "sim_hw mx =
     \<lparr>hw_pwm_init = \<lambda>a b t v w d. case d of Forward \<Rightarrow> unat b | Reverse \<Rightarrow> unat a,
      hw_set_duty = \<lambda>d v w. if unat v \<le> mx then (w(d := unat v), Ok ()) else (w, Err ()),
      hw_set_percent = \<lambda>d q w. (w(d := unat q * mx div 100), Ok ()),
      hw_off = \<lambda>d w. (w(d := 0), Ok ()),
      hw_read_many = \<lambda>d n w. (w, Ok (replicate n 0)),
      hw_wait = \<lambda>t w. w\<rparr>"

lemma sim_hw_ok: "motor_hw_ok (sim_hw mx) (\<lambda>w. w)"
  by (auto simp: motor_hw_ok_def sim_hw_def)

definition sample_motor_config :: motor_config where
  "sample_motor_config = \<lparr>pwm_max_output = 5000, pwm_clk_divider = 16, emf_measurement_delay = from_micros 100, emf_samples = 5, emf_l_cutoff = 1, emf_r_cutoff = 2\<rparr>"

lemma never_both_driven_witness:
  "\<exists>m. (motor_step Dev id id (sim_hw 5000))\<^sup>*\<^sup>* (motor_new (sim_hw 5000) sample_motor_config (\<lambda>_. 0)) m
     \<and> mc_world m Reverse = 700 \<and> (mc_world m Forward = 0 \<or> mc_world m Reverse = 0)"
proof -
  let ?m0 = "motor_new (sim_hw 5000) sample_motor_config (\<lambda>_. 0)"
  let ?m1 = "fst (set_output_level (sim_hw 5000) 300 Forward ?m0)"
  let ?m2 = "fst (set_output_level (sim_hw 5000) 700 Reverse ?m1)"
  have s: "motor_step Dev id id (sim_hw 5000) m (fst (set_output_level (sim_hw 5000) v d m))" for m v d
    by (rule Drive [OF prod.collapse [symmetric]])
  have r: "(motor_step Dev id id (sim_hw 5000))\<^sup>*\<^sup>* ?m0 ?m2"
    using s [of ?m0 300 Forward] s [of ?m1 700 Reverse] by (meson r_into_rtranclp rtranclp.rtrancl_into_rtrancl)
  have "mc_world ?m2 Reverse = 700"
    by (simp add: set_output_level_def Let_def dc_stop_def dc_set_output_def in_world_def sim_hw_def motor_new_def)
  with r never_both_driven [OF sim_hw_ok r] show ?thesis by blast
qed

section \<open>The trimmed mean\<close>

text \<open>The samples that are averaged.\<close>

definition kept_samples :: "usize \<Rightarrow> usize \<Rightarrow> u16 list \<Rightarrow> u16 list" where
  "kept_samples l r xs = take (length xs - (l + r)) (drop l (sort xs))"

lemma kept_ge:
  assumes "l + r < length xs" "length (filter (\<lambda>x. x < lo) xs) \<le> l" "x \<in> set (kept_samples l r xs)"
  shows "lo \<le> (x :: u16)"
proof (rule ccontr)
  assume "\<not> lo \<le> x"
  obtain i where i: "i < length xs - (l + r)" "x = sort xs ! (l + i)"
    using assms(1,3) by (auto simp: kept_samples_def in_set_conv_nth)
  have "\<forall>y \<in> set (take (Suc l) (sort xs)). y < lo"
  proof
    fix y assume "y \<in> set (take (Suc l) (sort xs))"
    then obtain j where "j < Suc l" "y = sort xs ! j" by (auto simp: in_set_conv_nth)
    moreover from this have "sort xs ! j \<le> sort xs ! (l + i)" using i(1) by (intro sorted_nth_mono) auto
    ultimately show "y < lo" using i(2) \<open>\<not> lo \<le> x\<close> by simp
  qed
  then have "filter (\<lambda>x. x < lo) (take (Suc l) (sort xs)) = take (Suc l) (sort xs)" by simp
  then have "Suc l \<le> length (filter (\<lambda>x. x < lo) (take (Suc l) (sort xs)))" using assms(1) by simp
  also have "\<dots> \<le> length (filter (\<lambda>x. x < lo) (take (Suc l) (sort xs) @ drop (Suc l) (sort xs)))"
    by (simp only: filter_append length_append)
  also have "\<dots> = length (filter (\<lambda>x. x < lo) xs)"
    unfolding append_take_drop_id by (metis filter_sort length_sort)
  finally show False using assms(2) by simp
qed

lemma kept_le:
  assumes "l + r < length xs" "length (filter (\<lambda>x. hi < x) xs) \<le> r" "x \<in> set (kept_samples l r xs)"
  shows "(x :: u16) \<le> hi"
proof (rule ccontr)
  assume "\<not> x \<le> hi"
  let ?k = "length xs - Suc r"
  obtain i where i: "i < length xs - (l + r)" "x = sort xs ! (l + i)"
    using assms(1,3) by (auto simp: kept_samples_def in_set_conv_nth)
  have "\<forall>y \<in> set (drop ?k (sort xs)). hi < y"
  proof
    fix y assume "y \<in> set (drop ?k (sort xs))"
    then obtain j where "j < Suc r" "y = sort xs ! (?k + j)" using assms(1) by (auto simp: in_set_conv_nth)
    moreover from this have "sort xs ! (l + i) \<le> sort xs ! (?k + j)" using i(1) assms(1) by (intro sorted_nth_mono) auto
    ultimately show "hi < y" using i(2) \<open>\<not> x \<le> hi\<close> by simp
  qed
  then have "filter (\<lambda>x. hi < x) (drop ?k (sort xs)) = drop ?k (sort xs)" by simp
  then have "Suc r \<le> length (filter (\<lambda>x. hi < x) (drop ?k (sort xs)))" using assms(1) by simp
  also have "\<dots> \<le> length (filter (\<lambda>x. hi < x) (take ?k (sort xs) @ drop ?k (sort xs)))"
    by (simp only: filter_append length_append)
  also have "\<dots> = length (filter (\<lambda>x. hi < x) xs)"
    unfolding append_take_drop_id by (metis filter_sort length_sort)
  finally show False using assms(2) by simp
qed

lemma f_mean_between:
  assumes "xs \<noteq> []" "length xs \<le> 255" "\<forall>x \<in> set xs. lo \<le> unat x \<and> unat x \<le> hi" "hi \<le> 65535"
  shows "of_nat lo \<le> f_div (f_of_nat (sum_list (map unat xs))) (f_of_nat (length xs))
    \<and> f_div (f_of_nat (sum_list (map unat xs))) (f_of_nat (length xs)) \<le> of_nat hi"
proof -
  note s = sum_list_between [OF assms(3)]
  let ?s = "sum_list (map unat xs)" and ?n = "length xs"
  have "hi * ?n \<le> 65535 * 255" using assms(2,4) by (rule mult_le_mono [rotated])
  then have "?s < 16777216" "?n < 16777216" using s(2) assms(2) by linarith+
  then have small: "?s < 2 ^ 24" "?n < 2 ^ 24" by simp_all
  have e: "f_of_nat ?s = of_nat ?s" "f_of_nat ?n = of_nat ?n" using small by (simp_all only: f_of_nat)
  have pos: "0 < (of_nat ?n :: rat)" using assms(1) by simp
  have "(of_nat (lo * ?n) :: rat) \<le> of_nat ?s" "(of_nat ?s :: rat) \<le> of_nat (hi * ?n)" using s by (simp_all only: of_nat_le_iff)
  then have q: "of_nat lo \<le> (of_nat ?s / of_nat ?n :: rat)" "(of_nat ?s / of_nat ?n :: rat) \<le> of_nat hi"
    using pos by (simp_all add: pos_le_divide_eq pos_divide_le_eq)
  then have "(of_nat lo :: rat) \<le> of_nat hi" by linarith
  then have "lo \<le> hi" by simp
  then have "rnd (of_nat lo) = of_nat lo" "rnd (of_nat hi) = of_nat hi" using assms(4) by simp_all
  then show ?thesis
    using rnd_mono [OF q(1)] rnd_mono [OF q(2)] unfolding e f_div_def by simp
qed

lemma trimmed_mean_kept:
  "l + r < length xs \<Longrightarrow> trimmed_mean l r xs = f_div (f_of_nat (sum_list (map unat (kept_samples l r xs)))) (f_of_nat (length (kept_samples l r xs)))"
  by (simp add: trimmed_mean_def kept_samples_def Let_def)

definition sample_count :: "motor_config \<Rightarrow> usize" where
  "sample_count c = max (unat (emf_samples c)) 1"

definition effective_cutoffs :: "motor_config \<Rightarrow> usize \<times> usize" where
  "effective_cutoffs c =
     (if unat (emf_l_cutoff c) + unat (emf_r_cutoff c) < sample_count c
      then (unat (emf_l_cutoff c), unat (emf_r_cutoff c)) else (0, 0))"

lemma sample_count_bounds: "1 \<le> sample_count c" "sample_count c \<le> 255"
  "min (max (unat (emf_samples c)) 1) MAX_EMF_SAMPLES = sample_count c"
  using unat_u8_le [of "emf_samples c"] by (simp_all add: sample_count_def MAX_EMF_SAMPLES_def)

lemma effective_cutoffs_bound: "fst (effective_cutoffs c) + snd (effective_cutoffs c) < sample_count c"
  using sample_count_bounds(1) [of c] by (simp add: effective_cutoffs_def)

lemma motor_measure_ok:
  assumes "motor_hw_ok hw duty" "motor_measure hw m = (m', Ok v)"
  obtains xs where "length xs = sample_count (mc_config m)" "take (sample_count (mc_config m)) (mc_emf_buf m') = sort xs"
    "v = trimmed_mean (fst (effective_cutoffs (mc_config m))) (snd (effective_cutoffs (mc_config m))) xs"
    "off duty Forward m'" "off duty Reverse m'"
proof -
  obtain m1 m2 where s: "dc_stop hw Forward m = (m1, Ok ())" "dc_stop hw Reverse m1 = (m2, Ok ())"
    and rest: "(let n = min (max (unat (emf_samples (mc_config m2))) 1) MAX_EMF_SAMPLES;
           l = unat (emf_l_cutoff (mc_config m2)); r = unat (emf_r_cutoff (mc_config m2));
           (l_cutoff, r_cutoff) = (if l + r < n then (l, r) else (0, 0));
           m = m2\<lparr>mc_world := hw_wait hw (emf_measurement_delay (mc_config m2)) (mc_world m2)\<rparr>
       in st_bind (dc_measure_emf hw (mc_dir m) n m) (\<lambda>m buf.
            (m\<lparr>mc_emf_buf := sort buf @ drop n (mc_emf_buf m)\<rparr>, Ok (trimmed_mean l_cutoff r_cutoff buf)))) = (m', Ok v)"
    using assms(2) unfolding motor_measure_def by (auto simp: st_bind_eq_Ok)
  have c: "mc_config m1 = mc_config m" "mc_config m2 = mc_config m"
    using s by (auto simp: dc_stop_def in_world_def split: prod.splits)
  have off: "off duty Forward m2" "off duty Reverse m2"
    using post_dc_stop(2) [OF assms(1) post_dc_stop(3) [OF assms(1) s(1)], of Reverse]
      post_dc_stop(3) [OF assms(1) s(2)] by (simp_all add: s(2))
  let ?c = "mc_config m" and ?m3 = "m2\<lparr>mc_world := hw_wait hw (emf_measurement_delay (mc_config m2)) (mc_world m2)\<rparr>"
  obtain m4 xs where x: "dc_measure_emf hw (mc_dir ?m3) (sample_count ?c) ?m3 = (m4, Ok xs)"
    "m' = m4\<lparr>mc_emf_buf := sort xs @ drop (sample_count ?c) (mc_emf_buf m4)\<rparr>"
    "v = trimmed_mean (fst (effective_cutoffs ?c)) (snd (effective_cutoffs ?c)) xs"
    using rest unfolding Let_def c sample_count_bounds(3) effective_cutoffs_def
    by (auto simp: st_bind_eq_Ok split: if_splits)
  have len: "length xs = sample_count ?c" by (rule post_dc_measure(2) [OF assms(1) _ x(1), of "\<lambda>_. True"]) simp
  have "post (\<lambda>m. duty (mc_world m) Forward = 0 \<and> duty (mc_world m) Reverse = 0) (dc_measure_emf hw (mc_dir ?m3) (sample_count ?c) ?m3)"
    by (rule post_dc_measure(1) [OF assms(1)]) (use off hw_laws(5) [OF assms(1)] in \<open>simp add: off_def level_def\<close>)
  then have "off duty Forward m'" "off duty Reverse m'" using x(1,2) by (simp_all add: off_def level_def)
  then show thesis using that [OF len _ x(3)] len x(2) by simp
qed

lemma filter_length_sort: "length (filter P (sort xs)) = length (filter P xs)"
  by (metis filter_sort length_sort)

text \<open>C32: the back-EMF measurement resists outliers. A successful measurement leaves both channels off
  and returns a value within \<^verbatim>\<open>lo..hi\<close> whenever no more samples lie below \<^verbatim>\<open>lo\<close> than are discarded
  at the low end and no more above \<^verbatim>\<open>hi\<close> than at the high end, and it does not depend on the order
  of the samples. Cut-offs that would discard every sample are ignored.\<close>

theorem measure_rejects_outliers:
  assumes "motor_hw_ok hw duty" "motor_measure hw m = (m', Ok v)"
    "effective_cutoffs (mc_config m) = (l, r)" "samples = take (sample_count (mc_config m)) (mc_emf_buf m')"
    "length (filter (\<lambda>x. x < lo) samples) \<le> l" "length (filter (\<lambda>x. hi < x) samples) \<le> r"
  shows "of_nat (unat lo) \<le> v \<and> v \<le> of_nat (unat hi)
    \<and> (\<forall>ys. mset ys = mset samples \<longrightarrow> v = trimmed_mean l r ys) \<and> duty (mc_world m') = (\<lambda>_. 0)"
proof -
  obtain xs where xs: "length xs = sample_count (mc_config m)" "samples = sort xs" "v = trimmed_mean l r xs"
    and off: "off duty Forward m'" "off duty Reverse m'"
    using motor_measure_ok [OF assms(1,2)] assms(3,4) by (metis fst_conv snd_conv)
  have lr: "l + r < length xs" using effective_cutoffs_bound [of "mc_config m"] xs(1) assms(3) by simp
  have "\<forall>x \<in> set (kept_samples l r xs). unat lo \<le> unat x \<and> unat x \<le> unat hi"
    using kept_ge [OF lr, of lo] kept_le [OF lr, of hi] assms(5,6) xs(2)
    by (simp add: filter_length_sort word_le_nat_alt)
  moreover have "kept_samples l r xs \<noteq> []" "length (kept_samples l r xs) \<le> 255"
    using lr xs(1) sample_count_bounds(2) [of "mc_config m"] by (auto simp: kept_samples_def)
  ultimately have "of_nat (unat lo) \<le> v \<and> v \<le> of_nat (unat hi)"
    unfolding xs(3) trimmed_mean_kept [OF lr] by (intro f_mean_between unat_u16_le)
  moreover have "v = trimmed_mean l r ys" if "mset ys = mset samples" for ys
  proof -
    have "mset ys = mset xs" using that xs(2) by simp
    then have "sort ys = sort xs" "length ys = length xs" by (metis sorted_list_of_multiset_mset, metis size_mset)
    then show ?thesis by (simp add: xs(3) trimmed_mean_def)
  qed
  moreover have "duty (mc_world m') d = 0" for d using off by (cases d) (simp_all add: off_def level_def)
  ultimately show ?thesis by blast
qed

lemma measure_rejects_outliers_witness:
  "\<exists>m' v. motor_measure (sim_hw 5000) (motor_new (sim_hw 5000) sample_motor_config (\<lambda>_. 0)) = (m', Ok v) \<and> v \<le> 7"
proof -
  let ?m = "motor_new (sim_hw 5000) sample_motor_config (\<lambda>_. 0)"
  obtain m' v zs where r: "motor_measure (sim_hw 5000) ?m = (m', Ok v)" "mc_emf_buf m' = sort (replicate 5 0) @ zs"
    by (simp add: motor_measure_def dc_stop_def dc_measure_emf_def in_world_def sim_hw_def motor_new_def
        sample_motor_config_def MAX_EMF_SAMPLES_def Let_def)
  have e: "filter (\<lambda>x. 7 < x) (take 5 (mc_emf_buf m')) = []" by (simp add: r(2) filter_empty_conv)
  have c: "effective_cutoffs (mc_config ?m) = (1, 2)" "sample_count (mc_config ?m) = 5"
    by (simp_all add: effective_cutoffs_def sample_count_def motor_new_def sample_motor_config_def)
  have "v \<le> of_nat (unat (7 :: u16))"
    by (rule measure_rejects_outliers [OF sim_hw_ok r(1) c(1) refl, of 0 7, THEN conjunct2, THEN conjunct1])
      (simp_all add: c(2) e)
  then show ?thesis using r by simp
qed

end
