(* ===== verification/Motor_Tasks.thy ===== *)
theory Motor_Tasks
  imports Accel Timers Speed_Control Motor_Driver
begin

text \<open>
  The tasks that run the motor (\<^verbatim>\<open>application/src/motor/handler.rs\<close>): the dispatcher, the
  acceleration task, which turns velocity commands into a sequence of output levels, and the
  controller task, which owns the motor. They talk over two bounded channels and a signal that holds
  the latest level. Each iteration of a task's loop is a function of the event that its \<^verbatim>\<open>select\<close>
  returned; their interleaving is a step relation. Only the controller task touches the motor and
  nothing else reads what it changes, so its iterations are single steps although they wait.
\<close>

section \<open>Commands and dispatch\<close>

datatype command = AcknowledgeCv | Reset | SetVelocity128 velocity_setpoint

datatype ('pe, 'ae, 'e) task_error = Motor "('pe, 'ae) motor_error" | Speed "'e speed_error"

record output_level =
  ol_dir :: direction
  ol_setpoint :: u16

datatype destination = ToAccel | ToController

text \<open>The messages that the dispatcher sends for a command, in order.\<close>

definition dispatch :: "command \<Rightarrow> (destination \<times> command) list" where
  "dispatch c = (case c of
     AcknowledgeCv \<Rightarrow> [(ToController, c)]
   | Reset \<Rightarrow> [(ToAccel, c), (ToController, c)]
   | SetVelocity128 v \<Rightarrow> [(ToAccel, c)])"

section \<open>The acceleration task\<close>

record accel_state =
  at_helper :: accel_helper
  at_previous :: "velocity_setpoint option"
  at_alarm :: instant

definition accel_task_init :: "accel_helper \<Rightarrow> accel_state" where
  "accel_task_init h = \<lparr>at_helper = h, at_previous = None, at_alarm = INSTANT_MAX_FIXED\<rparr>"

definition to_output_level :: "u16 list \<Rightarrow> velocity_setpoint \<Rightarrow> output_level" where
  "to_output_level speed_table v =
     \<lparr>ol_dir = vs_direction v,
      ol_setpoint = speed_table ! min (unat (idx (vs_speed_step v))) (length speed_table - 1)\<rparr>"

text \<open>\<^verbatim>\<open>maybe_send_to_channel\<close>, with the level it signals, if any.\<close>

definition maybe_send :: "u16 list \<Rightarrow> velocity_setpoint \<Rightarrow> accel_state \<Rightarrow> accel_state \<times> output_level option" where
  "maybe_send speed_table setpoint st =
     (if at_previous st \<noteq> Some setpoint
      then (st\<lparr>at_previous := Some setpoint\<rparr>, Some (to_output_level speed_table setpoint))
      else (st, None))"

text \<open>\<^verbatim>\<open>Duration::MAX\<close> of embassy-time is 2^64 - 1 ticks; its conversion from a \<^verbatim>\<open>core\<close> duration
  is the parameter \<^term>\<open>to_ticks\<close>.\<close>

definition accel_advance ::
  "profile \<Rightarrow> (duration \<Rightarrow> nat option) \<Rightarrow> u16 list \<Rightarrow> instant \<Rightarrow> accel_state \<Rightarrow> accel_state \<times> (unit, output_level option) res" where
  "accel_advance p to_ticks speed_table now st =
     (let (h, r) = accel_step p (at_helper st) in
      st_bind (st\<lparr>at_helper := h\<rparr>, r) (\<lambda>st (setpoint, delay).
        let (st, signal) = maybe_send speed_table setpoint st in
        (st\<lparr>at_alarm := duration_to_timer_saturating now (unwrap_default (2 ^ 64 - 1) (to_ticks delay))\<rparr>, Ok signal)))"

datatype accel_event = AccelCommand command | AccelTimer

definition accel_task_step ::
  "profile \<Rightarrow> (duration \<Rightarrow> nat option) \<Rightarrow> u16 list \<Rightarrow> instant \<Rightarrow> accel_event \<Rightarrow> accel_state
   \<Rightarrow> accel_state \<times> (unit, output_level option) res" where
  "accel_task_step p to_ticks speed_table now e st = (case e of
     AccelCommand AcknowledgeCv \<Rightarrow> (st, Ok None)
   | AccelCommand Reset \<Rightarrow> (st\<lparr>at_helper := accel_reset (at_helper st), at_alarm := INSTANT_MAX_FIXED\<rparr>, Ok None)
   | AccelCommand (SetVelocity128 v) \<Rightarrow>
       accel_advance p to_ticks speed_table now (st\<lparr>at_helper := accel_set_target v (at_helper st)\<rparr>)
   | AccelTimer \<Rightarrow> accel_advance p to_ticks speed_table now st)"

section \<open>The controller task\<close>

record ('w, 'p) controller_state =
  ct_motor :: "'w motor"
  ct_speed :: "'p speed_controller"
  ct_last :: output_level
  ct_alarm :: instant

definition controller_init :: "'w motor \<Rightarrow> 'p speed_controller \<Rightarrow> ('w, 'p) controller_state" where
  "controller_init m c = \<lparr>ct_motor = m, ct_speed = c, ct_last = \<lparr>ol_dir = Forward, ol_setpoint = 0\<rparr>,
     ct_alarm = INSTANT_MAX_FIXED\<rparr>"

text \<open>Running an operation of the motor or of the speed controller inside the task.\<close>

definition in_motor ::
  "('w motor \<Rightarrow> 'w motor \<times> (('pe, 'ae) motor_error, 'a) res) \<Rightarrow> ('w, 'p) controller_state
   \<Rightarrow> ('w, 'p) controller_state \<times> (('pe, 'ae) motor_error, 'a) res" where
  "in_motor f st = (let (m, r) = f (ct_motor st) in (st\<lparr>ct_motor := m\<rparr>, r))"

definition in_speed ::
  "('p speed_controller \<Rightarrow> 'p speed_controller \<times> ('e speed_error, 'a) res) \<Rightarrow> ('w, 'p) controller_state
   \<Rightarrow> ('w, 'p) controller_state \<times> ('e speed_error, 'a) res" where
  "in_speed f st = (let (c, r) = f (ct_speed st) in (st\<lparr>ct_speed := c\<rparr>, r))"

text \<open>\<^verbatim>\<open>?\<close> converts the error of either.\<close>

definition compute_and_set_output ::
  "profile \<Rightarrow> ('e, 'c, 'p) pid_lib \<Rightarrow> ('w, 'pe, 'ae) motor_hw \<Rightarrow> instant \<Rightarrow> output_level \<Rightarrow> ('w, 'p) controller_state
   \<Rightarrow> ('w, 'p) controller_state \<times> (('pe, 'ae, 'e) task_error, unit) res" where
  "compute_and_set_output p lib hw now lvl st =
     st_bind (apsnd (map_err Motor) (in_motor (motor_measure hw) st)) (\<lambda>st bemf.
     st_bind (apsnd (map_err Speed)
       (in_speed (speed_compute p lib bemf (ucast (ol_setpoint lvl)) (of_nat (now div 1000))) st)) (\<lambda>st output.
       case output of
         Some out \<Rightarrow> apsnd (map_err Motor) (in_motor (set_output_level hw out (ol_dir lvl)) st)
       | None \<Rightarrow> (st, Ok ())))"

text \<open>\<^verbatim>\<open>let _ = ... .inspect_err(...)\<close>: an error is logged and dropped, a panic is not.\<close>

definition logged :: "'s \<times> ('e, 'a) res \<Rightarrow> 's \<times> (unit, unit) res" where
  "logged x = (fst x, case snd x of Panic \<Rightarrow> Panic | _ \<Rightarrow> Ok ())"

text \<open>\<^term>\<open>now\<close> is the clock at the computation, \<^term>\<open>now'\<close> when the timer is set.\<close>

definition set_output ::
  "profile \<Rightarrow> ('e, 'c, 'p) pid_lib \<Rightarrow> ('w, 'pe, 'ae) motor_hw \<Rightarrow> nat \<Rightarrow> instant \<Rightarrow> instant \<Rightarrow> output_level option
   \<Rightarrow> ('w, 'p) controller_state \<Rightarrow> ('w, 'p) controller_state \<times> (unit, unit) res" where
  "set_output p lib hw sample_ticks now now' new_output_level st =
     (let st = (case new_output_level of Some l \<Rightarrow> st\<lparr>ct_last := l\<rparr> | None \<Rightarrow> st) in
      if ol_setpoint (ct_last st) \<noteq> 0 then
        st_bind (logged (compute_and_set_output p lib hw now (ct_last st) st)) (\<lambda>st _.
          (st\<lparr>ct_alarm := now' + sample_ticks\<rparr>, Ok ()))
      else
        st_bind (logged (in_motor (motor_stop hw) (st\<lparr>ct_speed := speed_reset lib (ct_speed st)\<rparr>))) (\<lambda>st _.
          (st\<lparr>ct_alarm := INSTANT_MAX_FIXED\<rparr>, Ok ())))"

datatype controller_event = LevelSignal output_level | ControllerCommand command | PidTimer

definition controller_step ::
  "profile \<Rightarrow> ('e, 'c, 'p) pid_lib \<Rightarrow> ('w, 'pe, 'ae) motor_hw \<Rightarrow> nat \<Rightarrow> instant \<Rightarrow> instant \<Rightarrow> controller_event
   \<Rightarrow> ('w, 'p) controller_state \<Rightarrow> ('w, 'p) controller_state \<times> (unit, unit) res" where
  "controller_step p lib hw sample_ticks now now' e st = (case e of
     LevelSignal l \<Rightarrow>
       set_output p lib hw sample_ticks now now' (Some l)
         (st\<lparr>ct_motor := (ct_motor st)\<lparr>mc_world := hw_wait hw (from_millis 1) (mc_world (ct_motor st))\<rparr>\<rparr>)
   | ControllerCommand AcknowledgeCv \<Rightarrow>
       st_bind (logged (in_motor (acknowledge_cv p hw) st)) (\<lambda>st _. (st\<lparr>ct_alarm := INSTANT_MAX_FIXED\<rparr>, Ok ()))
   | ControllerCommand Reset \<Rightarrow>
       st_bind (logged (in_motor (motor_stop hw) st)) (\<lambda>st _.
         (st\<lparr>ct_speed := speed_reset lib (ct_speed st), ct_alarm := INSTANT_MAX_FIXED\<rparr>, Ok ()))
   | ControllerCommand (SetVelocity128 v) \<Rightarrow> (st, Ok ())
   | PidTimer \<Rightarrow> set_output p lib hw sample_ticks now now' None st)"

section \<open>The tasks together\<close>

definition CHANNEL_CAPACITY :: nat where
  "CHANNEL_CAPACITY = 5"

record ('w, 'p) motor_system =
  sy_commands :: "command list"
  sy_sends :: "(destination \<times> command) list"
  sy_accel_queue :: "command list"
  sy_controller_queue :: "command list"
  sy_level :: "output_level option"
  sy_accel :: accel_state
  sy_controller :: "('w, 'p) controller_state"

definition system_init :: "accel_helper \<Rightarrow> 'w motor \<Rightarrow> 'p speed_controller \<Rightarrow> ('w, 'p) motor_system" where
  "system_init h m c = \<lparr>sy_commands = [], sy_sends = [], sy_accel_queue = [], sy_controller_queue = [],
     sy_level = None, sy_accel = accel_task_init h, sy_controller = controller_init m c\<rparr>"

text \<open>A signalled level replaces the one before.\<close>

definition signalled :: "output_level option \<Rightarrow> output_level option \<Rightarrow> output_level option" where
  "signalled new old = (case new of Some l \<Rightarrow> Some l | None \<Rightarrow> old)"

text \<open>One step of one task, at clock times before \<^verbatim>\<open>2 ^ 63\<close> microseconds. \<^verbatim>\<open>select\<close> prefers its
  first ready branch, so a timer fires only when no message is ready; a full channel blocks its
  sender.\<close>

inductive system_step ::
  "profile \<Rightarrow> (duration \<Rightarrow> nat option) \<Rightarrow> u16 list \<Rightarrow> ('e, 'c, 'p) pid_lib \<Rightarrow> ('w, 'pe, 'ae) motor_hw \<Rightarrow> nat
   \<Rightarrow> ('w, 'p) motor_system \<Rightarrow> ('w, 'p) motor_system \<Rightarrow> bool"
  for p to_ticks speed_table lib hw sample_ticks where
  Post: "length (sy_commands s) < CHANNEL_CAPACITY \<Longrightarrow>
    system_step p to_ticks speed_table lib hw sample_ticks s (s\<lparr>sy_commands := sy_commands s @ [c]\<rparr>)"
| Receive: "sy_sends s = [] \<Longrightarrow> sy_commands s = c # cs \<Longrightarrow>
    system_step p to_ticks speed_table lib hw sample_ticks s (s\<lparr>sy_commands := cs, sy_sends := dispatch c\<rparr>)"
| SendAccel: "sy_sends s = (ToAccel, c) # xs \<Longrightarrow> length (sy_accel_queue s) < CHANNEL_CAPACITY \<Longrightarrow>
    system_step p to_ticks speed_table lib hw sample_ticks s
      (s\<lparr>sy_sends := xs, sy_accel_queue := sy_accel_queue s @ [c]\<rparr>)"
| SendController: "sy_sends s = (ToController, c) # xs \<Longrightarrow> length (sy_controller_queue s) < CHANNEL_CAPACITY \<Longrightarrow>
    system_step p to_ticks speed_table lib hw sample_ticks s
      (s\<lparr>sy_sends := xs, sy_controller_queue := sy_controller_queue s @ [c]\<rparr>)"
| AccelReceives: "sy_accel_queue s = c # q \<Longrightarrow> now < 2 ^ 63 \<Longrightarrow>
    accel_task_step p to_ticks speed_table now (AccelCommand c) (sy_accel s) = (a, Ok signal) \<Longrightarrow>
    system_step p to_ticks speed_table lib hw sample_ticks s
      (s\<lparr>sy_accel_queue := q, sy_accel := a, sy_level := signalled signal (sy_level s)\<rparr>)"
| AccelFires: "sy_accel_queue s = [] \<Longrightarrow> at_alarm (sy_accel s) \<le> now \<Longrightarrow> now < 2 ^ 63 \<Longrightarrow>
    accel_task_step p to_ticks speed_table now AccelTimer (sy_accel s) = (a, Ok signal) \<Longrightarrow>
    system_step p to_ticks speed_table lib hw sample_ticks s
      (s\<lparr>sy_accel := a, sy_level := signalled signal (sy_level s)\<rparr>)"
| ControllerLevel: "sy_level s = Some l \<Longrightarrow> now \<le> now' \<Longrightarrow> now' < 2 ^ 63 \<Longrightarrow>
    controller_step p lib hw sample_ticks now now' (LevelSignal l) (sy_controller s) = (c', Ok ()) \<Longrightarrow>
    system_step p to_ticks speed_table lib hw sample_ticks s (s\<lparr>sy_level := None, sy_controller := c'\<rparr>)"
| ControllerReceives: "sy_level s = None \<Longrightarrow> sy_controller_queue s = c # q \<Longrightarrow> now \<le> now' \<Longrightarrow> now' < 2 ^ 63 \<Longrightarrow>
    controller_step p lib hw sample_ticks now now' (ControllerCommand c) (sy_controller s) = (c', Ok ()) \<Longrightarrow>
    system_step p to_ticks speed_table lib hw sample_ticks s (s\<lparr>sy_controller_queue := q, sy_controller := c'\<rparr>)"
| ControllerFires: "sy_level s = None \<Longrightarrow> sy_controller_queue s = [] \<Longrightarrow> ct_alarm (sy_controller s) \<le> now \<Longrightarrow>
    now \<le> now' \<Longrightarrow> now' < 2 ^ 63 \<Longrightarrow>
    controller_step p lib hw sample_ticks now now' PidTimer (sy_controller s) = (c', Ok ()) \<Longrightarrow>
    system_step p to_ticks speed_table lib hw sample_ticks s (s\<lparr>sy_controller := c'\<rparr>)"

section \<open>Switching off\<close>

text \<open>Switching a channel off never fails: a duty of 0 is below every top.\<close>

definition off_reliable :: "('w, 'pe, 'ae) motor_hw \<Rightarrow> bool" where
  "off_reliable hw \<longleftrightarrow> (\<forall>d w. snd (hw_off hw d w) = Ok ())"

definition at_rest :: "('w \<Rightarrow> direction \<Rightarrow> nat) \<Rightarrow> 'w motor \<Rightarrow> bool" where
  "at_rest duty m \<longleftrightarrow> duty (mc_world m) = (\<lambda>_. 0)"

lemma at_rest_off: "at_rest duty m \<longleftrightarrow> off duty Forward m \<and> off duty Reverse m"
proof -
  have "(\<forall>d. duty (mc_world m) d = 0) \<longleftrightarrow> duty (mc_world m) Forward = 0 \<and> duty (mc_world m) Reverse = 0"
    by (metis direction.exhaust)
  then show ?thesis by (simp add: at_rest_def off_def level_def fun_eq_iff)
qed

lemma at_rest_one_way: "at_rest duty m \<Longrightarrow> one_way duty m"
  by (auto simp: at_rest_off intro: off_one_way)

lemma motor_new_at_rest: "motor_hw_ok hw duty \<Longrightarrow> at_rest duty (motor_new hw c w)"
  using hw_laws(6) [of hw duty] by (auto simp: at_rest_def motor_new_def split: direction.split)

lemma dc_stop_reliable:
  assumes "off_reliable hw"
  shows "\<exists>m'. dc_stop hw d m = (m', Ok ())"
  using assms by (cases "hw_off hw d (mc_world m)") (auto simp: off_reliable_def dc_stop_def in_world_def dest: spec2 [of _ d "mc_world m"])

lemma motor_stop_reliable:
  assumes "motor_hw_ok hw duty" "off_reliable hw"
  shows "\<exists>m'. motor_stop hw m = (m', Ok ()) \<and> at_rest duty m'"
proof -
  obtain m1 where m1: "dc_stop hw Forward m = (m1, Ok ())" using dc_stop_reliable [OF assms(2)] by blast
  obtain m2 where m2: "dc_stop hw Reverse m1 = (m2, Ok ())" using dc_stop_reliable [OF assms(2)] by blast
  have r: "motor_stop hw m = (m2, Ok ())" by (simp add: motor_stop_def m1 m2)
  then show ?thesis using post_motor_stop(2) [OF assms(1) r] by (simp add: at_rest_off)
qed

lemma acknowledge_cv_reliable:
  assumes hw: "motor_hw_ok hw duty" "off_reliable hw"
  shows "post (at_rest duty) (acknowledge_cv p hw m)"
proof -
  obtain m1 where stop: "motor_stop hw m = (m1, Ok ())" and rest: "at_rest duty m1"
    using motor_stop_reliable [OF hw] by blast
  define ctrl where "ctrl = mc_ack_dir m1"
  define m2 where "m2 = m1\<lparr>mc_ack_dir := opposite ctrl\<rparr>"
  have rest2: "at_rest duty m2" using rest by (simp add: m2_def at_rest_def)
  obtain m3 r where pulse: "dc_set_output_percent p hw ctrl 50 m2 = (m3, r)" by fastforce
  have o: "off duty (opposite ctrl) m2" using rest2 by (simp add: at_rest_def off_def level_def)
  have m3: "r \<noteq> Panic" "off duty (opposite ctrl) m3" "r \<noteq> Ok () \<Longrightarrow> at_rest duty m3"
    using post_dc_set_percent [OF hw(1) o, of 50 p] hw_laws(2) [OF hw(1), of ctrl 50 "mc_world m2"] pulse rest2
    by (auto simp: dc_set_output_percent_def in_world_def at_rest_def split: prod.splits if_splits)
  let ?m4 = "m3\<lparr>mc_world := hw_wait hw (from_millis 6) (mc_world m3)\<rparr>"
  obtain m5 where m5: "dc_stop hw ctrl ?m4 = (m5, Ok ())" using dc_stop_reliable [OF hw(2)] by blast
  have "off duty (opposite ctrl) m5"
    using post_dc_stop(2) [OF hw(1), of "opposite ctrl" ?m4 ctrl] m3(2) hw(1) by (simp add: m5)
  moreover have "off duty ctrl m5" by (rule post_dc_stop(3) [OF hw(1) m5])
  ultimately have m5r: "at_rest duty m5" by (cases ctrl) (simp_all add: at_rest_off)
  have "acknowledge_cv p hw m = st_bind (m3, r) (\<lambda>m _. st_bind (dc_stop hw ctrl
      (m\<lparr>mc_world := hw_wait hw (from_millis 6) (mc_world m)\<rparr>)) (\<lambda>m _. (m, Ok ())))"
    using pulse by (cases "mc_ack_dir m1") (simp_all add: acknowledge_cv_def stop Let_def ctrl_def m2_def)
  then show ?thesis using m3 m5 m5r by (cases r) simp_all
qed

section \<open>The controller task\<close>

lemma post_logged: "post Q x \<Longrightarrow> post Q (logged x)"
  by (simp add: post_def logged_def split: res.splits)

lemma post_in_motor:
  "post Q (f (ct_motor st)) \<Longrightarrow> (\<And>m. Q m \<Longrightarrow> R (st\<lparr>ct_motor := m\<rparr>)) \<Longrightarrow> post R (in_motor f st)"
  by (auto simp: in_motor_def post_def split: prod.splits)

lemma post_apsnd_map_err: "post Q (apsnd (map_err f) x) = post Q x"
  by (cases x; cases "snd x") (auto simp: post_def)

text \<open>Without an alarm both channels are off; an alarm is only set for a level other than 0.\<close>

definition engine_ok ::
  "('w \<Rightarrow> direction \<Rightarrow> nat) \<Rightarrow> ('p \<Rightarrow> f32 \<times> f32) \<Rightarrow> u16 \<Rightarrow> ('w, 'p) controller_state \<Rightarrow> bool" where
  "engine_ok duty plim mx st \<longleftrightarrow> one_way duty (ct_motor st) \<and> speed_wf plim mx (ct_speed st)"

definition controller_ok ::
  "('w \<Rightarrow> direction \<Rightarrow> nat) \<Rightarrow> ('p \<Rightarrow> f32 \<times> f32) \<Rightarrow> u16 \<Rightarrow> ('w, 'p) controller_state \<Rightarrow> bool" where
  "controller_ok duty plim mx st \<longleftrightarrow> engine_ok duty plim mx st
     \<and> (if ct_alarm st = INSTANT_MAX_FIXED then at_rest duty (ct_motor st) else ol_setpoint (ct_last st) \<noteq> 0)"

lemma engine_ok_frame [simp]:
  "engine_ok duty plim mx (st\<lparr>ct_last := l\<rparr>) = engine_ok duty plim mx st"
  "engine_ok duty plim mx (st\<lparr>ct_alarm := t\<rparr>) = engine_ok duty plim mx st"
  by (simp_all add: engine_ok_def)

lemma post_compute_and_set_output:
  fixes lib :: "('e, 'c, 'p) pid_lib"
  assumes hw: "motor_hw_ok hw duty" and lib: "pid_lib_limits lib clim plim" and st: "engine_ok duty plim mx st"
  shows "post (\<lambda>st'. engine_ok duty plim mx st' \<and> ct_last st' = ct_last st) (compute_and_set_output p lib hw now lvl st)"
proof -
  let ?Q = "\<lambda>st'. engine_ok duty plim mx st' \<and> ct_last st' = ct_last st"
  show ?thesis unfolding compute_and_set_output_def
  proof (rule post_bind_same)
    show "post ?Q (apsnd (map_err Motor) (in_motor (motor_measure hw) st))"
      unfolding post_apsnd_map_err using st
      by (intro post_in_motor [OF post_motor_measure [OF hw]]) (simp_all add: engine_ok_def)
    fix st1 bemf assume q: "?Q st1"
    show "post ?Q (st_bind (apsnd (map_err Speed) (in_speed (speed_compute p lib bemf (ucast (ol_setpoint lvl))
        (of_nat (now div 1000))) st1)) (\<lambda>st output. case output of
          None \<Rightarrow> (st, Ok ()) | Some out \<Rightarrow> apsnd (map_err Motor) (in_motor (set_output_level hw out (ol_dir lvl)) st)))"
    proof (rule post_bind_same)
      obtain c r where e: "speed_compute p lib bemf (ucast (ol_setpoint lvl)) (of_nat (now div 1000)) (ct_speed st1) = (c, r)"
        by fastforce
      show "post ?Q (apsnd (map_err Speed) (in_speed (speed_compute p lib bemf (ucast (ol_setpoint lvl)) (of_nat (now div 1000))) st1))"
        unfolding post_apsnd_map_err
        using q speed_compute_wf [OF lib _ e, of mx] by (auto simp: in_speed_def e engine_ok_def)
      fix st2 v assume q2: "?Q st2"
      then show "post ?Q (case v of None \<Rightarrow> (st2, Ok ())
          | Some out \<Rightarrow> apsnd (map_err Motor) (in_motor (set_output_level hw out (ol_dir lvl)) st2))"
        by (cases v) (auto simp: post_apsnd_map_err engine_ok_def
            intro!: post_in_motor [OF post_set_output_level [OF hw]])
    qed
  qed
qed

lemma post_set_output:
  fixes lib :: "('e, 'c, 'p) pid_lib"
  assumes hw: "motor_hw_ok hw duty" "off_reliable hw" and lib: "pid_lib_limits lib clim plim"
    and t: "now' < 2 ^ 63" "sample_ticks < 2 ^ 62" and st: "engine_ok duty plim mx st"
  shows "post (controller_ok duty plim mx) (set_output p lib hw sample_ticks now now' l st)"
proof -
  define st1 where "st1 = (case l of Some l \<Rightarrow> st\<lparr>ct_last := l\<rparr> | None \<Rightarrow> st)"
  have e1: "engine_ok duty plim mx st1" using st by (simp add: st1_def split: option.split)
  show ?thesis
  proof (cases "ol_setpoint (ct_last st1) = 0")
    case False
    have "now' + sample_ticks \<noteq> INSTANT_MAX_FIXED" using t by (simp add: INSTANT_MAX_FIXED_def)
    then have "post (controller_ok duty plim mx) (st_bind (logged (compute_and_set_output p lib hw now (ct_last st1) st1))
        (\<lambda>st _. (st\<lparr>ct_alarm := now' + sample_ticks\<rparr>, Ok ())))"
      using post_logged [OF post_compute_and_set_output [OF hw(1) lib e1, of p now "ct_last st1"]] False
      by (cases "logged (compute_and_set_output p lib hw now (ct_last st1) st1)";
          cases "snd (logged (compute_and_set_output p lib hw now (ct_last st1) st1))")
        (auto simp: controller_ok_def logged_def split: res.splits)
    then show ?thesis using False by (simp add: set_output_def st1_def [symmetric] Let_def)
  next
    case True
    obtain m where m: "motor_stop hw (ct_motor st1) = (m, Ok ())" "at_rest duty m"
      using motor_stop_reliable [OF hw] by blast
    then show ?thesis
      using True speed_reset_wf [OF lib] e1 at_rest_one_way
      by (simp add: set_output_def st1_def [symmetric] in_motor_def logged_def controller_ok_def engine_ok_def)
  qed
qed

lemma controller_step_ok:
  fixes lib :: "('e, 'c, 'p) pid_lib"
  assumes hw: "motor_hw_ok hw duty" "off_reliable hw" and lib: "pid_lib_limits lib clim plim"
    and t: "now' < 2 ^ 63" "sample_ticks < 2 ^ 62" and st: "controller_ok duty plim mx st"
  shows "post (controller_ok duty plim mx) (controller_step p lib hw sample_ticks now now' e st)"
proof -
  have e: "engine_ok duty plim mx st" using st by (simp add: controller_ok_def)
  show ?thesis
  proof (cases e)
    case (LevelSignal l)
    have "engine_ok duty plim mx
        (st\<lparr>ct_motor := (ct_motor st)\<lparr>mc_world := hw_wait hw (from_millis 1) (mc_world (ct_motor st))\<rparr>\<rparr>)"
      using \<open>engine_ok duty plim mx st\<close> hw(1) by (simp add: engine_ok_def)
    from post_set_output [OF hw lib t this] LevelSignal show ?thesis by (simp add: controller_step_def)
  next
    case (ControllerCommand c)
    show ?thesis
    proof (cases c)
      case AcknowledgeCv
      obtain m r where "acknowledge_cv p hw (ct_motor st) = (m, r)" "at_rest duty m" "r \<noteq> Panic"
        using acknowledge_cv_reliable [OF hw, of p "ct_motor st"] by (cases "acknowledge_cv p hw (ct_motor st)") auto
      then show ?thesis
        using ControllerCommand AcknowledgeCv \<open>engine_ok duty plim mx st\<close> at_rest_one_way
        by (cases r) (simp_all add: controller_step_def in_motor_def logged_def controller_ok_def engine_ok_def)
    next
      case Reset
      obtain m where "motor_stop hw (ct_motor st) = (m, Ok ())" "at_rest duty m"
        using motor_stop_reliable [OF hw] by blast
      then show ?thesis
        using ControllerCommand Reset \<open>engine_ok duty plim mx st\<close> at_rest_one_way speed_reset_wf [OF lib]
        by (simp add: controller_step_def in_motor_def logged_def controller_ok_def engine_ok_def)
    next
      case (SetVelocity128 v)
      then show ?thesis using ControllerCommand st by (simp add: controller_step_def)
    qed
  next
    case PidTimer
    then show ?thesis using post_set_output [OF hw lib t \<open>engine_ok duty plim mx st\<close>] by (simp add: controller_step_def)
  qed
qed

section \<open>Levels are neither lost nor made up\<close>

text \<open>The level the controller works on, or is about to: that of the last velocity the acceleration
  task signalled.\<close>

definition levels_agree :: "u16 list \<Rightarrow> ('w, 'p) motor_system \<Rightarrow> bool" where
  "levels_agree speed_table s \<longleftrightarrow>
     (case sy_level s of Some l \<Rightarrow> l | None \<Rightarrow> ct_last (sy_controller s))
     = (case at_previous (sy_accel s) of
          Some v \<Rightarrow> to_output_level speed_table v | None \<Rightarrow> \<lparr>ol_dir = Forward, ol_setpoint = 0\<rparr>)"

lemma accel_task_step_signal:
  assumes "accel_task_step p to_ticks speed_table now e a = (a', Ok sig)"
  shows "sig = None \<and> at_previous a' = at_previous a
    \<or> (\<exists>v. sig = Some (to_output_level speed_table v) \<and> at_previous a' = Some v)"
proof -
  have adv: "sg = None \<and> at_previous b' = at_previous b
      \<or> (\<exists>v. sg = Some (to_output_level speed_table v) \<and> at_previous b' = Some v)"
    if "accel_advance p to_ticks speed_table now b = (b', Ok sg)" for b b' sg
    using that by (auto simp: accel_advance_def maybe_send_def st_bind_eq_Ok split: prod.splits if_splits)
  show ?thesis
    using assms adv [of "a\<lparr>at_helper := h\<rparr>" a' sig for h] adv [of a a' sig]
    by (fastforce simp: accel_task_step_def split: accel_event.splits command.splits)
qed

lemma st_bind_last:
  assumes "ct_last (fst m) = x" "\<And>h y. ct_last h = x \<Longrightarrow> ct_last (fst (f h y)) = x"
  shows "ct_last (fst (st_bind m f)) = x"
  using assms by (cases m; cases "snd m") auto

lemma frame_ct_last [simp]:
  "ct_last (fst (in_motor f st)) = ct_last st" "ct_last (fst (in_speed h st)) = ct_last st"
  "fst (apsnd k x) = fst x" "fst (logged x) = fst x"
  by (simp_all add: in_motor_def in_speed_def logged_def split: prod.splits)

lemma compute_and_set_output_last: "ct_last (fst (compute_and_set_output p lib hw now l st)) = ct_last st"
  unfolding compute_and_set_output_def by (intro st_bind_last) (simp_all split: option.split)

lemma set_output_last:
  assumes "set_output p lib hw k now now' l st = (st', Ok ())"
  shows "ct_last st' = (case l of Some l \<Rightarrow> l | None \<Rightarrow> ct_last st)"
proof -
  have "ct_last (fst (set_output p lib hw k now now' l st)) = (case l of Some l \<Rightarrow> l | None \<Rightarrow> ct_last st)"
    unfolding set_output_def Let_def if_distrib [of fst] if_distrib [of ct_last] if_split
    by (cases l) (auto intro!: st_bind_last simp: compute_and_set_output_last)
  then show ?thesis by (simp add: assms)
qed

lemma controller_step_last:
  assumes "controller_step p lib hw k now now' e st = (st', Ok ())"
  shows "ct_last st' = (case e of LevelSignal l \<Rightarrow> l | _ \<Rightarrow> ct_last st)"
proof (cases e)
  case (ControllerCommand c)
  then show ?thesis
    using assms by (cases c) (auto simp: controller_step_def st_bind_eq_Ok logged_def in_motor_def split: prod.splits)
qed (use assms set_output_last [of p lib hw k now now'] in \<open>fastforce simp: controller_step_def\<close>)+

lemma levels_agree_signal:
  assumes "accel_task_step p to_ticks speed_table now e (sy_accel s) = (a, Ok sig)" "levels_agree speed_table s"
  shows "levels_agree speed_table (s\<lparr>sy_accel := a, sy_level := signalled sig (sy_level s)\<rparr>)"
    and "levels_agree speed_table (s\<lparr>sy_accel_queue := q, sy_accel := a, sy_level := signalled sig (sy_level s)\<rparr>)"
  using accel_task_step_signal [OF assms(1)] assms(2)
  by (cases sig; cases "sy_level s"; auto simp: levels_agree_def signalled_def)+

lemma system_step_levels:
  assumes "system_step p to_ticks speed_table lib hw k s s'" "levels_agree speed_table s"
  shows "levels_agree speed_table s'"
  using assms(1)
proof cases
  case (AccelReceives c q now a sg)
  then show ?thesis
    using levels_agree_signal(2) [OF AccelReceives(4) assms(2)] by simp
next
  case (AccelFires now a sg)
  then show ?thesis
    using levels_agree_signal(1) [OF AccelFires(5) assms(2)] by simp
next
  case (ControllerLevel l now now' c')
  then show ?thesis
    using controller_step_last [OF ControllerLevel(5)] assms(2) by (simp add: levels_agree_def)
next
  case (ControllerReceives c q now now' c')
  then show ?thesis
    using controller_step_last [OF ControllerReceives(6)] assms(2) by (simp add: levels_agree_def)
next
  case (ControllerFires now now' c')
  then show ?thesis
    using controller_step_last [OF ControllerFires(7)] assms(2) by (simp add: levels_agree_def)
qed (use assms(2) in \<open>simp_all add: levels_agree_def cong: option.case_cong\<close>)

lemma system_step_controller:
  fixes lib :: "('e, 'c, 'p) pid_lib"
  assumes hw: "motor_hw_ok hw duty" "off_reliable hw" and lib: "pid_lib_limits lib clim plim" and k: "k < 2 ^ 62"
    and "system_step p to_ticks speed_table lib hw k s s'" "controller_ok duty plim mx (sy_controller s)"
  shows "controller_ok duty plim mx (sy_controller s')"
  using assms(5)
proof cases
  case (ControllerLevel l now now' c')
  then show ?thesis using controller_step_ok [OF hw lib ControllerLevel(4) k assms(6)] by (auto dest: post_fst)
next
  case (ControllerReceives c q now now' c')
  then show ?thesis using controller_step_ok [OF hw lib ControllerReceives(5) k assms(6)] by (auto dest: post_fst)
next
  case (ControllerFires now now' c')
  then show ?thesis using controller_step_ok [OF hw lib ControllerFires(6) k assms(6)] by (auto dest: post_fst)
qed (use assms(6) in simp_all)

text \<open>The acceleration task only panics where the helper does.\<close>

lemma accel_advance_keeps:
  assumes "delay_ok (at_helper st)"
  shows "delay_ok (at_helper (fst (accel_advance p to_ticks speed_table now st)))"
    and "snd (accel_advance p to_ticks speed_table now st) = Panic \<longleftrightarrow> p = Dev \<and> stop_reversal (at_helper st)"
proof -
  obtain h r where e: "accel_step p (at_helper st) = (h, r)" by fastforce
  have c: "delay_ok h" using assms accel_step_config [of p "at_helper st"] by (simp add: e delay_ok_def)
  have panic: "r = Panic \<longleftrightarrow> p = Dev \<and> stop_reversal (at_helper st)"
    using accel_step_panics [OF assms, of p] by (simp add: e)
  have "delay_ok (at_helper (fst (accel_advance p to_ticks speed_table now st)))
    \<and> (snd (accel_advance p to_ticks speed_table now st) = Panic \<longleftrightarrow> r = Panic)"
  proof (cases r)
    case (Ok x)
    obtain v d where "x = (v, d)" by fastforce
    then show ?thesis
      using c Ok by (cases "at_previous st = Some v") (simp_all add: accel_advance_def e maybe_send_def)
  qed (use c in \<open>simp_all add: accel_advance_def e\<close>)
  then show "delay_ok (at_helper (fst (accel_advance p to_ticks speed_table now st)))"
    "snd (accel_advance p to_ticks speed_table now st) = Panic \<longleftrightarrow> p = Dev \<and> stop_reversal (at_helper st)"
    unfolding panic [symmetric] by blast+
qed

lemma accel_task_step_keeps:
  assumes "delay_ok (at_helper st)"
  shows "delay_ok (at_helper (fst (accel_task_step p to_ticks speed_table now e st)))"
    and "snd (accel_task_step p to_ticks speed_table now e st) = Panic \<Longrightarrow> p = Dev"
proof -
  have d: "delay_ok (accel_set_target v h) = delay_ok h" "delay_ok (accel_reset h) = delay_ok h" for v h
    by (simp_all add: delay_ok_def accel_set_target_def accel_reset_def)
  show "delay_ok (at_helper (fst (accel_task_step p to_ticks speed_table now e st)))"
    using assms by (auto simp: accel_task_step_def d intro!: accel_advance_keeps(1) split: accel_event.split command.split)
  show "p = Dev" if "snd (accel_task_step p to_ticks speed_table now e st) = Panic"
    using assms that by (auto simp: accel_task_step_def accel_advance_keeps(2) d split: accel_event.splits command.splits)
qed

lemma system_step_delay_ok:
  assumes "system_step p to_ticks speed_table lib hw k s s'" "delay_ok (at_helper (sy_accel s))"
  shows "delay_ok (at_helper (sy_accel s'))"
  using assms(1)
proof cases
  case (AccelReceives c q now a sg)
  then show ?thesis using accel_task_step_keeps(1) [OF assms(2), of p to_ticks speed_table now "AccelCommand c"] by simp
next
  case (AccelFires now a sg)
  then show ?thesis using accel_task_step_keeps(1) [OF assms(2), of p to_ticks speed_table now AccelTimer] by simp
qed (use assms(2) in simp_all)

lemma system_delay_ok:
  assumes "(system_step p to_ticks speed_table lib hw k)\<^sup>*\<^sup>* (system_init h m c) s" "delay_ok h"
  shows "delay_ok (at_helper (sy_accel s))"
  using assms(1)
proof (induction rule: rtranclp_induct)
  case base
  then show ?case using assms(2) by (simp add: system_init_def accel_task_init_def)
qed (rule system_step_delay_ok)

lemma system_invariant:
  fixes lib :: "('e, 'c, 'p) pid_lib"
  assumes hw: "motor_hw_ok hw duty" "off_reliable hw" and lib: "pid_lib_limits lib clim plim" and k: "k < 2 ^ 62"
    and c: "speed_wf plim mx c" and m: "at_rest duty m"
    and run: "(system_step p to_ticks speed_table lib hw k)\<^sup>*\<^sup>* (system_init h m c) s"
  shows "controller_ok duty plim mx (sy_controller s) \<and> levels_agree speed_table s"
  using run
proof (induction rule: rtranclp_induct)
  case base
  show ?case
    using c m at_rest_one_way [OF m]
    by (simp add: system_init_def controller_init_def controller_ok_def engine_ok_def levels_agree_def accel_task_init_def)
next
  case (step s s')
  then show ?case
    using system_step_levels system_step_controller [OF hw lib k] by blast
qed


text \<open>C28: no level is lost or made up between the tasks. In every reachable state without a pending
  signal the controller task works on exactly the table level and direction of the last velocity the
  acceleration task signalled, or on a standstill before the first one, although signals
  overwrite each other; with a pending signal, that signal is it.\<close>

theorem controller_follows_accel:
  fixes lib :: "('e, 'c, 'p) pid_lib"
  assumes "motor_hw_ok hw duty" "off_reliable hw" "pid_lib_limits lib clim plim" "k < 2 ^ 62"
    and "speed_wf plim mx c" "at_rest duty m"
    and "(system_step p to_ticks speed_table lib hw k)\<^sup>*\<^sup>* (system_init h m c) s"
  shows "(case sy_level s of Some l \<Rightarrow> l | None \<Rightarrow> ct_last (sy_controller s))
     = (case at_previous (sy_accel s) of
          Some v \<Rightarrow> \<lparr>ol_dir = vs_direction v,
                     ol_setpoint = speed_table ! min (unat (idx (vs_speed_step v))) (length speed_table - 1)\<rparr>
        | None \<Rightarrow> \<lparr>ol_dir = Forward, ol_setpoint = 0\<rparr>)"
  using system_invariant [OF assms] unfolding levels_agree_def to_output_level_def by blast

section \<open>The channels\<close>

text \<open>Who receives what.\<close>

definition accel_message :: "command \<Rightarrow> bool" where
  "accel_message c \<longleftrightarrow> c \<noteq> AcknowledgeCv"

definition controller_message :: "command \<Rightarrow> bool" where
  "controller_message c \<longleftrightarrow> c = AcknowledgeCv \<or> c = Reset"

definition send_ok :: "destination \<times> command \<Rightarrow> bool" where
  "send_ok = (\<lambda>(d, c). case d of ToAccel \<Rightarrow> accel_message c | ToController \<Rightarrow> controller_message c)"

definition channels_ok :: "('w, 'p) motor_system \<Rightarrow> bool" where
  "channels_ok s \<longleftrightarrow> length (sy_commands s) \<le> CHANNEL_CAPACITY
     \<and> length (sy_accel_queue s) \<le> CHANNEL_CAPACITY \<and> length (sy_controller_queue s) \<le> CHANNEL_CAPACITY
     \<and> list_all send_ok (sy_sends s) \<and> list_all accel_message (sy_accel_queue s)
     \<and> list_all controller_message (sy_controller_queue s)"

lemma send_ok_simps [simp]: "send_ok (ToAccel, c) = accel_message c" "send_ok (ToController, c) = controller_message c"
  by (simp_all add: send_ok_def)

lemma dispatch_ok: "list_all send_ok (dispatch c)"
  by (cases c) (simp_all add: dispatch_def accel_message_def controller_message_def)

lemma system_step_channels:
  assumes "system_step p to_ticks speed_table lib hw k s s'" "channels_ok s"
  shows "channels_ok s'"
  using assms by cases (auto simp: channels_ok_def dispatch_ok)


section \<open>Velocities become levels\<close>

text \<open>A run of the acceleration task over events at given times, with the latest level it signalled.\<close>

fun accel_task_run ::
  "profile \<Rightarrow> (duration \<Rightarrow> nat option) \<Rightarrow> u16 list \<Rightarrow> (instant \<times> accel_event) list \<Rightarrow> accel_state \<Rightarrow> output_level option
   \<Rightarrow> (unit, accel_state \<times> output_level option) res" where
  "accel_task_run p to_ticks speed_table [] st lvl = Ok (st, lvl)"
| "accel_task_run p to_ticks speed_table ((now, e) # es) st lvl =
     (case accel_task_step p to_ticks speed_table now e st of
        (st', Ok sig) \<Rightarrow> accel_task_run p to_ticks speed_table es st' (signalled sig lvl)
      | (st', Err x) \<Rightarrow> Err x
      | (st', Panic) \<Rightarrow> Panic)"

lemma accel_advance_ok:
  assumes "accel_step p (at_helper st) = (h, Ok (v, d))"
  shows "\<exists>t sig. accel_advance p to_ticks speed_table now st = (\<lparr>at_helper = h, at_previous = Some v, at_alarm = t\<rparr>, Ok sig)
    \<and> (lvl = map_option (to_output_level speed_table) (at_previous st) \<longrightarrow>
       signalled sig lvl = Some (to_output_level speed_table v))"
  using assms by (cases st) (auto simp: accel_advance_def maybe_send_def signalled_def)

lemma accel_task_run_timers:
  assumes "accel_steps p (length ts) (at_helper st) = Ok h" "equivalent (ah_current h) (ah_target h)"
    "lvl = map_option (to_output_level speed_table) (at_previous st)"
  shows "\<exists>t. accel_task_run p to_ticks speed_table (map (\<lambda>now. (now, AccelTimer)) (ts @ [now])) st lvl
     = Ok (\<lparr>at_helper = h, at_previous = Some (ah_target h), at_alarm = t\<rparr>, Some (to_output_level speed_table (ah_target h)))"
  using assms
proof (induction ts arbitrary: st lvl)
  case Nil
  then have h: "at_helper st = h" by simp
  have "accel_step p (at_helper st) = (h, Ok (ah_target h, duration_max))"
    using Nil.prems(2) by (simp add: h accel_step_equivalent)
  from accel_advance_ok [OF this, of to_ticks speed_table now lvl] Nil.prems(3)
  show ?case by (auto simp: accel_task_step_def)
next
  case (Cons t0 ts)
  obtain h1 v d where st1: "accel_step p (at_helper st) = (h1, Ok (v, d))" and run: "accel_steps p (length ts) h1 = Ok h"
    using Cons.prems(1) by (auto split: prod.splits res.splits)
  from accel_advance_ok [OF st1, of to_ticks speed_table t0 lvl] Cons.prems(3) obtain t sig where
    a: "accel_advance p to_ticks speed_table t0 st = (\<lparr>at_helper = h1, at_previous = Some v, at_alarm = t\<rparr>, Ok sig)"
      "signalled sig lvl = Some (to_output_level speed_table v)" by blast
  show ?case
    using Cons.IH [of "\<lparr>at_helper = h1, at_previous = Some v, at_alarm = t\<rparr>" "Some (to_output_level speed_table v)"] run
      Cons.prems(2) by (simp add: accel_task_step_def a)
qed

text \<open>From a velocity command to the level.\<close>

lemma velocity_signalled:
  assumes "reachable_target (accel_set_target v (at_helper st))" "delay_ok (at_helper st)"
    and "lvl = map_option (to_output_level speed_table) (at_previous st)" "length ts = 511"
  shows "\<exists>st'. accel_task_run p to_ticks speed_table
      ((now, AccelCommand (SetVelocity128 v)) # map (\<lambda>t. (t, AccelTimer)) ts) st lvl
     = Ok (st', Some (to_output_level speed_table v)) \<and> at_previous st' = Some v
    \<and> equivalent (ah_current (at_helper st')) v"
proof -
  let ?h = "accel_set_target v (at_helper st)"
  have d: "delay_ok ?h" using assms(2) by (simp add: delay_ok_def accel_set_target_def)
  obtain h' where h': "accel_steps p 511 ?h = Ok h'" "equivalent (ah_current h') (ah_target h')"
    "ah_target h' = ah_target ?h"
    using accel_steps_close_gap [OF assms(1) d accel_gap_bound, of p] by auto
  then have v: "ah_target h' = v" by (simp add: accel_set_target_def)
  let ?evs = "\<lambda>ts. map (\<lambda>t. (t, AccelTimer)) ts"
  have first: "accel_task_run p to_ticks speed_table ((now, AccelCommand (SetVelocity128 v)) # ?evs ts) st lvl
     = accel_task_run p to_ticks speed_table (?evs (now # ts)) (st\<lparr>at_helper := ?h\<rparr>) lvl"
    by (simp add: accel_task_step_def)
  have ne: "now # ts \<noteq> []" by simp
  have "length (butlast (now # ts)) = 511" unfolding length_butlast using assms(4) by simp
  then have "accel_steps p (length (butlast (now # ts))) (at_helper (st\<lparr>at_helper := ?h\<rparr>)) = Ok h'"
    using h'(1) by simp
  moreover have "lvl = map_option (to_output_level speed_table) (at_previous (st\<lparr>at_helper := ?h\<rparr>))"
    using assms(3) by simp
  ultimately have "\<exists>t. accel_task_run p to_ticks speed_table (?evs (butlast (now # ts) @ [last (now # ts)]))
      (st\<lparr>at_helper := ?h\<rparr>) lvl
     = Ok (\<lparr>at_helper = h', at_previous = Some v, at_alarm = t\<rparr>, Some (to_output_level speed_table v))"
    using accel_task_run_timers [OF _ h'(2)] v by metis
  then show ?thesis
    unfolding first append_butlast_last_id [OF ne] using h'(2) v by fastforce
qed

text \<open>A velocity command reaches the motor. After a velocity that the acceleration helper can reach,
  and 511 expirations of its timer at any times, the latest level signalled to the controller task
  is the table level of exactly that velocity with its direction; nothing panics on the way, and
  repeated velocities that are not signalled again do not matter.\<close>

theorem velocity_reaches_controller:
  assumes "reachable_target (accel_set_target v (at_helper st))" "delay_ok (at_helper st)"
    and "lvl = map_option (to_output_level speed_table) (at_previous st)" "length ts = 511"
  shows "\<exists>st'. accel_task_run p to_ticks speed_table
      ((now, AccelCommand (SetVelocity128 v)) # map (\<lambda>t. (t, AccelTimer)) ts) st lvl
     = Ok (st', Some (to_output_level speed_table v)) \<and> at_previous st' = Some v
    \<and> equivalent (ah_current (at_helper st')) v"
  by (rule velocity_signalled [OF assms])

definition idle_accel_task :: accel_state where
  "idle_accel_task = accel_task_init (accel_new \<lparr>accel_rate = 0, decel_rate = 0, loop_delay = from_millis 7\<rparr>)"

text \<open>The parameter of the witnesses: durations in whole microseconds that fit 64 bits.\<close>

definition micros :: "duration \<Rightarrow> nat option" where
  "micros d = (if d div 1000 < 2 ^ 64 then Some (d div 1000) else None)"

lemma velocity_reaches_controller_witness:
  "\<exists>st'. accel_task_run Dev micros [0, 40, 80]
      ((5, AccelCommand (SetVelocity128 (velocity_new (Num 1) Reverse))) # map (\<lambda>t. (t, AccelTimer)) (replicate 511 9))
      idle_accel_task None = Ok (st', Some \<lparr>ol_dir = Reverse, ol_setpoint = 40\<rparr>)"
proof -
  let ?v = "velocity_new (Num 1) Reverse"
  have "reachable_target (accel_set_target ?v (at_helper idle_accel_task))" "delay_ok (at_helper idle_accel_task)"
    by (simp_all add: idle_accel_task_def accel_task_init_def accel_new_def reachable_target_def accel_set_target_def
        delay_ok_def from_millis_def duration_max_def)
  moreover have "None = map_option (to_output_level [0, 40, 80]) (at_previous idle_accel_task)"
    by (simp add: idle_accel_task_def accel_task_init_def)
  moreover have "length (replicate 511 (9 :: instant)) = 511" by simp
  ultimately have "\<exists>st'. accel_task_run Dev micros [0, 40, 80]
      ((5, AccelCommand (SetVelocity128 ?v)) # map (\<lambda>t. (t, AccelTimer)) (replicate 511 9)) idle_accel_task None
     = Ok (st', Some (to_output_level [0, 40, 80] ?v))"
    using velocity_reaches_controller by blast
  then show ?thesis by (simp add: to_output_level_def velocity_new_def)
qed



section \<open>A concrete system\<close>

lemma controller_step_returns:
  fixes lib :: "('e, 'c, 'p) pid_lib"
  assumes "motor_hw_ok hw duty" "off_reliable hw" "pid_lib_limits lib clim plim" "now' < 2 ^ 63" "k < 2 ^ 62"
    "controller_ok duty plim mx st"
  shows "\<exists>st'. controller_step p lib hw k now now' e st = (st', Ok ())"
  using controller_step_ok [OF assms, of p now e]
  by (cases "controller_step p lib hw k now now' e st"; cases "snd (controller_step p lib hw k now now' e st)")
    (auto simp: controller_step_def set_output_def st_bind_def logged_def Let_def split: controller_event.splits
      command.splits if_splits res.splits)

lemma level_sets_alarm:
  "ol_setpoint l \<noteq> 0 \<Longrightarrow> controller_step p lib hw k now now' (LevelSignal l) st = (st', Ok ()) \<Longrightarrow>
    ct_alarm st' = now' + k"
  by (auto simp: controller_step_def set_output_def Let_def st_bind_eq_Ok)

lemma sim_off_reliable: "off_reliable (sim_hw mx)"
  by (simp add: off_reliable_def sim_hw_def)

text \<open>A command for the top speed travels through the dispatcher and the acceleration task to the motor.\<close>

lemma sample_system_run:
  assumes c: "speed_wf plim mx c" and lib: "pid_lib_limits lib clim plim"
  defines "s0 \<equiv> system_init (accel_new \<lparr>accel_rate = 0, decel_rate = 0, loop_delay = 0\<rparr>)
    (motor_new (sim_hw 5000) sample_motor_config (\<lambda>_. 0)) c"
  shows "\<exists>s. (system_step Release micros [0, 40, 80] lib (sim_hw 5000) 7000)\<^sup>*\<^sup>* s0 s
    \<and> sy_level s = None \<and> at_previous (sy_accel s) = Some (velocity_new (Num 2) Reverse)
    \<and> ct_alarm (sy_controller s) = 7100"
proof -
  let ?R = "system_step Release micros [0, 40, 80] lib (sim_hw 5000) 7000"
  let ?v = "velocity_new (Num 2) Reverse"
  let ?c = "SetVelocity128 ?v"
  let ?l = "\<lparr>ol_dir = Reverse, ol_setpoint = 80\<rparr>"
  let ?s1 = "s0\<lparr>sy_commands := [?c]\<rparr>"
  let ?s2 = "?s1\<lparr>sy_commands := [], sy_sends := dispatch ?c\<rparr>"
  let ?s3 = "?s2\<lparr>sy_sends := [], sy_accel_queue := [?c]\<rparr>"
  have 1: "?R s0 ?s1"
    using Post [of s0 Release micros "[0, 40, 80]" lib "sim_hw 5000" 7000 ?c]
    by (simp add: s0_def system_init_def CHANNEL_CAPACITY_def)
  have 2: "?R ?s1 ?s2"
    by (rule Receive) (simp_all add: s0_def system_init_def)
  have 3: "?R ?s2 ?s3"
    using SendAccel [of ?s2 ?c "[]" Release micros "[0, 40, 80]" lib "sim_hw 5000" 7000]
    by (simp add: s0_def system_init_def CHANNEL_CAPACITY_def dispatch_def)
  obtain a where a: "accel_task_step Release micros [0, 40, 80] 50 (AccelCommand ?c) (sy_accel ?s3) = (a, Ok (Some ?l))"
    "at_previous a = Some ?v"
    by (simp add: s0_def system_init_def accel_task_init_def accel_task_step_def accel_advance_def accel_set_target_def
        accel_new_def accel_step_def velocity_new_def velocity_default_def equivalent_def accel_switch_def Let_def
        next_speed_step_def accelerating_def maybe_send_def to_output_level_def)
  let ?s4 = "?s3\<lparr>sy_accel_queue := [], sy_accel := a, sy_level := Some ?l\<rparr>"
  have 4: "?R ?s3 ?s4"
    using AccelReceives [of ?s3 ?c "[]" 50 Release micros "[0, 40, 80]" a "Some ?l" lib "sim_hw 5000" 7000] a
    by (simp add: signalled_def)
  have "controller_ok (\<lambda>w. w) plim mx (sy_controller ?s4)"
    using c by (simp add: s0_def system_init_def controller_init_def controller_ok_def engine_ok_def one_way_iff at_rest_def
        motor_new_def sim_hw_def fun_eq_iff split: direction.split)
  then obtain c' where c': "controller_step Release lib (sim_hw 5000) 7000 60 100 (LevelSignal ?l) (sy_controller ?s4) = (c', Ok ())"
    using controller_step_returns [OF sim_hw_ok sim_off_reliable lib, of 100 7000] by fastforce
  have 5: "?R ?s4 (?s4\<lparr>sy_level := None, sy_controller := c'\<rparr>)"
    by (rule ControllerLevel [OF _ _ _ c']) simp_all
  have "?R\<^sup>*\<^sup>* s0 (?s4\<lparr>sy_level := None, sy_controller := c'\<rparr>)"
    using 1 2 3 4 5 by (meson rtranclp.rtrancl_into_rtrancl rtranclp.rtrancl_refl)
  moreover have "ct_alarm c' = 7100" using level_sets_alarm [OF _ c'] by simp
  ultimately show ?thesis using a(2) by (intro exI [of _ "?s4\<lparr>sy_level := None, sy_controller := c'\<rparr>"]) simp
qed

text \<open>The limits of the sample PID crate and a controller over it.\<close>

definition p_lim :: "f32 \<times> f32 \<times> f32 \<Rightarrow> f32 \<times> f32" where
  "p_lim = (\<lambda>(k, lo, hi). (lo, max lo hi))"

lemma sample_speed_wf: "\<exists>c. speed_wf p_lim 5000 c"
proof -
  obtain c where c: "speed_new p_lib sample_speed_config = Ok c"
    using sample_pid_new by (auto simp: speed_new_def sample_speed_config_def)
  have "speed_wf p_lim 5000 c"
    unfolding p_lim_def by (rule speed_new_wf [OF p_lib_limits c])
      (simp_all add: sample_speed_config_def sample_pid_config_def ramp_room_def)
  then show ?thesis ..
qed

lemma p_lim_limits: "pid_lib_limits p_lib p_lim p_lim"
  unfolding p_lim_def by (rule p_lib_limits)


lemma controller_follows_accel_witness:
  "\<exists>s :: (direction \<Rightarrow> nat, f32 \<times> f32 \<times> f32) motor_system.
     ct_last (sy_controller s) = \<lparr>ol_dir = Reverse, ol_setpoint = 80\<rparr>"
proof -
  obtain c where c: "speed_wf p_lim 5000 c" using sample_speed_wf by blast
  obtain s where s: "(system_step Release micros [0, 40, 80] p_lib (sim_hw 5000) 7000)\<^sup>*\<^sup>*
      (system_init (accel_new \<lparr>accel_rate = 0, decel_rate = 0, loop_delay = 0\<rparr>)
        (motor_new (sim_hw 5000) sample_motor_config (\<lambda>_. 0)) c) s"
    "sy_level s = None" "at_previous (sy_accel s) = Some (velocity_new (Num 2) Reverse)"
    using sample_system_run [OF c p_lim_limits] by blast
  from controller_follows_accel [OF sim_hw_ok sim_off_reliable p_lim_limits _ c motor_new_at_rest [OF sim_hw_ok] s(1)] s(2,3) show ?thesis
    by (intro exI [of _ s]) (simp add: velocity_new_def)
qed


section \<open>A reset overtaken by a velocity\<close>

text \<open>A reset of the controller task stops the motor and keeps the level.\<close>

lemma reset_stops:
  assumes "motor_hw_ok hw duty" "off_reliable hw"
  shows "\<exists>st'. controller_step p lib hw k now now' (ControllerCommand Reset) st = (st', Ok ())
    \<and> at_rest duty (ct_motor st') \<and> ct_alarm st' = INSTANT_MAX_FIXED \<and> ct_last st' = ct_last st"
proof -
  obtain m' where "motor_stop hw (ct_motor st) = (m', Ok ())" "at_rest duty m'"
    using motor_stop_reliable [OF assms] by blast
  then show ?thesis by (simp add: controller_step_def in_motor_def logged_def)
qed

text \<open>A velocity can be lost to the reset before it. A reset and then a velocity are posted; the dispatcher
  queues the reset for both tasks and then the velocity, the acceleration task takes both before the
  controller task takes either, and the controller task, which prefers the signalled level, starts the motor and
  only then obeys the older reset. In the end nothing is under way, the controller task has
  the level of the velocity, but the motor is off and its timer stopped, and the same velocity commanded
  again is not signalled.\<close>

theorem velocity_lost_to_earlier_reset:
  fixes lib :: "('e, 'c, 'p) pid_lib" and hw :: "('w, 'pe, 'ae) motor_hw"
  assumes hw: "motor_hw_ok hw duty" "off_reliable hw" and lib: "pid_lib_limits lib clim plim" and k: "k < 2 ^ 62"
    and c: "speed_wf plim mx c" and m: "at_rest duty m"
    and v: "accel_rate cfg = 0" "0 < n" "v = velocity_new (Num n) d" "ol_setpoint (to_output_level speed_table v) \<noteq> 0"
    and s0: "s0 = system_init (accel_new cfg) m c"
  shows "\<exists>s1 s. (system_step p to_ticks speed_table lib hw k)\<^sup>*\<^sup>* s0 s1 \<and> s1 = s0\<lparr>sy_commands := [Reset, SetVelocity128 v]\<rparr>
    \<and> (system_step p to_ticks speed_table lib hw k)\<^sup>*\<^sup>* s1 s
    \<and> sy_commands s = [] \<and> sy_sends s = [] \<and> sy_accel_queue s = [] \<and> sy_controller_queue s = [] \<and> sy_level s = None
    \<and> ct_last (sy_controller s) = to_output_level speed_table v
    \<and> at_rest duty (ct_motor (sy_controller s)) \<and> ct_alarm (sy_controller s) = INSTANT_MAX_FIXED
    \<and> snd (accel_task_step p to_ticks speed_table now (AccelCommand (SetVelocity128 v)) (sy_accel s)) = Ok None"
proof -
  let ?R = "system_step p to_ticks speed_table lib hw k" and ?c = "SetVelocity128 v"
  let ?l = "to_output_level speed_table v"
  have one: "accel_step p h = (h\<lparr>ah_current := v\<rparr>, Ok (v, duration_max))"
    if "ah_current h = velocity_default" "ah_target h = v" "accel_rate (ah_config h) = 0" for h
    using that v(2) by (cases d)
      (simp_all add: accel_step_def v(3) velocity_new_def velocity_default_def equivalent_def accel_switch_def
        Let_def next_speed_step_def accelerating_def word_neq_0_conv)
  let ?s1 = "s0\<lparr>sy_commands := [Reset]\<rparr>" and ?s2 = "s0\<lparr>sy_commands := [Reset, ?c]\<rparr>"
  let ?s3 = "s0\<lparr>sy_commands := [?c], sy_sends := [(ToAccel, Reset), (ToController, Reset)]\<rparr>"
  let ?s4 = "s0\<lparr>sy_commands := [?c], sy_sends := [(ToController, Reset)], sy_accel_queue := [Reset]\<rparr>"
  let ?s5 = "s0\<lparr>sy_commands := [?c], sy_accel_queue := [Reset], sy_controller_queue := [Reset]\<rparr>"
  let ?s6 = "s0\<lparr>sy_sends := [(ToAccel, ?c)], sy_accel_queue := [Reset], sy_controller_queue := [Reset]\<rparr>"
  let ?s7 = "s0\<lparr>sy_accel_queue := [Reset, ?c], sy_controller_queue := [Reset]\<rparr>"
  note init = s0 system_init_def accel_task_init_def controller_init_def CHANNEL_CAPACITY_def dispatch_def
  have 1: "?R s0 ?s1" using Post [of s0 p to_ticks speed_table lib hw k Reset] by (simp add: init)
  have 2: "?R ?s1 ?s2" using Post [of ?s1 p to_ticks speed_table lib hw k ?c] by (simp add: init)
  have 3: "?R ?s2 ?s3" using Receive [of ?s2 Reset "[?c]" p to_ticks speed_table lib hw k] by (simp add: init)
  have 4: "?R ?s3 ?s4"
    using SendAccel [of ?s3 Reset "[(ToController, Reset)]" p to_ticks speed_table lib hw k] by (simp add: init)
  have 5: "?R ?s4 ?s5" using SendController [of ?s4 Reset "[]" p to_ticks speed_table lib hw k] by (simp add: init)
  have 6: "?R ?s5 ?s6" using Receive [of ?s5 ?c "[]" p to_ticks speed_table lib hw k] by (simp add: init)
  have 7: "?R ?s6 ?s7" using SendAccel [of ?s6 ?c "[]" p to_ticks speed_table lib hw k] by (simp add: init)
  define a1 where "a1 = (sy_accel s0)\<lparr>at_helper := accel_reset (at_helper (sy_accel s0)), at_alarm := INSTANT_MAX_FIXED\<rparr>"
  let ?s8 = "s0\<lparr>sy_accel_queue := [?c], sy_controller_queue := [Reset], sy_accel := a1\<rparr>"
  have 8: "?R ?s7 ?s8"
    using AccelReceives [of ?s7 Reset "[?c]" 0 p to_ticks speed_table a1 None lib hw k]
    by (simp add: init accel_task_step_def a1_def signalled_def)
  obtain a2 where a2: "accel_task_step p to_ticks speed_table 0 (AccelCommand ?c) a1 = (a2, Ok (Some ?l))"
    "at_previous a2 = Some v" "ah_current (at_helper a2) = v"
    by (simp add: a1_def init accel_task_step_def accel_advance_def accel_reset_def accel_set_target_def accel_new_def
        one v(1) maybe_send_def)
  let ?s9 = "s0\<lparr>sy_controller_queue := [Reset], sy_accel := a2, sy_level := Some ?l\<rparr>"
  have 9: "?R ?s8 ?s9"
    using AccelReceives [of ?s8 ?c "[]" 0 p to_ticks speed_table a2 "Some ?l" lib hw k] a2(1)
    by (simp add: init signalled_def)
  have "controller_ok duty plim mx (sy_controller s0)"
    using c m at_rest_one_way [OF m] by (simp add: init controller_ok_def engine_ok_def)
  then obtain c1 where c1: "controller_step p lib hw k 0 0 (LevelSignal ?l) (sy_controller s0) = (c1, Ok ())"
    using controller_step_returns [OF hw lib, of 0 k] k by fastforce
  let ?s10 = "s0\<lparr>sy_controller_queue := [Reset], sy_accel := a2, sy_controller := c1\<rparr>"
  have 10: "?R ?s9 ?s10"
    using ControllerLevel [of ?s9 ?l 0 0 p lib hw k c1 to_ticks speed_table] c1 by (simp add: init)
  obtain c2 where c2: "controller_step p lib hw k 0 0 (ControllerCommand Reset) c1 = (c2, Ok ())"
    "at_rest duty (ct_motor c2)" "ct_alarm c2 = INSTANT_MAX_FIXED" "ct_last c2 = ct_last c1"
    using reset_stops [OF hw] by blast
  let ?s11 = "s0\<lparr>sy_accel := a2, sy_controller := c2\<rparr>"
  have 11: "?R ?s10 ?s11"
    using ControllerReceives [of ?s10 Reset "[]" 0 0 p lib hw k c2 to_ticks speed_table] c2(1) by (simp add: init)
  note lead = converse_rtranclp_into_rtranclp [of ?R]
  have "?R\<^sup>*\<^sup>* s0 ?s2" by (rule 1 [THEN lead], rule r_into_rtranclp, rule 2)
  moreover have "?R\<^sup>*\<^sup>* ?s2 ?s11"
    by (rule 3 [THEN lead], rule 4 [THEN lead], rule 5 [THEN lead], rule 6 [THEN lead], rule 7 [THEN lead],
        rule 8 [THEN lead], rule 9 [THEN lead], rule 10 [THEN lead], rule r_into_rtranclp, rule 11)
  moreover have "ct_last c1 = ?l" using controller_step_last [OF c1] by simp
  moreover have "snd (accel_task_step p to_ticks speed_table now (AccelCommand ?c) a2) = Ok None"
    using a2(2,3) by (simp add: accel_task_step_def accel_advance_def accel_set_target_def accel_step_equivalent maybe_send_def)
  ultimately show ?thesis
    using c2(2-4) by (intro exI [of _ ?s2] exI [of _ ?s11]) (simp add: s0 system_init_def)
qed

lemma velocity_lost_to_earlier_reset_witness:
  "\<exists>s :: (direction \<Rightarrow> nat, f32 \<times> f32 \<times> f32) motor_system.
     ct_last (sy_controller s) = \<lparr>ol_dir = Reverse, ol_setpoint = 80\<rparr> \<and> sy_level s = None
     \<and> mc_world (ct_motor (sy_controller s)) = (\<lambda>_. 0) \<and> ct_alarm (sy_controller s) = INSTANT_MAX_FIXED"
proof -
  obtain c where c: "speed_wf p_lim 5000 c" using sample_speed_wf by blast
  let ?v = "velocity_new (Num 2) Reverse"
  have "accel_rate \<lparr>accel_rate = 0, decel_rate = 0, loop_delay = 0\<rparr> = 0" "0 < (2 :: u8)" "(7000 :: nat) < 2 ^ 62"
    "ol_setpoint (to_output_level [0, 40, 80] ?v) \<noteq> 0"
    by (simp_all add: to_output_level_def velocity_new_def)
  from velocity_lost_to_earlier_reset [OF sim_hw_ok [of 5000] sim_off_reliable p_lim_limits this(3) c 
      motor_new_at_rest [OF sim_hw_ok, of 5000 sample_motor_config "\<lambda>_. 0"] this(1,2) refl this(4) refl,
      where p = Release and to_ticks = micros and now = 9]
  obtain s :: "(direction \<Rightarrow> nat, f32 \<times> f32 \<times> f32) motor_system" where
    "ct_last (sy_controller s) = to_output_level [0, 40, 80] ?v" "sy_level s = None"
    "at_rest (\<lambda>w. w) (ct_motor (sy_controller s))" "ct_alarm (sy_controller s) = INSTANT_MAX_FIXED" by blast
  then show ?thesis by (intro exI [of _ s]) (simp add: to_output_level_def velocity_new_def at_rest_def)
qed

end
