(* ===== verification/Cv.thy ===== *)
theory Cv
  imports Packet
begin

text \<open>
  Configuration variables: their names and numbers and their factory defaults
  (\<^verbatim>\<open>dcc/src/cv/mod.rs\<close>). CV numbers start at 1; the array of defaults starts at 0.
\<close>

section \<open>Names and numbers\<close>

definition CV_SIZE :: nat where
  "CV_SIZE = 1024"

datatype cv =
  PrimaryAddress | VStart | AccelerationRate | DecelerationRate
| VHigh | VMid | ManufacturerVersionNumber | ManufacturerId
| MotorPwmFrequency | ExtendedAddressMsb | ExtendedAddressLsb | ConsistAddress
| DecoderConfiguration | PidFf | PidFilterTc | PidSampleTime
| PidKi | PidKd | PidILimitHigh | PidILimitLow
| PidKpY0 | PidKpY1 | PidKpY2 | PidKpGainRange1End
| EmfMsrSamples | EmfMsrDelay | EmfMsrLowCutoff | EmfMsrHighCutoff
| KickStart | EmfAdcOffset | MotorPwmDivider | SpeedStepPeriod
| EnablePwmOutputMask

text \<open>The discriminants, \<^verbatim>\<open>c as usize\<close>.\<close>

primrec cv_num :: "cv \<Rightarrow> nat" where
  "cv_num PrimaryAddress = 1"
| "cv_num VStart = 2"
| "cv_num AccelerationRate = 3"
| "cv_num DecelerationRate = 4"
| "cv_num VHigh = 5"
| "cv_num VMid = 6"
| "cv_num ManufacturerVersionNumber = 7"
| "cv_num ManufacturerId = 8"
| "cv_num MotorPwmFrequency = 9"
| "cv_num ExtendedAddressMsb = 17"
| "cv_num ExtendedAddressLsb = 18"
| "cv_num ConsistAddress = 19"
| "cv_num DecoderConfiguration = 29"
| "cv_num PidFf = 47"
| "cv_num PidFilterTc = 48"
| "cv_num PidSampleTime = 49"
| "cv_num PidKi = 50"
| "cv_num PidKd = 51"
| "cv_num PidILimitHigh = 52"
| "cv_num PidILimitLow = 53"
| "cv_num PidKpY0 = 54"
| "cv_num PidKpY1 = 56"
| "cv_num PidKpY2 = 58"
| "cv_num PidKpGainRange1End = 60"
| "cv_num EmfMsrSamples = 61"
| "cv_num EmfMsrDelay = 62"
| "cv_num EmfMsrLowCutoff = 63"
| "cv_num EmfMsrHighCutoff = 64"
| "cv_num KickStart = 65"
| "cv_num EmfAdcOffset = 172"
| "cv_num MotorPwmDivider = 174"
| "cv_num SpeedStepPeriod = 175"
| "cv_num EnablePwmOutputMask = 112"

definition all_cvs :: "cv list" where
  "all_cvs = [PrimaryAddress, VStart, AccelerationRate, DecelerationRate, VHigh,
     VMid, ManufacturerVersionNumber, ManufacturerId, MotorPwmFrequency, ExtendedAddressMsb,
     ExtendedAddressLsb, ConsistAddress, DecoderConfiguration, PidFf, PidFilterTc,
     PidSampleTime, PidKi, PidKd, PidILimitHigh, PidILimitLow,
     PidKpY0, PidKpY1, PidKpY2, PidKpGainRange1End, EmfMsrSamples,
     EmfMsrDelay, EmfMsrLowCutoff, EmfMsrHighCutoff, KickStart, EmfAdcOffset,
     MotorPwmDivider, SpeedStepPeriod, EnablePwmOutputMask]"

text \<open>The \<^verbatim>\<open>TryFrom<u16>\<close> that \<^verbatim>\<open>int_enum\<close> derives.\<close>

definition cv_try_from :: "u16 \<Rightarrow> cv option" where
  "cv_try_from a = find (\<lambda>c. cv_num c = unat a) all_cvs"

section \<open>Factory defaults\<close>

text \<open>The array of defaults, cut where the source has its headings.\<close>

definition DEFAULT_CV_1_111 :: "u8 list" where
  "DEFAULT_CV_1_111 =
     [0b00000011, 0b00001000, 0b00000000, 0b00000000, 0b01100100, 0b00111111, 0b10000001, 0b00001101,
      0b10010110, 0b00000001, 0b11111111, 0b00000100, 0b00000000, 0b00000000, 0b00000000, 0b00000000,
      0b11000011, 0b11101000, 0b00000000, 0b00000000, 0b00000000, 0b00000000, 0b00000000, 0b00000000,
      0b00000000, 0b00000000, 0b00000000, 0b00000000, 0b00000000, 0b00000000, 0b00010000, 0b00000000,
      0b00000000, 0b00000000, 0b00000000, 0b00000000, 0b00000000, 0b00000000, 0b00000000, 0b00000000,
      0b00000000, 0b00000000, 0b00000000, 0b00000000, 0b00000000, 0b00000000, 0b11100110, 0b00001010,
      0b00000101, 0b00011001, 0b00110010, 0b01100100, 0b01100100, 0b00000111, 0b11010000, 0b00000000,
      0b11111010, 0b00000000, 0b10010110, 0b00001101, 0b01100100, 0b01100100, 0b00001111, 0b00001111,
      0b00000000, 0b00000000, 0b00000000, 0b00000000, 0b00000000, 0b00000000, 0b00000000, 0b00000000,
      0b00000000, 0b00000000, 0b00000000, 0b00000000, 0b00000000, 0b00000000, 0b00000000, 0b00000000,
      0b00000000, 0b00000000, 0b00000000, 0b00000000, 0b00000000, 0b00000000, 0b00000000, 0b00000000,
      0b00000000, 0b00000000, 0b00000000, 0b00000000, 0b00000000, 0b00000000, 0b00000000, 0b00000000,
      0b00000000, 0b00000000, 0b00000000, 0b00000000, 0b00000000, 0b00000000, 0b00000000, 0b00000000,
      0b00000000, 0b00000000, 0b00000001, 0b00001011, 0b00000000, 0b00000000, 0b00000000]"

definition DEFAULT_CV_112_175 :: "u8 list" where
  "DEFAULT_CV_112_175 =
     [0b00000000, 0b00000000, 0b00000000, 0b00000000, 0b00000000, 0b00000000, 0b00000000, 0b00000000,
      0b00000000, 0b00000000, 0b00000000, 0b00000000, 0b00000000, 0b00000000, 0b00000000, 0b00000000,
      0b00000000, 0b00000000, 0b00000000, 0b00000000, 0b00000000, 0b00000000, 0b00000000, 0b00000000,
      0b00000000, 0b00000000, 0b00000000, 0b00000000, 0b00000000, 0b00000000, 0b00000000, 0b00000000,
      0b00000000, 0b00000000, 0b00000000, 0b00000000, 0b00000000, 0b00000000, 0b00000000, 0b00000000,
      0b00000000, 0b00000000, 0b00000000, 0b00000000, 0b00000000, 0b00000000, 0b00000000, 0b00000000,
      0b00000000, 0b00000000, 0b00000000, 0b00000000, 0b00000000, 0b00000000, 0b00000000, 0b00000000,
      0b00000000, 0b00000000, 0b00000000, 0b00000000, 0b11111111, 0b01111111, 0b00000001, 0b00000111]"

definition DEFAULT_CV_176_256 :: "u8 list" where
  "DEFAULT_CV_176_256 = replicate 81 0"

definition DEFAULT_F0_F13 :: "u8 list" where
  "DEFAULT_F0_F13 = replicate 112 0"

definition DEFAULT_F14_F27 :: "u8 list" where
  "DEFAULT_F14_F27 = replicate 112 0"

definition DEFAULT_F28_F31 :: "u8 list" where
  "DEFAULT_F28_F31 = replicate 32 0"

definition DEFAULT_CV_513_640 :: "u8 list" where
  "DEFAULT_CV_513_640 = replicate 128 0"

definition DEFAULT_CV_641_768 :: "u8 list" where
  "DEFAULT_CV_641_768 = replicate 128 0"

definition DEFAULT_CV_769_896 :: "u8 list" where
  "DEFAULT_CV_769_896 = replicate 128 0"

definition DEFAULT_CV_897_1024 :: "u8 list" where
  "DEFAULT_CV_897_1024 = replicate 128 0"

definition DEFAULT_VALUES :: "u8 list" where
  "DEFAULT_VALUES = DEFAULT_CV_1_111 @ DEFAULT_CV_112_175 @ DEFAULT_CV_176_256
     @ DEFAULT_F0_F13 @ DEFAULT_F14_F27 @ DEFAULT_F28_F31
     @ DEFAULT_CV_513_640 @ DEFAULT_CV_641_768 @ DEFAULT_CV_769_896 @ DEFAULT_CV_897_1024"

lemma length_default_values [simp]: "length DEFAULT_VALUES = CV_SIZE"
  by (simp add: DEFAULT_VALUES_def CV_SIZE_def DEFAULT_CV_1_111_def DEFAULT_CV_112_175_def
      DEFAULT_CV_176_256_def DEFAULT_F0_F13_def DEFAULT_F14_F27_def DEFAULT_F28_F31_def
      DEFAULT_CV_513_640_def DEFAULT_CV_641_768_def DEFAULT_CV_769_896_def DEFAULT_CV_897_1024_def)

lemma default_values_eq:
  "DEFAULT_VALUES = DEFAULT_CV_1_111 @ DEFAULT_CV_112_175 @ replicate 849 0"
proof -
  have "replicate 849 (0 :: u8) = replicate 81 0 @ replicate 112 0 @ replicate 112 0 @ replicate 32 0
    @ replicate 128 0 @ replicate 128 0 @ replicate 128 0 @ replicate 128 0"
    by (simp only: replicate_add [symmetric]) simp
  then show ?thesis
    by (simp only: DEFAULT_VALUES_def DEFAULT_CV_176_256_def DEFAULT_F0_F13_def DEFAULT_F14_F27_def
        DEFAULT_F28_F31_def DEFAULT_CV_513_640_def DEFAULT_CV_641_768_def DEFAULT_CV_769_896_def
        DEFAULT_CV_897_1024_def)
qed

lemma length_default_chunks:
  "length DEFAULT_CV_1_111 = 111" "length DEFAULT_CV_112_175 = 64"
  by (simp_all add: DEFAULT_CV_1_111_def DEFAULT_CV_112_175_def)

lemma default_1_111: "i < 111 \<Longrightarrow> DEFAULT_VALUES ! i = DEFAULT_CV_1_111 ! i"
  by (auto simp: default_values_eq nth_append length_default_chunks)

lemma default_112_175: "111 \<le> i \<Longrightarrow> i < 175 \<Longrightarrow> DEFAULT_VALUES ! i = DEFAULT_CV_112_175 ! (i - 111)"
  by (auto simp: default_values_eq nth_append length_default_chunks)

lemma default_from_176: "175 \<le> i \<Longrightarrow> i < 1024 \<Longrightarrow> DEFAULT_VALUES ! i = 0"
  by (auto simp: default_values_eq nth_append length_default_chunks)

text \<open>The default of every named CV.\<close>

primrec default_of :: "cv \<Rightarrow> u8" where
  "default_of PrimaryAddress = 3"
| "default_of VStart = 8"
| "default_of AccelerationRate = 0"
| "default_of DecelerationRate = 0"
| "default_of VHigh = 100"
| "default_of VMid = 63"
| "default_of ManufacturerVersionNumber = 129"
| "default_of ManufacturerId = 13"
| "default_of MotorPwmFrequency = 150"
| "default_of ExtendedAddressMsb = 195"
| "default_of ExtendedAddressLsb = 232"
| "default_of ConsistAddress = 0"
| "default_of DecoderConfiguration = 0"
| "default_of PidFf = 230"
| "default_of PidFilterTc = 10"
| "default_of PidSampleTime = 5"
| "default_of PidKi = 25"
| "default_of PidKd = 50"
| "default_of PidILimitHigh = 100"
| "default_of PidILimitLow = 100"
| "default_of PidKpY0 = 7"
| "default_of PidKpY1 = 0"
| "default_of PidKpY2 = 0"
| "default_of PidKpGainRange1End = 13"
| "default_of EmfMsrSamples = 100"
| "default_of EmfMsrDelay = 100"
| "default_of EmfMsrLowCutoff = 15"
| "default_of EmfMsrHighCutoff = 15"
| "default_of KickStart = 0"
| "default_of EmfAdcOffset = 255"
| "default_of MotorPwmDivider = 1"
| "default_of SpeedStepPeriod = 7"
| "default_of EnablePwmOutputMask = 0"

lemma default_of_cv: "DEFAULT_VALUES ! (cv_num c - 1) = default_of c"
proof (cases "cv_num c - 1 < 111")
  case True
  then have "DEFAULT_VALUES ! (cv_num c - 1) = DEFAULT_CV_1_111 ! (cv_num c - 1)"
    by (rule default_1_111)
  also have "\<dots> = default_of c" using True by (cases c) (simp_all add: DEFAULT_CV_1_111_def)
  finally show ?thesis .
next
  case False
  then have "111 \<le> cv_num c - 1" "cv_num c - 1 < 175" by (cases c; simp)+
  then have "DEFAULT_VALUES ! (cv_num c - 1) = DEFAULT_CV_112_175 ! (cv_num c - 1 - 111)"
    by (rule default_112_175)
  also have "\<dots> = default_of c" using False by (cases c) (simp_all add: DEFAULT_CV_112_175_def)
  finally show ?thesis .
qed

lemma cv_num_inj: "cv_num c = cv_num d \<longleftrightarrow> c = d"
  by (cases c; cases d; simp)

lemma set_all_cvs: "set all_cvs = UNIV"
proof -
  have "c \<in> set all_cvs" for c by (cases c) (simp_all add: all_cvs_def)
  then show ?thesis by auto
qed

lemma cv_try_from_iff: "cv_try_from a = Some c \<longleftrightarrow> cv_num c = unat a"
proof
  assume "cv_try_from a = Some c"
  then show "cv_num c = unat a" by (auto simp: cv_try_from_def find_Some_iff)
next
  assume c: "cv_num c = unat a"
  then have "cv_try_from a \<noteq> None" using set_all_cvs by (auto simp: cv_try_from_def find_None_iff)
  then obtain d where "cv_try_from a = Some d" by blast
  moreover from this have "cv_num d = unat a" by (auto simp: cv_try_from_def find_Some_iff)
  ultimately show "cv_try_from a = Some c" using c cv_num_inj [of c d] by simp
qed

lemma cv_num_range: "1 \<le> cv_num c \<and> cv_num c \<le> CV_SIZE"
  by (cases c) (simp_all add: CV_SIZE_def)

text \<open>The factory defaults are a full set of CVs, and the ones that a decoder cannot work without
  have usable values: a short address that may be programmed (1 to 127), a long address in its
  permitted range, short addressing selected, an offset that asks for a measurement and a sampling
  configuration that leaves samples after trimming.\<close>

theorem factory_defaults_usable:
  "length DEFAULT_VALUES = CV_SIZE"
  "1 \<le> DEFAULT_VALUES ! (cv_num PrimaryAddress - 1) \<and> DEFAULT_VALUES ! (cv_num PrimaryAddress - 1) \<le> 127"
  "192 \<le> DEFAULT_VALUES ! (cv_num ExtendedAddressMsb - 1)
     \<and> DEFAULT_VALUES ! (cv_num ExtendedAddressMsb - 1) \<le> 231"
  "DEFAULT_VALUES ! (cv_num DecoderConfiguration - 1) AND 0x20 = 0"
  "DEFAULT_VALUES ! (cv_num EmfAdcOffset - 1) = 255"
  "unat (DEFAULT_VALUES ! (cv_num EmfMsrLowCutoff - 1)) + unat (DEFAULT_VALUES ! (cv_num EmfMsrHighCutoff - 1))
     < unat (DEFAULT_VALUES ! (cv_num EmfMsrSamples - 1))"
  by (simp_all only: default_of_cv default_of.simps length_default_values) simp_all

end
