(* ===== verification/Store.thy ===== *)
theory Store
  imports Cv F32
begin

text \<open>
  The configuration store (\<^verbatim>\<open>dcc/src/cv/store.rs\<close>): the trait \<^verbatim>\<open>Store\<close> as a dictionary of
  its four methods, the accessors of \<^verbatim>\<open>StoreExt\<close> over any such dictionary, and the population
  and reset of a store. The contract that every accessor and the packet handler rely on is the
  locale \<^verbatim>\<open>cv_store\<close>: a store is a total map from CV numbers to bytes that either takes a
  write or reports an I/O error.
\<close>

section \<open>The trait\<close>

datatype store_error = InvalidCvAddress | Io

record 's store_ops =
  op_read_byte :: "'s \<Rightarrow> usize \<Rightarrow> (store_error, u8) res"
  op_read_bytes :: "'s \<Rightarrow> usize \<Rightarrow> usize \<Rightarrow> (store_error, u8 list) res"
  op_write_byte :: "'s \<Rightarrow> usize \<Rightarrow> u8 \<Rightarrow> 's \<times> (store_error, unit) res"
  op_write_bytes :: "'s \<Rightarrow> usize \<Rightarrow> u8 list \<Rightarrow> bool \<Rightarrow> 's \<times> (store_error, unit) res"

record pwm_config =
  pwm_wrap :: u16
  pwm_divider :: u8
  pwm_a_level :: u16
  pwm_b_level :: u16

definition FUNCTION_MAP_BASE :: usize where
  "FUNCTION_MAP_BASE = 257"

definition FUNCTION_MAP_STRIDE :: usize where
  "FUNCTION_MAP_STRIDE = 8"

definition FUNCTION_MAP_DIR_OFFSET :: usize where
  "FUNCTION_MAP_DIR_OFFSET = 4"

definition PWM_SLICE_CONFIG_BASE :: usize where
  "PWM_SLICE_CONFIG_BASE = 116"

definition PWM_SLICE_CONFIG_STRIDE :: usize where
  "PWM_SLICE_CONFIG_STRIDE = 7"

section \<open>Typed values\<close>

text \<open>\<^verbatim>\<open>u16::from_be_bytes\<close> and \<^verbatim>\<open>u32::from_be_bytes\<close> of a slice that must have the right
  length (\<^verbatim>\<open>try_into\<close>).\<close>

definition u16_from_be_bytes :: "u8 list \<Rightarrow> u16" where
  "u16_from_be_bytes b = foldl (\<lambda>w x. push_bit 8 w OR ucast x) 0 b"

definition u32_from_be_bytes :: "u8 list \<Rightarrow> u32" where
  "u32_from_be_bytes b = foldl (\<lambda>w x. push_bit 8 w OR ucast x) 0 b"

definition u16_from_store :: "'s store_ops \<Rightarrow> 's \<Rightarrow> usize \<Rightarrow> (store_error, u16) res" where
  "u16_from_store so s address =
     res_bind (op_read_bytes so s address 2) (\<lambda>buf.
       if length buf = 2 then Ok (u16_from_be_bytes buf) else Err Io)"

definition u32_from_store :: "'s store_ops \<Rightarrow> 's \<Rightarrow> usize \<Rightarrow> (store_error, u32) res" where
  "u32_from_store so s address =
     res_bind (op_read_bytes so s address 4) (\<lambda>buf.
       if length buf = 4 then Ok (u32_from_be_bytes buf) else Err Io)"

section \<open>Accessors\<close>

definition store_addr :: "'s store_ops \<Rightarrow> 's \<Rightarrow> (store_error, u16) res" where
  "store_addr so s =
     res_bind (op_read_byte so s (cv_num DecoderConfiguration)) (\<lambda>c.
       if 0b00100000 AND c \<noteq> 0 then
         res_bind (op_read_bytes so s (cv_num ExtendedAddressMsb) 2) read_extended_address
       else res_bind (op_read_byte so s (cv_num PrimaryAddress)) (\<lambda>a. Ok (ucast a)))"

definition v_start :: "'s store_ops \<Rightarrow> 's \<Rightarrow> (store_error, u8) res" where
  "v_start so s = op_read_byte so s (cv_num VStart)"

definition acceleration_rate :: "'s store_ops \<Rightarrow> 's \<Rightarrow> (store_error, u8) res" where
  "acceleration_rate so s = op_read_byte so s (cv_num AccelerationRate)"

definition deceleration_rate :: "'s store_ops \<Rightarrow> 's \<Rightarrow> (store_error, u8) res" where
  "deceleration_rate so s = op_read_byte so s (cv_num DecelerationRate)"

definition v_high :: "'s store_ops \<Rightarrow> 's \<Rightarrow> (store_error, u8) res" where
  "v_high so s = op_read_byte so s (cv_num VHigh)"

definition v_mid :: "'s store_ops \<Rightarrow> 's \<Rightarrow> (store_error, u8) res" where
  "v_mid so s = op_read_byte so s (cv_num VMid)"

definition pid_sample_time :: "'s store_ops \<Rightarrow> 's \<Rightarrow> (store_error, duration) res" where
  "pid_sample_time so s =
     res_bind (op_read_byte so s (cv_num PidSampleTime)) (\<lambda>v. Ok (from_millis (unat v)))"

definition pid_ki :: "'s store_ops \<Rightarrow> 's \<Rightarrow> (store_error, f32) res" where
  "pid_ki so s = res_bind (op_read_byte so s (cv_num PidKi)) (\<lambda>v. Ok (f_div (f_of_nat (unat v)) 10))"

definition pid_kd :: "'s store_ops \<Rightarrow> 's \<Rightarrow> (store_error, f32) res" where
  "pid_kd so s = res_bind (op_read_byte so s (cv_num PidKd)) (\<lambda>v. Ok (f_div (f_of_nat (unat v)) 10000))"

definition pid_filter_tc :: "'s store_ops \<Rightarrow> 's \<Rightarrow> (store_error, duration) res" where
  "pid_filter_tc so s =
     res_bind (op_read_byte so s (cv_num PidFilterTc)) (\<lambda>v. Ok (from_millis (unat v)))"

definition pid_kp_gain_range1_end :: "'s store_ops \<Rightarrow> 's \<Rightarrow> (store_error, f32) res" where
  "pid_kp_gain_range1_end so s =
     res_bind (op_read_byte so s (cv_num PidKpGainRange1End)) (\<lambda>v. Ok (f_div (f_of_nat (unat v)) 255))"

definition pid_kp_y0 :: "'s store_ops \<Rightarrow> 's \<Rightarrow> (store_error, f32) res" where
  "pid_kp_y0 so s = res_bind (u16_from_store so s (cv_num PidKpY0)) (\<lambda>v. Ok (f_div (f_of_nat (unat v)) 100))"

definition pid_kp_y1 :: "'s store_ops \<Rightarrow> 's \<Rightarrow> (store_error, f32) res" where
  "pid_kp_y1 so s = res_bind (u16_from_store so s (cv_num PidKpY1)) (\<lambda>v. Ok (f_div (f_of_nat (unat v)) 100))"

definition pid_kp_y2 :: "'s store_ops \<Rightarrow> 's \<Rightarrow> (store_error, f32) res" where
  "pid_kp_y2 so s = res_bind (u16_from_store so s (cv_num PidKpY2)) (\<lambda>v. Ok (f_div (f_of_nat (unat v)) 100))"

definition pid_k_ff :: "'s store_ops \<Rightarrow> 's \<Rightarrow> (store_error, f32) res" where
  "pid_k_ff so s = res_bind (op_read_byte so s (cv_num PidFf)) (\<lambda>v. Ok (f_div (f_of_nat (unat v)) 255))"

definition emf_measurement_delay :: "'s store_ops \<Rightarrow> 's \<Rightarrow> (store_error, duration) res" where
  "emf_measurement_delay so s =
     res_bind (op_read_byte so s (cv_num EmfMsrDelay)) (\<lambda>v. Ok (from_micros (unat v)))"

definition emf_samples :: "'s store_ops \<Rightarrow> 's \<Rightarrow> (store_error, u8) res" where
  "emf_samples so s = op_read_byte so s (cv_num EmfMsrSamples)"

definition emf_l_side_cutoff :: "'s store_ops \<Rightarrow> 's \<Rightarrow> (store_error, u8) res" where
  "emf_l_side_cutoff so s = op_read_byte so s (cv_num EmfMsrLowCutoff)"

definition emf_r_side_cutoff :: "'s store_ops \<Rightarrow> 's \<Rightarrow> (store_error, u8) res" where
  "emf_r_side_cutoff so s = op_read_byte so s (cv_num EmfMsrHighCutoff)"

definition motor_pwm_frequency :: "'s store_ops \<Rightarrow> 's \<Rightarrow> (store_error, u32) res" where
  "motor_pwm_frequency so s =
     res_bind (op_read_byte so s (cv_num MotorPwmFrequency)) (\<lambda>v. Ok (ucast v * 100 + 10000))"

definition emf_adc_offset :: "'s store_ops \<Rightarrow> 's \<Rightarrow> (store_error, u8 option) res" where
  "emf_adc_offset so s =
     res_bind (op_read_byte so s (cv_num EmfAdcOffset)) (\<lambda>offset.
       if offset \<noteq> 255 then Ok (Some offset) else Ok None)"

definition emf_adc_offset_clear :: "'s store_ops \<Rightarrow> 's \<Rightarrow> 's \<times> (store_error, unit) res" where
  "emf_adc_offset_clear so s = op_write_byte so s (cv_num EmfAdcOffset) 255"

definition write_emf_adc_offset :: "'s store_ops \<Rightarrow> 's \<Rightarrow> u8 \<Rightarrow> 's \<times> (store_error, unit) res" where
  "write_emf_adc_offset so s offset = op_write_byte so s (cv_num EmfAdcOffset) offset"

definition motor_pwm_divider :: "'s store_ops \<Rightarrow> 's \<Rightarrow> (store_error, u8) res" where
  "motor_pwm_divider so s = op_read_byte so s (cv_num MotorPwmDivider)"

definition speed_step_period :: "'s store_ops \<Rightarrow> 's \<Rightarrow> (store_error, duration) res" where
  "speed_step_period so s =
     res_bind (op_read_byte so s (cv_num SpeedStepPeriod)) (\<lambda>v. Ok (from_millis (unat v)))"

definition pwm_enabled_mask :: "'s store_ops \<Rightarrow> 's \<Rightarrow> (store_error, u32) res" where
  "pwm_enabled_mask so s = u32_from_store so s (cv_num EnablePwmOutputMask)"

definition function_output_mask :: "'s store_ops \<Rightarrow> 's \<Rightarrow> u8 \<Rightarrow> direction \<Rightarrow> (store_error, u32 option) res" where
  "function_output_mask so s function_index dir =
     (if 32 \<le> function_index then Ok None
      else
        let dir_offset = (case dir of Forward \<Rightarrow> 0 | Reverse \<Rightarrow> FUNCTION_MAP_DIR_OFFSET);
            cv_start = FUNCTION_MAP_BASE + unat function_index * FUNCTION_MAP_STRIDE + dir_offset
        in res_bind (u32_from_store so s cv_start) (\<lambda>m. Ok (Some m)))"

definition u8_saturating_add :: "u8 \<Rightarrow> u8 \<Rightarrow> u8" where
  "u8_saturating_add a b = (if unat a + unat b \<le> 255 then a + b else 255)"

definition pwm_configuration :: "'s store_ops \<Rightarrow> 's \<Rightarrow> u8 \<Rightarrow> (store_error, pwm_config option) res" where
  "pwm_configuration so s sl =
     (if 8 \<le> sl then Ok None
      else
        let base = PWM_SLICE_CONFIG_BASE + unat sl * PWM_SLICE_CONFIG_STRIDE
        in res_bind (u16_from_store so s base) (\<lambda>wrap.
           res_bind (op_read_byte so s (base + 2)) (\<lambda>d.
           res_bind (u16_from_store so s (base + 3)) (\<lambda>a.
           res_bind (u16_from_store so s (base + 5)) (\<lambda>b.
             Ok (Some \<lparr>pwm_wrap = wrap, pwm_divider = u8_saturating_add d 1, pwm_a_level = a, pwm_b_level = b\<rparr>))))))"

section \<open>Population and reset\<close>

definition store_reset :: "'s store_ops \<Rightarrow> 's \<Rightarrow> 's \<times> (store_error, unit) res" where
  "store_reset so s = op_write_bytes so s 1 DEFAULT_VALUES True"

definition ensure_populated :: "'s store_ops \<Rightarrow> 's \<Rightarrow> 's \<times> (store_error, unit) res" where
  "ensure_populated so s =
     st_bind (s, store_addr so s) (\<lambda>s primary_addr.
       if primary_addr = 0 then st_bind (store_reset so s) (\<lambda>s _. (s, Ok ()))
       else (s, Ok ()))"

section \<open>The contract of a store\<close>

text \<open>Writing consecutive CVs.\<close>

definition cv_update :: "(nat \<Rightarrow> u8) \<Rightarrow> nat \<Rightarrow> u8 list \<Rightarrow> nat \<Rightarrow> u8" where
  "cv_update f a vs = (\<lambda>b. if a \<le> b \<and> b < a + length vs then vs ! (b - a) else f b)"

lemma cv_update_single [simp]: "cv_update f a [v] = f(a := v)"
  by (auto simp: cv_update_def fun_eq_iff)

text \<open>What a write leaves behind: on success the new value; on an I/O error either the old or
  the new one.\<close>

definition write_outcome :: "(nat \<Rightarrow> u8) \<Rightarrow> (nat \<Rightarrow> u8) \<Rightarrow> (nat \<Rightarrow> u8) \<Rightarrow> (store_error, unit) res \<Rightarrow> bool" where
  "write_outcome old new now r \<longleftrightarrow> r = Ok () \<and> now = new \<or> r = Err Io \<and> (now = old \<or> now = new)"

lemma write_outcome_ok: "write_outcome old new now (Ok u) \<Longrightarrow> now = new"
  by (simp add: write_outcome_def)

text \<open>The address of a decoder with the given CVs.\<close>

definition addr_of_cvs :: "(nat \<Rightarrow> u8) \<Rightarrow> u16" where
  "addr_of_cvs cvs =
     (if cvs 29 AND 0x20 \<noteq> 0 then push_bit 8 (ucast (cvs 17 AND 63)) OR ucast (cvs 18) else ucast (cvs 1))"

text \<open>The address after the start: the stored one, or 3 when it was zero and the store is populated.\<close>

definition start_address :: "(nat \<Rightarrow> u8) \<Rightarrow> u16" where
  "start_address cvs = (if addr_of_cvs cvs = 0 then 3 else addr_of_cvs cvs)"

definition default_cvs :: "nat \<Rightarrow> u8" where
  "default_cvs a = DEFAULT_VALUES ! (a - 1)"

lemma default_cvs_cv: "default_cvs (cv_num c) = default_of c"
  using default_of_cv [of c] by (simp add: default_cvs_def)

lemma addr_of_default_cvs: "addr_of_cvs default_cvs = 3"
  using default_cvs_cv [of DecoderConfiguration] default_cvs_cv [of PrimaryAddress]
  by (simp add: addr_of_cvs_def)

lemma cv_num_valid [simp]: "Suc 0 \<le> cv_num c" "cv_num c \<le> 1024"
  using cv_num_range [of c] by (simp_all add: CV_SIZE_def)

locale cv_store =
  fixes so :: "'s store_ops" and cvs :: "'s \<Rightarrow> nat \<Rightarrow> u8" and wf :: "'s \<Rightarrow> bool"
  assumes read_byte: "wf s \<Longrightarrow> 1 \<le> a \<Longrightarrow> a \<le> 1024 \<Longrightarrow> op_read_byte so s a = Ok (cvs s a)"
    and read_bytes: "wf s \<Longrightarrow> 1 \<le> a \<Longrightarrow> a + n \<le> 1025 \<Longrightarrow>
      op_read_bytes so s a n = Ok (map (cvs s) [a..<a + n])"
    and write_byte: "wf s \<Longrightarrow> 1 \<le> a \<Longrightarrow> a \<le> 1024 \<Longrightarrow> op_write_byte so s a v = (s', r) \<Longrightarrow>
      wf s' \<and> write_outcome (cvs s) ((cvs s)(a := v)) (cvs s') r"
    and write_bytes: "wf s \<Longrightarrow> 1 \<le> a \<Longrightarrow> a + length vs \<le> 1025 \<Longrightarrow> op_write_bytes so s a vs force = (s', r) \<Longrightarrow>
      wf s' \<and> write_outcome (cvs s) (cv_update (cvs s) a vs) (cvs s') r"
begin

lemma read_cv [simp]: "wf s \<Longrightarrow> op_read_byte so s (cv_num c) = Ok (cvs s (cv_num c))"
  using read_byte by simp

lemma read_u16: "wf s \<Longrightarrow> 1 \<le> a \<Longrightarrow> a \<le> 1023 \<Longrightarrow>
  u16_from_store so s a = Ok (push_bit 8 (ucast (cvs s a)) OR ucast (cvs s (a + 1)))"
  by (simp add: u16_from_store_def read_bytes u16_from_be_bytes_def upt_conv_Cons del: push_bit_numeral)

lemma read_u32: "wf s \<Longrightarrow> 1 \<le> a \<Longrightarrow> a \<le> 1021 \<Longrightarrow>
  u32_from_store so s a = Ok (u32_from_be_bytes [cvs s a, cvs s (a + 1), cvs s (a + 2), cvs s (a + 3)])"
  by (simp add: u32_from_store_def read_bytes upt_conv_Cons numeral_eq_Suc)

lemma addr: "wf s \<Longrightarrow> store_addr so s = Ok (addr_of_cvs (cvs s))"
  by (simp add: store_addr_def read_byte read_bytes addr_of_cvs_def upt_conv_Cons and.commute del: push_bit_numeral)

lemma write_cv:
  assumes "wf s" "op_write_byte so s (cv_num c) v = (s', r)"
  shows "wf s'" "write_outcome (cvs s) ((cvs s)(cv_num c := v)) (cvs s') r"
  using write_byte [OF assms(1) _ _ assms(2)] by simp_all

lemma reset:
  assumes "wf s" "store_reset so s = (s', r)"
  shows "wf s'" "write_outcome (cvs s) (cv_update (cvs s) 1 DEFAULT_VALUES) (cvs s') r"
  using write_bytes [OF assms(1), of 1 DEFAULT_VALUES True s' r] assms(2)
  by (simp_all add: store_reset_def CV_SIZE_def)

lemma reset_values:
  assumes "wf s" "store_reset so s = (s', Ok ())" "1 \<le> a" "a \<le> 1024"
  shows "cvs s' a = default_cvs a"
proof -
  have "cvs s' = cv_update (cvs s) 1 DEFAULT_VALUES"
    using reset [OF assms(1,2)] by (simp add: write_outcome_def)
  then show ?thesis using assms(3,4) by (simp add: cv_update_def default_cvs_def CV_SIZE_def)
qed

lemma reset_addr:
  assumes "wf s" "store_reset so s = (s', Ok ())"
  shows "addr_of_cvs (cvs s') = 3"
proof -
  have "addr_of_cvs (cvs s') = addr_of_cvs default_cvs"
    using reset_values [OF assms] by (simp add: addr_of_cvs_def)
  then show ?thesis by (simp add: addr_of_default_cvs)
qed

lemma ensure_populated_cases:
  assumes "wf s"
  shows "ensure_populated so s = (if addr_of_cvs (cvs s) = 0 then store_reset so s else (s, Ok ()))"
  using reset(2) [OF assms, of "fst (store_reset so s)" "snd (store_reset so s)"]
  by (auto simp: ensure_populated_def addr [OF assms] st_bind_def write_outcome_def split: res.splits
      intro: prod_eqI)

lemma ensure_populated_addr:
  assumes "wf s" "ensure_populated so s = (s', Ok ())"
  shows "wf s' \<and> addr_of_cvs (cvs s') \<noteq> 0 \<and> addr_of_cvs (cvs s') = start_address (cvs s)"
proof (cases "addr_of_cvs (cvs s) = 0")
  case True
  then have r: "store_reset so s = (s', Ok ())" using assms ensure_populated_cases by simp
  then show ?thesis using True reset(1) [OF assms(1) r] reset_addr [OF assms(1) r] by (simp add: start_address_def)
next
  case False
  then show ?thesis using assms ensure_populated_cases by (simp add: start_address_def)
qed

lemma output_mask:
  assumes "wf s" "f < 32"
  shows "function_output_mask so s f d =
    Ok (Some (u32_from_be_bytes (map (\<lambda>i. cvs s (257 + unat f * 8 + (case d of Forward \<Rightarrow> 0 | Reverse \<Rightarrow> 4) + i)) [0, 1, 2, 3])))"
proof -
  have f: "unat f < 32" "\<not> 32 \<le> f" using assms(2) by (simp_all add: word_less_nat_alt not_le)
  show ?thesis
    using f read_u32 [OF assms(1), of "257 + unat f * 8"] read_u32 [OF assms(1), of "257 + unat f * 8 + 4"]
    by (cases d) (simp_all add: function_output_mask_def FUNCTION_MAP_BASE_def FUNCTION_MAP_STRIDE_def
        FUNCTION_MAP_DIR_OFFSET_def add.assoc)
qed

lemma configuration:
  assumes "wf s" "i < 8"
  shows "pwm_configuration so s i = (let b = 116 + unat i * 7 in Ok (Some
    \<lparr>pwm_wrap = push_bit 8 (ucast (cvs s b)) OR ucast (cvs s (b + 1)),
     pwm_divider = u8_saturating_add (cvs s (b + 2)) 1,
     pwm_a_level = push_bit 8 (ucast (cvs s (b + 3))) OR ucast (cvs s (b + 4)),
     pwm_b_level = push_bit 8 (ucast (cvs s (b + 5))) OR ucast (cvs s (b + 6))\<rparr>))"
proof -
  have i: "unat i < 8" using assms(2) by (simp add: word_less_nat_alt)
  let ?b = "116 + unat i * 7"
  show ?thesis
    using read_u16 [OF assms(1), of ?b] read_byte [OF assms(1), of "?b + 2"]
      read_u16 [OF assms(1), of "?b + 3"] read_u16 [OF assms(1), of "?b + 5"] i
    by (simp add: pwm_configuration_def PWM_SLICE_CONFIG_BASE_def PWM_SLICE_CONFIG_STRIDE_def Let_def
        word_le_nat_alt not_le [symmetric] add.assoc del: push_bit_numeral)
qed

end

end
