(* ===== verification/Flash_Store.thy ===== *)
theory Flash_Store
  imports Store
begin

text \<open>
  The store of the device (\<^verbatim>\<open>application/src/store/mod.rs\<close>): all CVs in a cache, every change
  written through by erasing and rewriting the flash sector. The flash driver is
  \<^verbatim>\<open>embassy_rp\<close>'s, whose three operations and erase size are parameters.
\<close>

section \<open>The flash driver\<close>

text \<open>Reading a number of bytes at an offset, erasing from one offset to another and writing at an
  offset; \<^term>\<open>None\<close> and \<^term>\<open>False\<close> are the driver's errors.\<close>

record 'f rp_flash =
  fl_read :: "'f \<Rightarrow> u32 \<Rightarrow> nat \<Rightarrow> 'f \<times> u8 list option"
  fl_erase :: "'f \<Rightarrow> u32 \<Rightarrow> u32 \<Rightarrow> 'f \<times> bool"
  fl_write :: "'f \<Rightarrow> u32 \<Rightarrow> u8 list \<Rightarrow> 'f \<times> bool"

record 'f flash =
  cv_data_start :: u32
  cv_data_end :: u32
  flash_dev :: 'f
  cache :: "u8 list"

section \<open>Opening and synchronising\<close>

definition read_cv_array_aligned ::
  "'f rp_flash \<Rightarrow> 'f \<Rightarrow> u32 \<Rightarrow> nat \<Rightarrow> 'f \<times> (store_error, u8 list) res" where
  "read_cv_array_aligned fo dev offset n =
     (case fl_read fo dev offset n of
        (dev, Some data) \<Rightarrow> (dev, Ok data)
      | (dev, None) \<Rightarrow> (dev, Err Io))"

definition read_cv_array :: "'f rp_flash \<Rightarrow> 'f \<Rightarrow> u32 \<Rightarrow> 'f \<times> (store_error, u8 list) res" where
  "read_cv_array fo dev offset = read_cv_array_aligned fo dev offset CV_SIZE"

text \<open>\<^verbatim>\<open>Flash::new\<close>; the erase size is the driver's constant.\<close>

definition flash_new ::
  "profile \<Rightarrow> nat \<Rightarrow> 'f rp_flash \<Rightarrow> 'f \<Rightarrow> u32 \<Rightarrow> (store_error, 'f flash) res" where
  "flash_new p erase_size fo dev offset =
     (let (dev, r) = read_cv_array fo dev offset in
      res_bind r (\<lambda>cache.
        res_bind (word_add p offset (of_nat (max (length cache) erase_size))) (\<lambda>e.
          Ok \<lparr>cv_data_start = offset, cv_data_end = e, flash_dev = dev, cache = cache\<rparr>)))"

definition sync_cvs :: "'f rp_flash \<Rightarrow> 'f flash \<Rightarrow> 'f flash \<times> (store_error, unit) res" where
  "sync_cvs fo s =
     (let (dev, ok) = fl_erase fo (flash_dev s) (cv_data_start s) (cv_data_end s);
          s = s\<lparr>flash_dev := dev\<rparr>
      in if \<not> ok then (s, Err Io)
         else
           let (dev, ok) = fl_write fo (flash_dev s) (cv_data_start s) (cache s);
               s = s\<lparr>flash_dev := dev\<rparr>
           in (s, if ok then Ok () else Err Io))"

section \<open>The trait methods\<close>

definition flash_read_byte :: "profile \<Rightarrow> 'f flash \<Rightarrow> usize \<Rightarrow> (store_error, u8) res" where
  "flash_read_byte p s address =
     res_bind (usize_sub p address 1) (\<lambda>i. ok_or (elem_get (cache s) i) InvalidCvAddress)"

definition flash_read_bytes :: "profile \<Rightarrow> 'f flash \<Rightarrow> usize \<Rightarrow> usize \<Rightarrow> (store_error, u8 list) res" where
  "flash_read_bytes p s start n =
     res_bind (usize_sub p start 1) (\<lambda>start_idx.
     res_bind (usize_add p start_idx n) (\<lambda>end_idx.
       ok_or (slice_get (cache s) start_idx end_idx) InvalidCvAddress))"

definition flash_write_bytes ::
  "profile \<Rightarrow> 'f rp_flash \<Rightarrow> 'f flash \<Rightarrow> usize \<Rightarrow> u8 list \<Rightarrow> bool \<Rightarrow> 'f flash \<times> (store_error, unit) res" where
  "flash_write_bytes p fo s address v force =
     (if address = 0 then (s, Err InvalidCvAddress)
      else st_bind (s, res_bind (usize_add p address (length v)) (\<lambda>e. usize_sub p e 1)) (\<lambda>s last.
        if last > length (cache s) then (s, Err InvalidCvAddress)
        else
          let start_idx = address - 1 in
          if \<not> force \<and> slice_get (cache s) start_idx (start_idx + length v) = Some v then (s, Ok ())
          else
            let s = s\<lparr>cache := take start_idx (cache s) @ v @ drop (start_idx + length v) (cache s)\<rparr>
            in sync_cvs fo s))"

definition flash_write_byte ::
  "profile \<Rightarrow> 'f rp_flash \<Rightarrow> 'f flash \<Rightarrow> usize \<Rightarrow> u8 \<Rightarrow> 'f flash \<times> (store_error, unit) res" where
  "flash_write_byte p fo s address v = flash_write_bytes p fo s address [v] False"

definition flash_store :: "profile \<Rightarrow> 'f rp_flash \<Rightarrow> 'f flash store_ops" where
  "flash_store p fo =
     \<lparr>op_read_byte = flash_read_byte p, op_read_bytes = flash_read_bytes p,
      op_write_byte = flash_write_byte p fo, op_write_bytes = flash_write_bytes p fo\<rparr>"

section \<open>The store contract holds\<close>

definition flash_cvs :: "'f flash \<Rightarrow> nat \<Rightarrow> u8" where
  "flash_cvs s a = (if 1 \<le> a \<and> a \<le> 1024 then cache s ! (a - 1) else 0)"

definition flash_wf :: "'f flash \<Rightarrow> bool" where
  "flash_wf s \<longleftrightarrow> length (cache s) = CV_SIZE"

lemma sync_cvs_fields:
  "cache (fst (sync_cvs fo s)) = cache s" "cv_data_start (fst (sync_cvs fo s)) = cv_data_start s"
  "cv_data_end (fst (sync_cvs fo s)) = cv_data_end s"
  "snd (sync_cvs fo s) = Ok () \<or> snd (sync_cvs fo s) = Err Io"
  by (auto simp: sync_cvs_def Let_def split: prod.split)

lemma flash_cvs_spliced:
  assumes "length c = CV_SIZE" "1 \<le> a" "a + length v \<le> 1025"
  shows "flash_cvs (s\<lparr>cache := take (a - 1) c @ v @ drop (a - 1 + length v) c\<rparr>)
    = cv_update (flash_cvs (s\<lparr>cache := c\<rparr>)) a v"
proof
  fix b
  have len: "length (take (a - 1) c) = a - 1" using assms by (simp add: CV_SIZE_def)
  consider "b < a" | "a \<le> b" "b < a + length v" | "a + length v \<le> b" by linarith
  then show "flash_cvs (s\<lparr>cache := take (a - 1) c @ v @ drop (a - 1 + length v) c\<rparr>) b
    = cv_update (flash_cvs (s\<lparr>cache := c\<rparr>)) a v b"
  proof cases
    case 1
    then show ?thesis using assms len by (auto simp: flash_cvs_def cv_update_def nth_append)
  next
    case 2
    then have "\<not> b - 1 < a - 1" "b - 1 - (a - 1) = b - a" "b - a < length v" using assms(2) by auto
    then show ?thesis using 2 assms len by (simp add: flash_cvs_def cv_update_def nth_append)
  next
    case 3
    then have i: "\<not> b - 1 < a - 1" "\<not> b - 1 - (a - 1) < length v"
      "a - 1 + length v + (b - 1 - (a - 1) - length v) = b - 1" using assms(2) by auto
    show ?thesis
    proof (cases "b \<le> 1024")
      case True
      then have "a - 1 + length v \<le> length c" using assms by (simp add: CV_SIZE_def)
      then show ?thesis using 3 True assms len i by (simp add: flash_cvs_def cv_update_def nth_append)
    qed (use 3 in \<open>simp add: flash_cvs_def cv_update_def\<close>)
  qed
qed

lemma flash_slice:
  assumes "flash_wf s" "1 \<le> a" "a + n \<le> 1025"
  shows "slice_get (cache s) (a - 1) (a - 1 + n) = Some (map (flash_cvs s) [a..<a + n])"
proof -
  have "slice_get (cache s) (a - 1) (a - 1 + n) = Some (map (\<lambda>i. cache s ! i) [a - 1..<a - 1 + n])"
    using assms by (intro slice_get_map_nth) (simp_all add: flash_wf_def CV_SIZE_def)
  also have "map (\<lambda>i. cache s ! i) [a - 1..<a - 1 + n] = map (flash_cvs s) [a..<a + n]"
    using assms(2,3) by (intro nth_equalityI) (auto simp: flash_cvs_def)
  finally show ?thesis .
qed

text \<open>A write either finds the value already there and does nothing, or changes the cache and
  synchronises it.\<close>

lemma flash_write_bytes_cases:
  assumes "flash_wf s" "1 \<le> a" "a + length v \<le> 1025"
  obtains "\<not> force" "map (flash_cvs s) [a..<a + length v] = v" "flash_write_bytes p fo s a v force = (s, Ok ())"
  | t where "flash_write_bytes p fo s a v force = sync_cvs fo t" "flash_wf t"
      "flash_cvs t = cv_update (flash_cvs s) a v" "flash_dev t = flash_dev s"
      "cv_data_start t = cv_data_start s" "cv_data_end t = cv_data_end s"
proof -
  let ?t = "s\<lparr>cache := take (a - 1) (cache s) @ v @ drop (a - 1 + length v) (cache s)\<rparr>"
  have len: "length (cache s) = 1024" using assms(1) by (simp add: flash_wf_def CV_SIZE_def)
  have fits: "\<not> 1024 < a + length v - Suc 0" using assms(3) by linarith
  have e: "flash_write_bytes p fo s a v force =
    (if \<not> force \<and> map (flash_cvs s) [a..<a + length v] = v then (s, Ok ()) else sync_cvs fo ?t)"
    using assms(2,3) len fits flash_slice [OF assms] by (simp add: flash_write_bytes_def Let_def)
  have "flash_wf ?t" using assms(2,3) len by (simp add: flash_wf_def CV_SIZE_def)
  moreover have "flash_cvs ?t = cv_update (flash_cvs s) a v"
    using flash_cvs_spliced [of "cache s" a v s] len assms(2,3) by (simp add: CV_SIZE_def)
  ultimately show thesis using e that by (cases "\<not> force \<and> map (flash_cvs s) [a..<a + length v] = v") auto
qed

lemma cv_update_same: "map f [a..<a + length v] = v \<Longrightarrow> cv_update f a v = f"
proof
  fix b
  assume v: "map f [a..<a + length v] = v"
  have "v ! (b - a) = f b" if "a \<le> b" "b < a + length v"
  proof -
    have "map f [a..<a + length v] ! (b - a) = f b" using that by simp
    then show ?thesis by (simp only: v)
  qed
  then show "cv_update f a v b = f b" by (simp add: cv_update_def)
qed

lemma flash_write_bytes_outcome:
  assumes "flash_wf s" "1 \<le> a" "a + length v \<le> 1025" "flash_write_bytes p fo s a v force = (s', r)"
  shows "flash_wf s' \<and> write_outcome (flash_cvs s) (cv_update (flash_cvs s) a v) (flash_cvs s') r"
proof (cases rule: flash_write_bytes_cases [OF assms(1-3), of force p fo])
  case 1
  then show ?thesis using assms(1,4) cv_update_same [OF 1(2)] by (simp add: write_outcome_def)
next
  case (2 t)
  then have "sync_cvs fo t = (s', r)" using assms(4) by simp
  then have s': "s' = fst (sync_cvs fo t)" "r = snd (sync_cvs fo t)" by simp_all
  then have "flash_wf s'" "flash_cvs s' = flash_cvs t"
    using 2(2) sync_cvs_fields(1) [of fo t] by (simp_all add: flash_wf_def flash_cvs_def fun_eq_iff)
  then show ?thesis using 2(3) sync_cvs_fields(4) [of fo t] s'(2) by (auto simp: write_outcome_def)
qed

interpretation fls: cv_store "flash_store p fo" flash_cvs flash_wf for p :: profile and fo :: "'f rp_flash"
proof
  fix s :: "'f flash" and a :: nat
  assume "flash_wf s" "1 \<le> a" "a \<le> 1024"
  then show "op_read_byte (flash_store p fo) s a = Ok (flash_cvs s a)"
    by (simp add: flash_store_def flash_read_byte_def elem_get_def flash_wf_def CV_SIZE_def flash_cvs_def)
next
  fix s :: "'f flash" and a n :: nat
  assume "flash_wf s" "1 \<le> a" "a + n \<le> 1025"
  then show "op_read_bytes (flash_store p fo) s a n = Ok (map (flash_cvs s) [a..<a + n])"
    using flash_slice [of s a n] by (simp add: flash_store_def flash_read_bytes_def)
next
  fix s s' :: "'f flash" and a :: nat and v r
  assume "flash_wf s" "1 \<le> a" "a \<le> 1024" "op_write_byte (flash_store p fo) s a v = (s', r)"
  then show "flash_wf s' \<and> write_outcome (flash_cvs s) ((flash_cvs s)(a := v)) (flash_cvs s') r"
    using flash_write_bytes_outcome [of s a "[v]" p fo False s' r]
    by (simp add: flash_store_def flash_write_byte_def)
next
  fix s s' :: "'f flash" and a :: nat and vs force r
  assume "flash_wf s" "1 \<le> a" "a + length vs \<le> 1025" "op_write_bytes (flash_store p fo) s a vs force = (s', r)"
  then show "flash_wf s' \<and> write_outcome (flash_cvs s) (cv_update (flash_cvs s) a vs) (flash_cvs s') r"
    using flash_write_bytes_outcome [of s a vs p fo force s' r] by (simp add: flash_store_def)
qed

section \<open>Properties\<close>

lemma flash_write_byte_cvs:
  assumes "flash_wf s" "1 \<le> a" "a \<le> 1024" "flash_write_byte p fo s a v = (s', r)"
  shows "flash_wf s'" "write_outcome (flash_cvs s) ((flash_cvs s)(a := v)) (flash_cvs s') r"
  using flash_write_bytes_outcome [of s a "[v]" p fo False s' r] assms by (simp_all add: flash_write_byte_def)

text \<open>What is written is what is read. A byte write that reports success makes the CV read as the
  new value and leaves every other CV as it was; the only error in range is an I/O error, and then
  every other CV is untouched too.\<close>

theorem flash_read_after_write:
  assumes "flash_wf s" "1 \<le> a" "a \<le> 1024" "flash_write_byte p fo s a v = (s', r)" "1 \<le> b" "b \<le> 1024"
  shows "flash_wf s' \<and> (r = Ok () \<or> r = Err Io)
    \<and> (r = Ok () \<longrightarrow> flash_read_byte p s' b = Ok (if b = a then v else flash_cvs s b))
    \<and> (b \<noteq> a \<longrightarrow> flash_read_byte p s' b = flash_read_byte p s b)"
proof -
  note w = flash_write_byte_cvs [OF assms(1-4)]
  have read: "flash_read_byte p t b = Ok (flash_cvs t b)" if "flash_wf t" for t :: "'a flash"
    using fls.read_byte [OF that assms(5,6), of p fo] by (simp add: flash_store_def)
  show ?thesis
    using w read assms(1) by (auto simp: write_outcome_def)
qed

text \<open>A flash that works and one whose erase fails.\<close>

definition mem_flash :: "bool \<Rightarrow> u8 list rp_flash" where
  "mem_flash works =
     \<lparr>fl_read = (\<lambda>f off n. (f, Some (take n f))),
      fl_erase = (\<lambda>f from to. (if works then replicate 4096 255 else f, works)),
      fl_write = (\<lambda>f off d. (d, True))\<rparr>"

definition blank_flash :: "u8 list flash" where
  "blank_flash = \<lparr>cv_data_start = 0x1FF000, cv_data_end = 0x200000, flash_dev = replicate 4096 0,
     cache = replicate 1024 0\<rparr>"

lemma blank_flash_simps [simp]:
  "flash_wf blank_flash" "flash_cvs blank_flash a = 0" "flash_dev blank_flash = replicate 4096 0"
  "cache blank_flash = replicate 1024 0"
  by (auto simp: flash_wf_def blank_flash_def CV_SIZE_def flash_cvs_def)

lemma flash_read_after_write_witness:
  "flash_read_byte Dev (fst (flash_write_byte Dev (mem_flash True) blank_flash 1 42)) 1 = Ok 42"
proof -
  have r: "snd (flash_write_byte Dev (mem_flash True) blank_flash 1 42) = Ok ()"
    by (simp add: flash_write_byte_def flash_write_bytes_def Let_def mem_flash_def sync_cvs_def slice_get_def)
  show ?thesis
    using flash_read_after_write [of blank_flash 1 Dev "mem_flash True" 42 _ _ 1,
        OF _ _ _ prod.collapse [symmetric]] r by simp
qed

text \<open>A flash driver is durable when a sector that was erased and written reads back; a store is in
  step with its flash when a restart would read the cache.\<close>

definition flash_durable :: "'f rp_flash \<Rightarrow> bool" where
  "flash_durable fo \<longleftrightarrow> (\<forall>f from to f1 d f2. fl_erase fo f from to = (f1, True) \<longrightarrow>
     fl_write fo f1 from d = (f2, True) \<longrightarrow> (\<exists>f3. fl_read fo f2 from (length d) = (f3, Some d)))"

definition in_step :: "'f rp_flash \<Rightarrow> 'f flash \<Rightarrow> bool" where
  "in_step fo s \<longleftrightarrow> snd (read_cv_array fo (flash_dev s) (cv_data_start s)) = Ok (cache s)"

lemma sync_in_step:
  assumes "flash_durable fo" "flash_wf s" "sync_cvs fo s = (s', Ok ())"
  shows "in_step fo s'"
proof -
  obtain f1 where f1: "fl_erase fo (flash_dev s) (cv_data_start s) (cv_data_end s) = (f1, True)"
    using assms(3) by (cases "fl_erase fo (flash_dev s) (cv_data_start s) (cv_data_end s)")
      (auto simp: sync_cvs_def Let_def split: if_splits)
  obtain f2 where f2: "fl_write fo f1 (cv_data_start s) (cache s) = (f2, True)"
    and s': "s' = s\<lparr>flash_dev := f2\<rparr>"
    using assms(3) f1 by (cases "fl_write fo f1 (cv_data_start s) (cache s)")
      (auto simp: sync_cvs_def Let_def split: if_splits)
  obtain f3 where "fl_read fo f2 (cv_data_start s) (length (cache s)) = (f3, Some (cache s))"
    using assms(1) f1 f2 unfolding flash_durable_def by blast
  then show ?thesis
    using assms(2) by (simp add: in_step_def s' read_cv_array_def read_cv_array_aligned_def flash_wf_def)
qed


lemma mem_flash_durable: "flash_durable (mem_flash True)"
  by (auto simp: flash_durable_def mem_flash_def)


text \<open>A failed write is masked by repeating it. When erasing fails, the write of a new value reports
  an I/O error but has already changed the cache; the same write again finds the value there and
  reports success without touching the flash, which never received it.\<close>

theorem flash_retry_masks_failure:
  assumes "flash_wf s" "1 \<le> a" "a \<le> 1024" "flash_cvs s a \<noteq> v"
    "fl_erase fo (flash_dev s) (cv_data_start s) (cv_data_end s) = (d, False)"
  shows "\<exists>s'. flash_write_byte p fo s a v = (s', Err Io) \<and> flash_dev s' = d
     \<and> flash_read_byte p s' a = Ok v \<and> flash_write_byte p fo s' a v = (s', Ok ())"
proof -
  have "a + length [v] \<le> 1025" using assms(3) by simp
  from flash_write_bytes_cases [OF assms(1,2) this, of False p fo]
  obtain t where t: "flash_write_byte p fo s a v = sync_cvs fo t" "flash_wf t"
    "flash_cvs t = (flash_cvs s)(a := v)" "flash_dev t = flash_dev s"
    "cv_data_start t = cv_data_start s" "cv_data_end t = cv_data_end s"
    using assms(4) by (auto simp: flash_write_byte_def)
  let ?s = "t\<lparr>flash_dev := d\<rparr>"
  have w: "flash_write_byte p fo s a v = (?s, Err Io)"
    using t assms(5) by (simp add: sync_cvs_def)
  have s: "flash_wf ?s" "flash_cvs ?s a = v"
  proof -
    show "flash_wf ?s" using t(2) by (simp add: flash_wf_def)
    have "flash_cvs ?s = flash_cvs t" by (simp add: flash_cvs_def fun_eq_iff)
    then show "flash_cvs ?s a = v" by (simp add: t(3))
  qed
  have "flash_read_byte p ?s a = Ok v"
    using fls.read_byte [OF s(1) assms(2,3), of p fo] s(2) by (simp add: flash_store_def)
  moreover have "slice_get (cache ?s) (a - 1) (a - 1 + 1) = Some [v]"
    using flash_slice [OF s(1) assms(2), of 1] assms(3) s(2) by simp
  then have "flash_write_byte p fo ?s a v = (?s, Ok ())"
    using assms(2,3) t(2) by (simp add: flash_write_byte_def flash_write_bytes_def flash_wf_def CV_SIZE_def)
  ultimately show ?thesis using w by (intro exI [of _ ?s]) simp
qed

lemma flash_retry_masks_failure_witness:
  "\<exists>s'. flash_write_byte Release (mem_flash False) blank_flash 3 5 = (s', Err Io)
     \<and> flash_write_byte Release (mem_flash False) s' 3 5 = (s', Ok ())"
  using flash_retry_masks_failure [of blank_flash 3 5 "mem_flash False" "replicate 4096 0" Release]
  by (auto simp: mem_flash_def)

text \<open>Addresses outside the CVs. Reading CV 0 underflows: it panics in a dev build, while a release
  build wraps around and reports the error, as every read above CV 1024 does. Writes that leave the
  CVs are refused without any change.\<close>

theorem flash_out_of_range:
  assumes "flash_wf s"
  shows "flash_read_byte p s 0 = (case p of Dev \<Rightarrow> Panic | Release \<Rightarrow> Err InvalidCvAddress)
    \<and> (1024 < a \<longrightarrow> flash_read_byte p s a = Err InvalidCvAddress)
    \<and> (a = 0 \<or> 1025 < a + length v \<and> a + length v < 2 ^ 32 \<longrightarrow>
      flash_write_bytes p fo s a v force = (s, Err InvalidCvAddress))"
  using assms by (auto simp: flash_read_byte_def flash_write_bytes_def usize_sub_def elem_get_def flash_wf_def
      CV_SIZE_def split: profile.split)

lemma flash_out_of_range_witness:
  "flash_read_byte Dev blank_flash 0 = Panic \<and> flash_read_byte Release blank_flash 0 = Err InvalidCvAddress
   \<and> flash_read_byte Dev blank_flash 1025 = Err InvalidCvAddress
   \<and> flash_write_bytes Dev (mem_flash True) blank_flash 1024 [1, 2] False = (blank_flash, Err InvalidCvAddress)"
  using flash_out_of_range [where s = blank_flash and p = Release and a = 1025]
    flash_out_of_range [where s = blank_flash and p = Dev and a = 1025]
    flash_out_of_range [where s = blank_flash and p = Dev and a = 1024 and v = "[1, 2]" and fo = "mem_flash True" and force = False]
  by simp

text \<open>An empty store is populated, an erased one is not. After \<^verbatim>\<open>ensure_populated\<close> has succeeded
  the address is never 0, and a store whose address was 0 holds the factory defaults. But flash that
  was erased and never written reads as 0xFF throughout, which selects the long address 16383, so
  \<^verbatim>\<open>ensure_populated\<close> leaves it as it is.\<close>

theorem flash_ensure_populated:
  assumes "flash_wf s"
  shows "(ensure_populated (flash_store p fo) s = (s', Ok ()) \<longrightarrow>
      store_addr (flash_store p fo) s' = Ok (addr_of_cvs (flash_cvs s')) \<and> addr_of_cvs (flash_cvs s') \<noteq> 0)
    \<and> (ensure_populated (flash_store p fo) s = (s', Ok ()) \<and> addr_of_cvs (flash_cvs s) = 0
      \<and> 1 \<le> a \<and> a \<le> 1024 \<longrightarrow> flash_cvs s' a = DEFAULT_VALUES ! (a - 1))
    \<and> (cache s = replicate 1024 255 \<longrightarrow>
      store_addr (flash_store p fo) s = Ok 16383 \<and> ensure_populated (flash_store p fo) s = (s, Ok ()))"
proof -
  have "store_addr (flash_store p fo) s' = Ok (addr_of_cvs (flash_cvs s')) \<and> addr_of_cvs (flash_cvs s') \<noteq> 0"
    if "ensure_populated (flash_store p fo) s = (s', Ok ())"
    using fls.ensure_populated_addr [OF assms that] fls.addr by blast
  moreover have "flash_cvs s' a = DEFAULT_VALUES ! (a - 1)"
    if "ensure_populated (flash_store p fo) s = (s', Ok ())" "addr_of_cvs (flash_cvs s) = 0" "1 \<le> a" "a \<le> 1024"
  proof -
    have "store_reset (flash_store p fo) s = (s', Ok ())"
      using fls.ensure_populated_cases [OF assms, of p fo] that(1,2) by simp
    from fls.reset_values [OF assms this that(3,4)] show ?thesis by (simp add: default_cvs_def)
  qed
  moreover have "store_addr (flash_store p fo) s = Ok 16383 \<and> ensure_populated (flash_store p fo) s = (s, Ok ())"
    if "cache s = replicate 1024 255"
  proof -
    have "addr_of_cvs (flash_cvs s) = 16383" by (simp add: addr_of_cvs_def flash_cvs_def that)
    then show ?thesis
      using fls.addr [OF assms, of p fo] fls.ensure_populated_cases [OF assms, of p fo] by simp
  qed
  ultimately show ?thesis by blast
qed

lemma flash_ensure_populated_witness:
  "store_addr (flash_store Dev (mem_flash True)) (blank_flash\<lparr>cache := replicate 1024 255\<rparr>) = Ok 16383"
proof -
  have "flash_wf (blank_flash\<lparr>cache := replicate 1024 255\<rparr>)" by (simp add: flash_wf_def CV_SIZE_def)
  then show ?thesis using flash_ensure_populated [of "blank_flash\<lparr>cache := replicate 1024 255\<rparr>"] by simp
qed

end
