(* ===== verification/Function_Outputs.thy ===== *)
theory Function_Outputs
  imports Function_Flags Flash_Store
begin

text \<open>
  The function outputs (\<^verbatim>\<open>application/src/functions/handler.rs\<close>): ten pins, each a GPIO or a PWM
  output, switched by the active functions of the decoder through an output map per direction.
  The embassy drivers of the pins are parameters.
\<close>

section \<open>Pins\<close>

text \<open>Setting up a pin or a pair of PWM channels and switching them. \<^verbatim>\<open>set_duty_cycle\<close> may fail; the
  handler ignores its result.\<close>

record 'w pin_hw =
  ph_gpio_low :: "u8 \<Rightarrow> 'w \<Rightarrow> 'w"
  ph_pwm_init :: "u8 \<Rightarrow> u8 list \<Rightarrow> u16 \<Rightarrow> u16 \<Rightarrow> 'w \<Rightarrow> 'w"
  ph_set_level :: "u8 \<Rightarrow> bool \<Rightarrow> 'w \<Rightarrow> 'w"
  ph_set_duty :: "u8 \<Rightarrow> u16 \<Rightarrow> 'w \<Rightarrow> 'w \<times> (unit, unit) res"

datatype output_impl = Gpio | PwmOut

record output_driver =
  od_pin :: u8
  od_pwm_level :: u16
  od_inner :: output_impl

definition from_gpio :: "u8 \<Rightarrow> output_driver" where
  "from_gpio pin = \<lparr>od_pin = pin, od_pwm_level = 0, od_inner = Gpio\<rparr>"

definition from_pwm :: "u8 \<Rightarrow> u16 \<Rightarrow> output_driver" where
  "from_pwm pin lvl = \<lparr>od_pin = pin, od_pwm_level = lvl, od_inner = PwmOut\<rparr>"

definition impl_set_on :: "'w pin_hw \<Rightarrow> output_driver \<Rightarrow> u16 \<Rightarrow> 'w \<Rightarrow> 'w" where
  "impl_set_on hw drv lvl w = (case od_inner drv of
     Gpio \<Rightarrow> ph_set_level hw (od_pin drv) True w | PwmOut \<Rightarrow> fst (ph_set_duty hw (od_pin drv) lvl w))"

definition impl_set_off :: "'w pin_hw \<Rightarrow> output_driver \<Rightarrow> 'w \<Rightarrow> 'w" where
  "impl_set_off hw drv w = (case od_inner drv of
     Gpio \<Rightarrow> ph_set_level hw (od_pin drv) False w | PwmOut \<Rightarrow> fst (ph_set_duty hw (od_pin drv) 0 w))"

definition driver_set_on :: "'w pin_hw \<Rightarrow> output_driver \<Rightarrow> 'w \<Rightarrow> 'w" where
  "driver_set_on hw drv w = impl_set_on hw drv (od_pwm_level drv) w"

definition driver_set_off :: "'w pin_hw \<Rightarrow> output_driver \<Rightarrow> 'w \<Rightarrow> 'w" where
  "driver_set_off hw drv w = impl_set_off hw drv w"

section \<open>The handler\<close>

record outputs_config =
  function_map_forward :: "u32 list"
  function_map_reverse :: "u32 list"

text \<open>The ten drivers, in the order in which they are updated, and the pins behind them.\<close>

record 'w outputs =
  fo_config :: outputs_config
  fo_direction :: direction
  fo_flags :: function_group_flags
  fo_drivers :: "output_driver list"
  fo_world :: 'w

definition outputs_new :: "outputs_config \<Rightarrow> output_driver list \<Rightarrow> 'w \<Rightarrow> 'w outputs" where
  "outputs_new c ds w = \<lparr>fo_config = c, fo_direction = Forward, fo_flags = 0, fo_drivers = ds, fo_world = w\<rparr>"

definition output_map :: "'w outputs \<Rightarrow> u32 list" where
  "output_map h = (case fo_direction h of
     Forward \<Rightarrow> function_map_forward (fo_config h) | Reverse \<Rightarrow> function_map_reverse (fo_config h))"

definition outputs_mask :: "function_group_flags \<Rightarrow> u32 list \<Rightarrow> u32" where
  "outputs_mask flags fmap =
     foldl (\<lambda>m (func_idx, enabled_outputs). if flags AND push_bit func_idx 1 \<noteq> 0 then m OR enabled_outputs else m)
       0 (take 32 (enumerate 0 fmap))"

definition update_outputs :: "'w pin_hw \<Rightarrow> 'w outputs \<Rightarrow> 'w outputs" where
  "update_outputs hw h =
     (let m = outputs_mask (fo_flags h) (output_map h) in
      h\<lparr>fo_world := foldl (\<lambda>w drv.
          if m AND push_bit (unat (od_pin drv)) 1 \<noteq> 0 then driver_set_on hw drv w else driver_set_off hw drv w)
        (fo_world h) (fo_drivers h)\<rparr>)"

definition outputs_handle :: "'w pin_hw \<Rightarrow> function_group \<Rightarrow> 'w outputs \<Rightarrow> 'w outputs" where
  "outputs_handle hw fg h =
     (let old = fo_flags h;
          h = h\<lparr>fo_flags := union_with_mask fg (fo_flags h)\<rparr>
      in if fo_flags h \<noteq> old then update_outputs hw h else h)"

definition outputs_set_direction :: "'w pin_hw \<Rightarrow> direction \<Rightarrow> 'w outputs \<Rightarrow> 'w outputs" where
  "outputs_set_direction hw d h =
     (if fo_direction h \<noteq> d then update_outputs hw (h\<lparr>fo_direction := d\<rparr>) else h)"

section \<open>Construction from the store\<close>

text \<open>\<^verbatim>\<open>build_slice_outputs\<close>: the configuration of the slice is read in any case.\<close>

definition build_slice_outputs ::
  "'w pin_hw \<Rightarrow> u32 \<Rightarrow> u8 \<Rightarrow> u8 \<Rightarrow> u8 \<Rightarrow> 's store_ops \<Rightarrow> 's \<Rightarrow> 'w \<Rightarrow> 'w \<times> (unit, output_driver list) res" where
  "build_slice_outputs hw enabled sl num_a num_b so s w =
     (let pwm_a = enabled AND push_bit (unat num_a) 1 \<noteq> 0;
          pwm_b = enabled AND push_bit (unat num_b) 1 \<noteq> 0
      in st_bind (w, unwrap (res_bind (pwm_configuration so s sl) (\<lambda>c. ok_or c Io))) (\<lambda>w cfg.
        if pwm_a \<and> pwm_b then
          (ph_pwm_init hw sl [num_a, num_b] (pwm_wrap cfg) (ucast (pwm_divider cfg)) w,
           Ok [from_pwm num_a (pwm_a_level cfg), from_pwm num_b (pwm_b_level cfg)])
        else if pwm_a then
          (ph_gpio_low hw num_b (ph_pwm_init hw sl [num_a] (pwm_wrap cfg) (ucast (pwm_divider cfg)) w),
           Ok [from_pwm num_a (pwm_a_level cfg), from_gpio num_b])
        else if pwm_b then
          (ph_gpio_low hw num_a (ph_pwm_init hw sl [num_b] (pwm_wrap cfg) (ucast (pwm_divider cfg)) w),
           Ok [from_gpio num_a, from_pwm num_b (pwm_b_level cfg)])
        else (ph_gpio_low hw num_b (ph_gpio_low hw num_a w), Ok [from_gpio num_a, from_gpio num_b])))"

text \<open>\<^verbatim>\<open>core::array::from_fn\<close> over the 32 functions.\<close>

fun output_masks :: "'s store_ops \<Rightarrow> 's \<Rightarrow> direction \<Rightarrow> nat list \<Rightarrow> (unit, u32 list) res" where
  "output_masks so s d [] = Ok []"
| "output_masks so s d (i # js) =
     res_bind (unwrap (res_bind (function_output_mask so s (of_nat i) d) (\<lambda>m. ok_or m Io))) (\<lambda>m.
     res_bind (output_masks so s d js) (\<lambda>ms. Ok (m # ms)))"

text \<open>The pins and PWM slices that \<^verbatim>\<open>main.rs\<close> assigns to the outputs.\<close>

definition output_slices :: "(u8 \<times> u8 \<times> u8) list" where
  "output_slices = [(0, 0, 1), (1, 2, 3), (2, 4, 5), (4, 24, 25), (5, 26, 27)]"

fun build_outputs ::
  "'w pin_hw \<Rightarrow> u32 \<Rightarrow> (u8 \<times> u8 \<times> u8) list \<Rightarrow> 's store_ops \<Rightarrow> 's \<Rightarrow> 'w \<Rightarrow> 'w \<times> (unit, output_driver list) res" where
  "build_outputs hw m [] so s w = (w, Ok [])"
| "build_outputs hw m ((sl, a, b) # rest) so s w =
     st_bind (build_slice_outputs hw m sl a b so s w) (\<lambda>w ds.
     st_bind (build_outputs hw m rest so s w) (\<lambda>w ds'. (w, Ok (ds @ ds'))))"

definition new_handler :: "'w pin_hw \<Rightarrow> 's store_ops \<Rightarrow> 's \<Rightarrow> 'w \<Rightarrow> 'w \<times> (unit, 'w outputs) res" where
  "new_handler hw so s w =
     st_bind (w, unwrap (pwm_enabled_mask so s)) (\<lambda>w m.
     st_bind (w, output_masks so s Forward [0..<32]) (\<lambda>w fwd.
     st_bind (w, output_masks so s Reverse [0..<32]) (\<lambda>w rev.
     st_bind (build_outputs hw m output_slices so s w) (\<lambda>w ds.
       (w, Ok (outputs_new \<lparr>function_map_forward = fwd, function_map_reverse = rev\<rparr> ds w))))))"

section \<open>Specification: the set of active functions\<close>

datatype pin_state = Low | High | Duty u16

text \<open>What the drivers promise: they switch their own pin and no other, and a PWM channel takes a duty
  up to the top of its slice and otherwise stays as it is.\<close>

definition pin_hw_ok :: "'w pin_hw \<Rightarrow> ('w \<Rightarrow> u8 \<Rightarrow> pin_state) \<Rightarrow> (u8 \<Rightarrow> u16) \<Rightarrow> bool" where
  "pin_hw_ok hw out limit \<longleftrightarrow>
     (\<forall>p b w. out (ph_set_level hw p b w) = (out w)(p := if b then High else Low))
   \<and> (\<forall>p v w. out (fst (ph_set_duty hw p v w)) = (if v \<le> limit p then (out w)(p := Duty v) else out w))"

definition on_state :: "output_driver \<Rightarrow> pin_state" where
  "on_state drv = (case od_inner drv of Gpio \<Rightarrow> High | PwmOut \<Rightarrow> Duty (od_pwm_level drv))"

definition off_state :: "output_driver \<Rightarrow> pin_state" where
  "off_state drv = (case od_inner drv of Gpio \<Rightarrow> Low | PwmOut \<Rightarrow> Duty 0)"

text \<open>Ten different pins of the chip, with PWM levels their slices can produce.\<close>

definition drivers_ok :: "(u8 \<Rightarrow> u16) \<Rightarrow> output_driver list \<Rightarrow> bool" where
  "drivers_ok limit ds \<longleftrightarrow> distinct (map od_pin ds)
     \<and> (\<forall>drv \<in> set ds. unat (od_pin drv) < 32 \<and> od_pwm_level drv \<le> limit (od_pin drv))"

text \<open>A pin is wanted on when some active function is mapped to it.\<close>

definition wanted :: "nat set \<Rightarrow> u32 list \<Rightarrow> nat \<Rightarrow> bool" where
  "wanted funcs fmap pin \<longleftrightarrow> (\<exists>f < 32. f \<in> funcs \<and> f < length fmap \<and> bit (fmap ! f) pin)"

text \<open>The mask holds exactly the wanted pins.\<close>

lemma foldl_mask_bit:
  "bit (foldl (\<lambda>m (i, e). if P i then m OR e else m) a xs) n \<longleftrightarrow> bit a n \<or> (\<exists>(i, e) \<in> set xs. P i \<and> bit e n)"
  for a :: u32
proof (induction xs arbitrary: a)
  case (Cons x xs)
  then show ?case by (cases x; cases "P (fst x)") (auto simp: bit_or_iff)
qed simp

lemma outputs_mask_bit:
  "bit (outputs_mask flags fmap) n \<longleftrightarrow> wanted (active flags) fmap n"
proof -
  have e: "(i, e) \<in> set (take 32 (enumerate 0 fmap)) \<longleftrightarrow> i < 32 \<and> i < length fmap \<and> e = fmap ! i" for i e
    by (auto simp: in_set_conv_nth nth_enumerate_eq)
  have "bit (outputs_mask flags fmap) n \<longleftrightarrow>
      (\<exists>(i, e) \<in> set (take 32 (enumerate 0 fmap)). flags AND push_bit i 1 \<noteq> 0 \<and> bit e n)"
    unfolding outputs_mask_def foldl_mask_bit by simp
  also have "\<dots> \<longleftrightarrow> (\<exists>i < 32. i < length fmap \<and> bit flags i \<and> bit (fmap ! i) n)"
    unfolding bit_iff_and_push_bit_not_eq_0 [symmetric] by (auto simp: e Bex_def)
  finally show ?thesis by (auto simp: wanted_def active_def)
qed

lemma driver_states:
  assumes "pin_hw_ok hw out limit" "od_pwm_level drv \<le> limit (od_pin drv)"
  shows "out (driver_set_on hw drv w) = (out w)(od_pin drv := on_state drv)"
    and "out (driver_set_off hw drv w) = (out w)(od_pin drv := off_state drv)"
  using assms unfolding pin_hw_ok_def driver_set_on_def driver_set_off_def impl_set_on_def impl_set_off_def
    on_state_def off_state_def
  by (cases "od_inner drv"; simp)+

definition shows_state :: "('w \<Rightarrow> u8 \<Rightarrow> pin_state) \<Rightarrow> (nat \<Rightarrow> bool) \<Rightarrow> 'w \<Rightarrow> output_driver \<Rightarrow> bool" where
  "shows_state out on w drv \<longleftrightarrow> out w (od_pin drv) = (if on (unat (od_pin drv)) then on_state drv else off_state drv)"

lemma foldl_drivers:
  fixes on :: "nat \<Rightarrow> bool"
  assumes "pin_hw_ok hw out limit" "drivers_ok limit ds"
  defines "step \<equiv> \<lambda>w drv. if on (unat (od_pin drv)) then driver_set_on hw drv w else driver_set_off hw drv w"
  shows "\<forall>drv \<in> set ds. shows_state out on (foldl step w ds) drv"
    and "p \<notin> od_pin ` set ds \<Longrightarrow> out (foldl step w ds) p = out w p"
proof -
  have "(\<forall>drv \<in> set ds. shows_state out on (foldl step w ds) drv)
    \<and> (\<forall>p. p \<notin> od_pin ` set ds \<longrightarrow> out (foldl step w ds) p = out w p)"
    using assms(2)
  proof (induction ds rule: rev_induct)
    case (snoc drv ds)
    let ?w = "foldl step w ds"
    have ih: "\<forall>d \<in> set ds. shows_state out on ?w d" "\<And>p. p \<notin> od_pin ` set ds \<Longrightarrow> out ?w p = out w p"
      using snoc by (auto simp: drivers_ok_def)
    have l: "od_pwm_level drv \<le> limit (od_pin drv)" using snoc.prems by (simp add: drivers_ok_def)
    have o: "out (step ?w drv) = (out ?w)(od_pin drv := if on (unat (od_pin drv)) then on_state drv else off_state drv)"
      using driver_states [OF assms(1) l] by (simp add: step_def)
    have "od_pin d \<noteq> od_pin drv" if "d \<in> set ds" for d
      using snoc.prems that by (auto simp: drivers_ok_def dest: image_eqI [OF sym])
    then show ?case using ih o by (auto simp: shows_state_def)
  qed simp
  then show "\<forall>drv \<in> set ds. shows_state out on (foldl step w ds) drv"
    "p \<notin> od_pin ` set ds \<Longrightarrow> out (foldl step w ds) p = out w p" by blast+
qed

section \<open>The outputs follow the active functions\<close>

definition in_sync :: "('w \<Rightarrow> u8 \<Rightarrow> pin_state) \<Rightarrow> (u8 \<Rightarrow> u16) \<Rightarrow> 'w outputs \<Rightarrow> bool" where
  "in_sync out limit h \<longleftrightarrow> drivers_ok limit (fo_drivers h)
     \<and> (\<forall>drv \<in> set (fo_drivers h). shows_state out (wanted (active (fo_flags h)) (output_map h)) (fo_world h) drv)"

lemma output_map_world [simp]: "output_map (h\<lparr>fo_world := w\<rparr>) = output_map h"
  by (cases "fo_direction h") (simp_all add: output_map_def)

lemma update_outputs_frame [simp]:
  "fo_flags (update_outputs hw h) = fo_flags h" "fo_direction (update_outputs hw h) = fo_direction h"
  "fo_config (update_outputs hw h) = fo_config h" "fo_drivers (update_outputs hw h) = fo_drivers h"
  by (simp_all add: update_outputs_def Let_def)

lemma update_outputs_in_sync:
  assumes "pin_hw_ok hw out limit" "drivers_ok limit (fo_drivers h)"
  shows "in_sync out limit (update_outputs hw h)"
proof -
  let ?on = "wanted (active (fo_flags h)) (output_map h)"
  have "update_outputs hw h = h\<lparr>fo_world := foldl (\<lambda>w drv. if ?on (unat (od_pin drv)) then driver_set_on hw drv w
      else driver_set_off hw drv w) (fo_world h) (fo_drivers h)\<rparr>"
    unfolding update_outputs_def Let_def bit_iff_and_push_bit_not_eq_0 [symmetric] outputs_mask_bit ..
  then show ?thesis
    using foldl_drivers(1) [OF assms, of ?on "fo_world h"] assms(2) by (simp add: in_sync_def)
qed

datatype output_event = SetFunctions function_group | SetDirection direction

definition output_step :: "'w pin_hw \<Rightarrow> output_event \<Rightarrow> 'w outputs \<Rightarrow> 'w outputs" where
  "output_step hw e h = (case e of SetFunctions fg \<Rightarrow> outputs_handle hw fg h | SetDirection d \<Rightarrow> outputs_set_direction hw d h)"

text \<open>The specification: a set of active functions and a direction.\<close>

fun spec_step :: "output_event \<Rightarrow> nat set \<times> direction \<Rightarrow> nat set \<times> direction" where
  "spec_step (SetFunctions fg) (funcs, d) = ((funcs - active (group_mask fg)) \<union> active (fg_flags fg), d)"
| "spec_step (SetDirection d') (funcs, d) = (funcs, d')"

definition abs_outputs :: "'w outputs \<Rightarrow> nat set \<times> direction" where
  "abs_outputs h = (active (fo_flags h), fo_direction h)"

lemma output_step_abs: "abs_outputs (output_step hw e h) = spec_step e (abs_outputs h)"
proof (cases e)
  case (SetFunctions fg)
  then show ?thesis
    using active_union_with_mask [of fg "fo_flags h"]
    by (cases "union_with_mask fg (fo_flags h) = fo_flags h")
      (simp_all add: output_step_def abs_outputs_def outputs_handle_def Let_def)
next
  case (SetDirection d)
  then show ?thesis by (simp add: output_step_def abs_outputs_def outputs_set_direction_def)
qed

lemma output_step_frame [simp]:
  "fo_config (output_step hw e h) = fo_config h" "fo_drivers (output_step hw e h) = fo_drivers h"
  by (cases e; simp add: output_step_def outputs_handle_def outputs_set_direction_def Let_def)+

lemma output_step_in_sync:
  assumes hw: "pin_hw_ok hw out limit" and h: "in_sync out limit h"
  shows "in_sync out limit (output_step hw e h)"
proof -
  have d: "drivers_ok limit (fo_drivers h)" using h by (simp add: in_sync_def)
  show ?thesis
  proof (cases e)
    case (SetFunctions fg)
    then show ?thesis
      using h d update_outputs_in_sync [OF hw, of "h\<lparr>fo_flags := union_with_mask fg (fo_flags h)\<rparr>"]
      by (simp add: output_step_def outputs_handle_def Let_def)
  next
    case (SetDirection d')
    then show ?thesis
      using h d update_outputs_in_sync [OF hw, of "h\<lparr>fo_direction := d'\<rparr>"]
      by (simp add: output_step_def outputs_set_direction_def)
  qed
qed

definition outputs_run :: "'w pin_hw \<Rightarrow> output_event list \<Rightarrow> 'w outputs \<Rightarrow> 'w outputs" where
  "outputs_run hw es h = fold (output_step hw) es h"

lemma outputs_run_abs: "abs_outputs (outputs_run hw es h) = fold spec_step es (abs_outputs h)"
  by (induction es arbitrary: h) (simp_all add: outputs_run_def output_step_abs)

lemma outputs_run_frame [simp]:
  "fo_config (outputs_run hw es h) = fo_config h" "fo_drivers (outputs_run hw es h) = fo_drivers h"
  by (induction es arbitrary: h) (simp_all add: outputs_run_def)

lemma outputs_run_in_sync:
  "pin_hw_ok hw out limit \<Longrightarrow> in_sync out limit h \<Longrightarrow> in_sync out limit (outputs_run hw es h)"
  by (induction es arbitrary: h) (simp_all add: outputs_run_def output_step_in_sync)

text \<open>The state of an output according to the specification.\<close>

definition spec_output :: "outputs_config \<Rightarrow> nat set \<times> direction \<Rightarrow> output_driver \<Rightarrow> pin_state" where
  "spec_output c = (\<lambda>(funcs, d) drv.
     if wanted funcs (case d of Forward \<Rightarrow> function_map_forward c | Reverse \<Rightarrow> function_map_reverse c)
          (unat (od_pin drv))
     then on_state drv else off_state drv)"

lemma in_sync_spec_output:
  "in_sync out limit h \<Longrightarrow> drv \<in> set (fo_drivers h) \<Longrightarrow>
    out (fo_world h) (od_pin drv) = spec_output (fo_config h) (abs_outputs h) drv"
  by (simp add: in_sync_def shows_state_def spec_output_def abs_outputs_def output_map_def)

lemma outputs_new_in_sync:
  "drivers_ok limit ds \<Longrightarrow> \<forall>drv \<in> set ds. out w (od_pin drv) = off_state drv \<Longrightarrow>
    in_sync out limit (outputs_new c ds w)"
  by (simp add: in_sync_def outputs_new_def shows_state_def wanted_def)

text \<open>C24: From a handler whose outputs are off, after any sequence of function-group commands and
  direction changes, the handler's flags and direction are those of the specification (a set of
  active functions, edited group by group, and the last direction), and every one of its outputs is
  on, high or at its PWM level, exactly when an active function is mapped to it in the current
  direction, and off otherwise: an update that is skipped never leaves an output behind.\<close>

theorem outputs_follow_functions:
  assumes "pin_hw_ok hw out limit" "drivers_ok limit ds"
    and "\<forall>drv \<in> set ds. out w (od_pin drv) = off_state drv"
  shows "abs_outputs (outputs_run hw es (outputs_new c ds w)) = fold spec_step es ({}, Forward) \<and>
    (\<forall>drv \<in> set ds. out (fo_world (outputs_run hw es (outputs_new c ds w))) (od_pin drv)
       = spec_output c (fold spec_step es ({}, Forward)) drv)"
proof -
  let ?h = "outputs_new c ds w"
  have a: "abs_outputs (outputs_run hw es ?h) = fold spec_step es ({}, Forward)"
    by (simp add: outputs_run_abs) (simp add: abs_outputs_def outputs_new_def)
  have "in_sync out limit (outputs_run hw es ?h)"
    by (rule outputs_run_in_sync [OF assms(1) outputs_new_in_sync [of limit ds out, OF assms(2,3)]])
  from in_sync_spec_output [OF this] show ?thesis
    by (simp add: a) (simp add: outputs_new_def)
qed

text \<open>A concrete set of pins: the world is the state of every pin, and PWM slices count to 255.\<close>

definition bench_hw :: "(u8 \<Rightarrow> pin_state) pin_hw" where
  "bench_hw = \<lparr>ph_gpio_low = \<lambda>p w. w(p := Low), ph_pwm_init = \<lambda>sl ps wrap dv w. foldl (\<lambda>w p. w(p := Duty 0)) w ps,
     ph_set_level = \<lambda>p b w. w(p := if b then High else Low),
     ph_set_duty = \<lambda>p v w. if v \<le> 255 then (w(p := Duty v), Ok ()) else (w, Err ())\<rparr>"

lemma bench_hw_ok: "pin_hw_ok bench_hw (\<lambda>w. w) (\<lambda>p. 255)"
  by (simp add: pin_hw_ok_def bench_hw_def)

lemma outputs_follow_functions_witness:
  "\<exists>h :: (u8 \<Rightarrow> pin_state) outputs. h = outputs_run bench_hw
      [SetFunctions (fg_new FG_1 (func_flag 0)), SetDirection Reverse]
      (outputs_new \<lparr>function_map_forward = [1], function_map_reverse = [2]\<rparr> [from_gpio 0, from_pwm 1 200]
        ((\<lambda>_. Low)(1 := Duty 0)))
    \<and> fo_world h 0 = Low \<and> fo_world h 1 = Duty 200"
proof -
  let ?es = "[SetFunctions (fg_new FG_1 (func_flag 0)), SetDirection Reverse]"
  let ?c = "\<lparr>function_map_forward = [1], function_map_reverse = [2 :: u32]\<rparr>"
  let ?ds = "[from_gpio 0, from_pwm 1 200]"
  have s: "fold spec_step ?es ({}, Forward) = ({0}, Reverse)"
    by (simp add: fg_new_def active_groups)
  have w: "wanted {0} [2 :: u32] (unat (1 :: u8))" "\<not> wanted {0} [2 :: u32] (unat (0 :: u8))"
    by (simp_all add: wanted_def)
  have "drivers_ok (\<lambda>p. 255) ?ds" by (simp add: drivers_ok_def from_gpio_def from_pwm_def)
  from outputs_follow_functions [OF bench_hw_ok this, of "(\<lambda>_. Low)(1 := Duty 0)" ?es ?c] show ?thesis
    using w by (simp only: s) (simp add: from_gpio_def from_pwm_def off_state_def on_state_def spec_output_def)
qed

section \<open>The handler built from a store\<close>

text \<open>The driver of a pin and the output map that the CVs describe.\<close>

definition cv_driver :: "u32 \<Rightarrow> u8 \<Rightarrow> u16 \<Rightarrow> output_driver" where
  "cv_driver m pin lvl = (if bit m (unat pin) then from_pwm pin lvl else from_gpio pin)"

definition cv_u16 :: "(nat \<Rightarrow> u8) \<Rightarrow> nat \<Rightarrow> u16" where
  "cv_u16 cvs a = push_bit 8 (ucast (cvs a)) OR ucast (cvs (a + 1))"

definition cv_u32 :: "(nat \<Rightarrow> u8) \<Rightarrow> nat \<Rightarrow> u32" where
  "cv_u32 cvs a = u32_from_be_bytes (map (\<lambda>i. cvs (a + i)) [0, 1, 2, 3])"

definition cv_output_map :: "(nat \<Rightarrow> u8) \<Rightarrow> direction \<Rightarrow> u32 list" where
  "cv_output_map cvs d = map (\<lambda>f. cv_u32 cvs (257 + f * 8 + (case d of Forward \<Rightarrow> 0 | Reverse \<Rightarrow> 4))) [0..<32]"

definition cv_drivers :: "(nat \<Rightarrow> u8) \<Rightarrow> u32 \<Rightarrow> (u8 \<times> u8 \<times> u8) list \<Rightarrow> output_driver list" where
  "cv_drivers cvs m sls = concat (map (\<lambda>(sl, a, b). let base = 116 + unat sl * 7 in
     [cv_driver m a (cv_u16 cvs (base + 3)), cv_driver m b (cv_u16 cvs (base + 5))]) sls)"

context cv_store
begin

lemma output_masks_cvs:
  "wf s \<Longrightarrow> \<forall>i \<in> set js. i < 32 \<Longrightarrow> output_masks so s d js =
    Ok (map (\<lambda>f. cv_u32 (cvs s) (257 + f * 8 + (case d of Forward \<Rightarrow> 0 | Reverse \<Rightarrow> 4))) js)"
proof (induction js)
  case (Cons i js)
  have u: "unat (of_nat i :: u8) = i" using Cons.prems(2) by (simp add: unat_of_nat)
  have "(of_nat i :: u8) < 32" using Cons.prems(2) u by (simp add: word_less_nat_alt)
  from output_mask [OF Cons.prems(1) this, of d] Cons show ?case by (simp add: u cv_u32_def)
qed simp

lemma build_slice_cvs:
  "wf s \<Longrightarrow> sl < 8 \<Longrightarrow> snd (build_slice_outputs hw m sl a b so s w) = Ok (cv_drivers (cvs s) m [(sl, a, b)])"
  using configuration [of s sl]
  unfolding build_slice_outputs_def Let_def bit_iff_and_push_bit_not_eq_0 [symmetric]
  by (simp add: cv_drivers_def cv_driver_def cv_u16_def Let_def del: push_bit_numeral)

lemma build_outputs_cvs:
  "wf s \<Longrightarrow> \<forall>(sl, a, b) \<in> set sls. sl < 8 \<Longrightarrow>
    snd (build_outputs hw m sls so s w) = Ok (cv_drivers (cvs s) m sls)"
proof (induction sls arbitrary: w)
  case (Cons x sls)
  obtain sl a b where x: "x = (sl, a, b)" by (metis surj_pair)
  obtain w' r where e: "build_slice_outputs hw m sl a b so s w = (w', r)" by fastforce
  then have r: "r = Ok (cv_drivers (cvs s) m [(sl, a, b)])"
    using build_slice_cvs [OF Cons.prems(1), of sl hw m a b w] Cons.prems(2) by (simp add: x)
  have "snd (build_outputs hw m sls so s w') = Ok (cv_drivers (cvs s) m sls)" using Cons by simp
  then show ?case
    by (cases "build_outputs hw m sls so s w'") (simp add: x e r cv_drivers_def)
qed (simp add: cv_drivers_def)

lemma new_handler_cvs:
  assumes "wf s"
  shows "\<exists>w'. new_handler hw so s w = (w', Ok (outputs_new
      \<lparr>function_map_forward = cv_output_map (cvs s) Forward, function_map_reverse = cv_output_map (cvs s) Reverse\<rparr>
      (cv_drivers (cvs s) (cv_u32 (cvs s) (cv_num EnablePwmOutputMask)) output_slices) w'))"
proof -
  let ?m = "cv_u32 (cvs s) (cv_num EnablePwmOutputMask)"
  have m: "pwm_enabled_mask so s = Ok ?m"
    using read_u32 [OF assms, of "cv_num EnablePwmOutputMask"]
    by (simp add: pwm_enabled_mask_def cv_u32_def)
  have "\<forall>(sl, a, b) \<in> set output_slices. sl < 8" by (simp add: output_slices_def)
  from build_outputs_cvs [OF assms this] obtain w' where
    "build_outputs hw ?m output_slices so s w = (w', Ok (cv_drivers (cvs s) ?m output_slices))"
    by (metis prod.collapse)
  then show ?thesis
    using assms by (simp add: new_handler_def m output_masks_cvs cv_output_map_def)
qed

end

text \<open>C34: On every well-formed flash store the construction of the handler never panics: its two output
  maps are the 32-bit CVs of the functions in each direction, and its drivers are the ten pins of
  the board in order, each a PWM output at the level its slice's CVs give exactly when the pin's bit
  is set in the enable mask, and a GPIO output otherwise.\<close>

theorem new_handler_reads_cvs:
  assumes "flash_wf s"
  shows "\<exists>w'. new_handler hw (flash_store p fo) s w = (w', Ok (outputs_new
      \<lparr>function_map_forward = cv_output_map (flash_cvs s) Forward, function_map_reverse = cv_output_map (flash_cvs s) Reverse\<rparr>
      (cv_drivers (flash_cvs s) (cv_u32 (flash_cvs s) (cv_num EnablePwmOutputMask)) output_slices) w'))"
  by (rule fls.new_handler_cvs [OF assms])

lemma new_handler_reads_cvs_witness:
  "\<exists>w' h. new_handler bench_hw (flash_store Dev (mem_flash True)) blank_flash (\<lambda>_. Low) = (w', Ok h)
    \<and> fo_drivers h = map from_gpio [0, 1, 2, 3, 4, 5, 24, 25, 26, 27]"
proof -
  have z: "cv_u32 (flash_cvs blank_flash) a = 0" for a
    by (simp add: cv_u32_def u32_from_be_bytes_def)
  have "cv_drivers (flash_cvs blank_flash) 0 output_slices = map from_gpio [0, 1, 2, 3, 4, 5, 24, 25, 26, 27]"
    by (simp add: cv_drivers_def output_slices_def cv_driver_def Let_def)
  then show ?thesis
    using new_handler_reads_cvs [OF blank_flash_simps(1), of bench_hw Dev "mem_flash True" "\<lambda>_. Low"]
    by (auto simp: z outputs_new_def)
qed

end
