(* ===== verification/Handler.thy ===== *)
theory Handler
  imports Timers Flash_Store
begin

text \<open>
  The packet handler (\<^verbatim>\<open>dcc/src/handler.rs\<close>): the decision what a packet asks for, the entry
  into service mode, and the service-mode instructions that read and write CVs. It is generic in
  the timer and the store, which are dictionaries here; the laws it relies on are those of
  \<^verbatim>\<open>service_timer\<close> and \<^verbatim>\<open>cv_store\<close>.
\<close>

section \<open>State and results\<close>

definition SERVICE_MODE_TIMEOUT_MS :: usize where
  "SERVICE_MODE_TIMEOUT_MS = 20"

datatype dcc_op =
  AcknowledgeCv | ResetOp | Velocity128 velocity_setpoint | SetFunctions function_group | Reboot

datatype handler_error = PacketError packet_error | StoreError store_error

record ('t, 's) handler =
  hd_timer :: 't
  hd_store :: 's
  hd_pending :: "packet option"

definition handler_new :: "'t \<Rightarrow> 's \<Rightarrow> ('t, 's) handler" where
  "handler_new timer store = \<lparr>hd_timer = timer, hd_store = store, hd_pending = None\<rparr>"

text \<open>The recipients of a packet (\<^verbatim>\<open>dcc/src/lib.rs\<close>).\<close>

definition is_recipient :: "packet \<Rightarrow> 's store_ops \<Rightarrow> 's \<Rightarrow> (handler_error, bool) res" where
  "is_recipient p so s =
     unwrap_or (res_bind (packet_addr p) (\<lambda>a.
       unwrap_or (res_bind (store_addr so s) (\<lambda>b. Ok (a = b))) False)) False"

text \<open>Running an operation of the store inside the handler, with its error converted by
  \<^verbatim>\<open>?\<close>.\<close>

definition in_store ::
  "('t, 's) handler \<Rightarrow> ('s \<Rightarrow> 's \<times> (store_error, 'a) res) \<Rightarrow> ('t, 's) handler \<times> (handler_error, 'a) res" where
  "in_store h f = (let (s, r) = f (hd_store h) in (h\<lparr>hd_store := s\<rparr>, map_err StoreError r))"

definition of_store ::
  "('t, 's) handler \<Rightarrow> ('s \<Rightarrow> (store_error, 'a) res) \<Rightarrow> ('t, 's) handler \<times> (handler_error, 'a) res" where
  "of_store h f = (h, map_err StoreError (f (hd_store h)))"

definition of_packet ::
  "('t, 's) handler \<Rightarrow> (packet_error, 'a) res \<Rightarrow> ('t, 's) handler \<times> (handler_error, 'a) res" where
  "of_packet h r = (h, map_err PacketError r)"

section \<open>Operation mode\<close>

definition handle_command ::
  "packet \<Rightarrow> ('t, 's) handler \<Rightarrow> ('t, 's) handler \<times> (handler_error, dcc_op option) res" where
  "handle_command p h =
     st_bind (of_packet h (parse_operation p)) (\<lambda>h i.
       case i of
         AdvancedOperations (SpeedStepControl v) \<Rightarrow> (h, Ok (Some (Velocity128 v)))
       | FunctionGroupInstr fg \<Rightarrow> (h, Ok (Some (SetFunctions fg))))"

section \<open>Service mode\<close>

definition handle_reset ::
  "packet \<Rightarrow> ('t, 's) handler \<Rightarrow> ('t, 's) handler \<times> (handler_error, dcc_op) res" where
  "handle_reset p h = (h, Ok ResetOp)"

definition verify_byte ::
  "'s store_ops \<Rightarrow> packet \<Rightarrow> ('t, 's) handler \<Rightarrow> ('t, 's) handler \<times> (handler_error, dcc_op option) res" where
  "verify_byte so p h =
     st_bind (of_packet h (cv_data p)) (\<lambda>h expected.
     st_bind (of_packet h (cv_address p)) (\<lambda>h address.
     st_bind (of_store h (\<lambda>s. op_read_byte so s (unat address))) (\<lambda>h actual.
       (h, Ok (if expected = actual then Some AcknowledgeCv else None)))))"

definition reset_to_factory_defaults ::
  "'s store_ops \<Rightarrow> ('t, 's) handler \<Rightarrow> ('t, 's) handler \<times> (handler_error, unit) res" where
  "reset_to_factory_defaults so h = in_store h (store_reset so)"

text \<open>The arms of \<^verbatim>\<open>write_byte\<close> for the CVs that need more than a plain write.\<close>

definition write_primary_address ::
  "'s store_ops \<Rightarrow> packet \<Rightarrow> ('t, 's) handler \<Rightarrow> ('t, 's) handler \<times> (handler_error, dcc_op option) res" where
  "write_primary_address so p h =
     st_bind (of_packet h (cv_data p)) (\<lambda>h value.
       if \<not> (1 \<le> value \<and> value \<le> 127) then (h, Err (PacketError InvalidInstruction))
       else
         st_bind (in_store h (\<lambda>s. op_write_byte so s (cv_num PrimaryAddress) value)) (\<lambda>h _.
         st_bind (of_store h (\<lambda>s. op_read_byte so s (cv_num DecoderConfiguration))) (\<lambda>h cv29.
         st_bind (in_store h (\<lambda>s. op_write_byte so s (cv_num DecoderConfiguration) (cv29 AND NOT 0b00100000))) (\<lambda>h _.
         st_bind (in_store h (\<lambda>s. op_write_byte so s (cv_num ConsistAddress) 0)) (\<lambda>h _.
           (h, Ok (Some AcknowledgeCv)))))))"

definition write_manufacturer_id ::
  "'s store_ops \<Rightarrow> packet \<Rightarrow> ('t, 's) handler \<Rightarrow> ('t, 's) handler \<times> (handler_error, dcc_op option) res" where
  "write_manufacturer_id so p h =
     st_bind (of_packet h (cv_data p)) (\<lambda>h value.
       if value = 8 then st_bind (reset_to_factory_defaults so h) (\<lambda>h _. (h, Ok (Some Reboot)))
       else (h, Ok None))"

definition write_version_number ::
  "'s store_ops \<Rightarrow> packet \<Rightarrow> ('t, 's) handler \<Rightarrow> ('t, 's) handler \<times> (handler_error, dcc_op option) res" where
  "write_version_number so p h =
     st_bind (of_packet h (cv_data p)) (\<lambda>h value.
       if value = 7 then st_bind (in_store h (emf_adc_offset_clear so)) (\<lambda>h _. (h, Ok (Some Reboot)))
       else (h, Ok (Some Reboot)))"

definition write_extended_msb ::
  "'s store_ops \<Rightarrow> packet \<Rightarrow> ('t, 's) handler \<Rightarrow> ('t, 's) handler \<times> (handler_error, dcc_op option) res" where
  "write_extended_msb so p h =
     st_bind (of_packet h (cv_data p)) (\<lambda>h value.
     st_bind (of_store h (\<lambda>s. op_read_byte so s (cv_num ExtendedAddressLsb))) (\<lambda>h cv18.
       if \<not> (192 \<le> value \<and> value \<le> 231) \<or> cv18 = 0 \<and> value = 192
       then (h, Err (PacketError InvalidInstruction))
       else
         st_bind (in_store h (\<lambda>s. op_write_byte so s (cv_num ExtendedAddressMsb) value)) (\<lambda>h _.
           (h, Ok (Some AcknowledgeCv)))))"

definition write_extended_lsb ::
  "'s store_ops \<Rightarrow> packet \<Rightarrow> ('t, 's) handler \<Rightarrow> ('t, 's) handler \<times> (handler_error, dcc_op option) res" where
  "write_extended_lsb so p h =
     st_bind (of_packet h (cv_data p)) (\<lambda>h value.
     st_bind (of_store h (\<lambda>s. op_read_byte so s (cv_num ExtendedAddressMsb))) (\<lambda>h cv17.
       if cv17 = 192 \<and> value = 0 then (h, Err (PacketError InvalidInstruction))
       else
         st_bind (in_store h (\<lambda>s. op_write_byte so s (cv_num ExtendedAddressLsb) value)) (\<lambda>h _.
           (h, Ok (Some AcknowledgeCv)))))"

definition write_byte ::
  "'s store_ops \<Rightarrow> packet \<Rightarrow> ('t, 's) handler \<Rightarrow> ('t, 's) handler \<times> (handler_error, dcc_op option) res" where
  "write_byte so p h =
     st_bind (of_packet h (cv_address p)) (\<lambda>h address.
       if address = 31 \<or> address = 32 then (h, Ok None)
       else case cv_try_from address of
         Some PrimaryAddress \<Rightarrow> write_primary_address so p h
       | Some ManufacturerId \<Rightarrow> write_manufacturer_id so p h
       | Some ManufacturerVersionNumber \<Rightarrow> write_version_number so p h
       | Some ExtendedAddressMsb \<Rightarrow> write_extended_msb so p h
       | Some ExtendedAddressLsb \<Rightarrow> write_extended_lsb so p h
       | _ \<Rightarrow>
           st_bind (of_packet h (cv_data p)) (\<lambda>h value.
           st_bind (in_store h (\<lambda>s. op_write_byte so s (unat address) value)) (\<lambda>h _.
             (h, Ok (Some AcknowledgeCv)))))"

definition manipulate_bit ::
  "'s store_ops \<Rightarrow> packet \<Rightarrow> ('t, 's) handler \<Rightarrow> ('t, 's) handler \<times> (handler_error, dcc_op option) res" where
  "manipulate_bit so p h =
     st_bind (of_packet h (cv_data p)) (\<lambda>h packed.
       if packed < 0b11100000 then (h, Err (PacketError InvalidInstruction))
       else
         let is_write = packed AND 0b00010000 \<noteq> 0;
             d_val = drop_bit 3 (packed AND 0b00001000);
             bit_pos = packed AND 0b00000111
         in st_bind (of_packet h (cv_address p)) (\<lambda>h cv_addr.
            st_bind (of_store h (\<lambda>s. op_read_byte so s (unat cv_addr))) (\<lambda>h current.
              let msk = push_bit (unat bit_pos) 1 in
              if is_write then
                let new_val = (current AND NOT msk) OR push_bit (unat bit_pos) d_val
                in st_bind (in_store h (\<lambda>s. op_write_byte so s (unat cv_addr) new_val)) (\<lambda>h _.
                     (h, Ok (Some AcknowledgeCv)))
              else
                let bit_matches = drop_bit (unat bit_pos) current AND 1 = d_val
                in (h, Ok (if bit_matches then Some AcknowledgeCv else None)))))"

definition handle_service_mode ::
  "'s store_ops \<Rightarrow> packet \<Rightarrow> ('t, 's) handler \<Rightarrow> ('t, 's) handler \<times> (handler_error, dcc_op option) res" where
  "handle_service_mode so p h =
     (let pending = hd_pending h;
          h = h\<lparr>hd_pending := None\<rparr>
      in if pending \<noteq> Some p then (h\<lparr>hd_pending := Some p\<rparr>, Ok None)
         else if length (pkt_data p) = 2 \<and> take 2 (pkt_data p) = [0b01111111, 0b00001000] then
           st_bind (reset_to_factory_defaults so h) (\<lambda>h _. (h, Ok (Some Reboot)))
         else
           st_bind (of_packet h (instruction_type p)) (\<lambda>h t.
             case t of
               ManipulateBit \<Rightarrow> manipulate_bit so p h
             | VerifyByte \<Rightarrow> verify_byte so p h
             | WriteByte \<Rightarrow> write_byte so p h))"

section \<open>The handler\<close>

text \<open>\<^term>\<open>now\<close> is the clock when the elapsed time is read or the timer started after a reset,
  \<^term>\<open>now'\<close> when the timer is restarted in service mode.\<close>

definition handle ::
  "'t timer_ops \<Rightarrow> 's store_ops \<Rightarrow> instant \<Rightarrow> instant \<Rightarrow> packet \<Rightarrow> ('t, 's) handler
   \<Rightarrow> ('t, 's) handler \<times> (handler_error, dcc_op option) res" where
  "handle tops so now now' p h =
     (if is_reset p then
        st_bind (handle_reset p (h\<lparr>hd_timer := tm_start tops now (hd_timer h)\<rparr>)) (\<lambda>h op. (h, Ok (Some op)))
      else
        st_bind (h, case tm_elapsed_ms tops now (hd_timer h) of
            Some elapsed \<Rightarrow>
              if elapsed < SERVICE_MODE_TIMEOUT_MS then map_err PacketError (service_mode_candidate p) else Ok False
          | None \<Rightarrow> Ok False) (\<lambda>h service.
        if service then
          handle_service_mode so p (h\<lparr>hd_timer := tm_start tops now' (hd_timer h)\<rparr>)
        else
          st_bind (h, is_recipient p so (hd_store h)) (\<lambda>h recipient.
          if recipient then
            handle_command p (h\<lparr>hd_timer := tm_stop tops (hd_timer h)\<rparr>)
          else
            st_bind (h, is_broadcast p) (\<lambda>h broadcast.
            if broadcast then handle_command p h
            else (h, Ok None)))))"

section \<open>Reasoning about handler steps\<close>

lemma of_packet_eq_Ok [simp]: "of_packet h r = (h', Ok x) \<longleftrightarrow> h' = h \<and> r = Ok x"
  by (auto simp: of_packet_def)

lemma of_store_eq_Ok [simp]: "of_store h f = (h', Ok x) \<longleftrightarrow> h' = h \<and> f (hd_store h) = Ok x"
  by (auto simp: of_store_def)

lemma post_of_packet: "Q h \<Longrightarrow> r \<noteq> Panic \<Longrightarrow> post Q (of_packet h r)"
  by (simp add: of_packet_def)

lemma post_of_store: "Q h \<Longrightarrow> f (hd_store h) \<noteq> Panic \<Longrightarrow> post Q (of_store h f)"
  by (simp add: of_store_def)

lemma not_panic_readers [simp]: "cv_address p \<noteq> Panic" "cv_data p \<noteq> Panic" "instruction_type p \<noteq> Panic"
  by (auto simp: cv_address_def cv_data_def instruction_type_def index_def)

lemma cv_address_bounds: "cv_address p = Ok a \<Longrightarrow> 1 \<le> unat a \<and> unat a \<le> 1024"
  by (rule cv_address_facts(1))

lemma cv_address_ge: "cv_address p = Ok a \<Longrightarrow> Suc 0 \<le> unat a"
  and cv_address_le: "cv_address p = Ok a \<Longrightarrow> unat a \<le> 1024"
  using cv_address_bounds [of p a] by simp_all

text \<open>The CVs that make up the address: the short address in 1..127, the long address with its
  high byte in 192..231 and not 0.\<close>

definition addr_cvs_ok :: "(nat \<Rightarrow> u8) \<Rightarrow> bool" where
  "addr_cvs_ok f \<longleftrightarrow> 1 \<le> unat (f 1) \<and> unat (f 1) \<le> 127 \<and> 192 \<le> unat (f 17) \<and> unat (f 17) \<le> 231
     \<and> (unat (f 17) = 192 \<longrightarrow> f 18 \<noteq> 0)"

lemma addr_cvs_ok_other: "a \<notin> {1, 17, 18} \<Longrightarrow> addr_cvs_ok (f(a := v)) = addr_cvs_ok f"
  by (auto simp: addr_cvs_ok_def)

lemma addr_cvs_ok_defaults: "addr_cvs_ok (cv_update f 1 DEFAULT_VALUES)"
  using default_of_cv [of PrimaryAddress] default_of_cv [of ExtendedAddressMsb] default_of_cv [of ExtendedAddressLsb]
  by (simp add: addr_cvs_ok_def cv_update_def CV_SIZE_def)

lemma addr_cvs_ok_addr: "addr_cvs_ok f \<Longrightarrow> 1 \<le> unat (addr_of_cvs f) \<and> unat (addr_of_cvs f) \<le> 10239"
proof -
  assume ok: "addr_cvs_ok f"
  have "unat (f 17) mod 64 = unat (f 17) - 192"
  proof -
    have "unat (f 17) = unat (f 17) - 192 + 3 * 64" "unat (f 17) - 192 < 64"
      using ok by (auto simp: addr_cvs_ok_def)
    then show ?thesis by (metis mod_less mod_mult_self1)
  qed
  then have "unat (push_bit 8 (ucast (f 17 AND 63)) OR ucast (f 18) :: u16) = (unat (f 17) - 192) * 256 + unat (f 18)"
    by (simp only: unat_be16 unat_and_masks)
  moreover have "1 \<le> (unat (f 17) - 192) * 256 + unat (f 18)"
  proof (cases "unat (f 17) = 192")
    case True
    then have "0 < unat (f 18)" using ok by (simp add: addr_cvs_ok_def unat_gt_0)
    then show ?thesis by simp
  next
    case False
    then have "0 < unat (f 17) - 192" using ok by (simp add: addr_cvs_ok_def)
    then show ?thesis by simp
  qed
  ultimately show ?thesis
    using ok unat_u8_le [of "f 18"] by (auto simp: addr_of_cvs_def addr_cvs_ok_def simp del: push_bit_numeral)
qed

definition address_bit_write :: "packet \<Rightarrow> bool" where
  "address_bit_write p \<longleftrightarrow> instruction_type p = Ok ManipulateBit \<and> cv_address p \<in> {Ok 1, Ok 17, Ok 18}
     \<and> (\<exists>d. cv_data p = Ok d \<and> d AND 0b00010000 \<noteq> 0)"

context cv_store
begin

abbreviation hcvs :: "('t, 's) handler \<Rightarrow> nat \<Rightarrow> u8" where
  "hcvs h \<equiv> cvs (hd_store h)"

lemma post_write:
  assumes "wf (hd_store h)" "1 \<le> a" "a \<le> 1024"
    "\<And>s. wf s \<Longrightarrow> cvs s = hcvs h \<or> cvs s = (hcvs h)(a := v) \<Longrightarrow> Q (h\<lparr>hd_store := s\<rparr>)"
  shows "post Q (in_store h (\<lambda>s. op_write_byte so s a v))"
proof -
  obtain s r where e: "op_write_byte so (hd_store h) a v = (s, r)" by fastforce
  then have "wf s \<and> write_outcome (hcvs h) ((hcvs h)(a := v)) (cvs s) r"
    by (rule write_byte [OF assms(1-3)])
  then show ?thesis using assms(4) [of s] by (auto simp: in_store_def e write_outcome_def)
qed

lemma in_store_write_Ok:
  assumes "wf (hd_store h)" "1 \<le> a" "a \<le> 1024" "in_store h (\<lambda>s. op_write_byte so s a v) = (h', Ok u)"
  shows "\<exists>s. h' = h\<lparr>hd_store := s\<rparr> \<and> wf s \<and> cvs s = (hcvs h)(a := v)"
proof -
  obtain s r where e: "op_write_byte so (hd_store h) a v = (s, r)" by fastforce
  then have "wf s \<and> write_outcome (hcvs h) ((hcvs h)(a := v)) (cvs s) r"
    by (rule write_byte [OF assms(1-3)])
  then show ?thesis using assms(4) by (auto simp: in_store_def e write_outcome_def)
qed

lemma post_reset:
  assumes "wf (hd_store h)"
    "\<And>s. wf s \<Longrightarrow> cvs s = hcvs h \<or> cvs s = cv_update (hcvs h) 1 DEFAULT_VALUES \<Longrightarrow> Q (h\<lparr>hd_store := s\<rparr>)"
  shows "post Q (reset_to_factory_defaults so h)"
proof -
  obtain s r where e: "store_reset so (hd_store h) = (s, r)" by fastforce
  from reset [OF assms(1) e] show ?thesis using assms(2) [of s]
    by (auto simp: reset_to_factory_defaults_def in_store_def e write_outcome_def)
qed

lemma post_read: "Q h \<Longrightarrow> wf (hd_store h) \<Longrightarrow> 1 \<le> a \<Longrightarrow> a \<le> 1024 \<Longrightarrow> post Q (of_store h (\<lambda>s. op_read_byte so s a))"
  by (intro post_of_store) (simp_all add: read_byte)

text \<open>What every step of service mode keeps: a well-formed store, the timer, the latch, and, where the
  flag says so, a usable address.\<close>

definition keeps :: "bool \<Rightarrow> ('t, 's) handler \<Rightarrow> ('t, 's) handler \<Rightarrow> bool" where
  "keeps b h h' \<longleftrightarrow> wf (hd_store h') \<and> hd_timer h' = hd_timer h \<and> hd_pending h' = hd_pending h
     \<and> (b \<longrightarrow> addr_cvs_ok (hcvs h) \<longrightarrow> addr_cvs_ok (hcvs h'))"

lemma keeps_refl [simp]: "keeps b h h = wf (hd_store h)"
  by (simp add: keeps_def)

lemma keeps_wf: "keeps b h h' \<Longrightarrow> wf (hd_store h')"
  by (simp add: keeps_def)

lemma keeps_store: "keeps b h h' \<Longrightarrow> wf s \<Longrightarrow> (b \<Longrightarrow> addr_cvs_ok (hcvs h) \<Longrightarrow> addr_cvs_ok (hcvs h') \<Longrightarrow> addr_cvs_ok (cvs s))
  \<Longrightarrow> keeps b h (h'\<lparr>hd_store := s\<rparr>)"
  by (simp add: keeps_def)

lemma keeps_write_other:
  assumes "keeps b h h'" "1 \<le> a" "a \<le> 1024" "a \<notin> {1, 17, 18}"
  shows "post (keeps b h) (in_store h' (\<lambda>s. op_write_byte so s a v))"
  using assms addr_cvs_ok_other [of a "hcvs h'" v]
  by (intro post_write) (auto simp: keeps_wf intro!: keeps_store)

lemma keeps_write_bits:
  assumes "keeps b h h'" "1 \<le> a" "a \<le> 1024" "b \<Longrightarrow> a \<notin> {1, 17, 18}"
  shows "post (keeps b h) (in_store h' (\<lambda>s. op_write_byte so s a v))"
  using assms addr_cvs_ok_other [of a "hcvs h'" v]
  by (intro post_write) (auto simp: keeps_wf intro!: keeps_store)

lemma keeps_verify_byte: "wf (hd_store h) \<Longrightarrow> post (keeps b h) (verify_byte so p h)"
  unfolding verify_byte_def
  by (intro post_bind_same post_of_packet post_read) (auto dest: cv_address_bounds)

lemma keeps_write_primary: "wf (hd_store h) \<Longrightarrow> post (keeps b h) (write_primary_address so p h)"
proof -
  assume wf: "wf (hd_store h)"
  have rest: "post (keeps b h) (if \<not> (1 \<le> val \<and> val \<le> 127) then (h, Err (PacketError InvalidInstruction))
       else
         st_bind (in_store h (\<lambda>s. op_write_byte so s (cv_num PrimaryAddress) val)) (\<lambda>h _.
         st_bind (of_store h (\<lambda>s. op_read_byte so s (cv_num DecoderConfiguration))) (\<lambda>h cv29.
         st_bind (in_store h (\<lambda>s. op_write_byte so s (cv_num DecoderConfiguration) (cv29 AND NOT 0b00100000))) (\<lambda>h _.
         st_bind (in_store h (\<lambda>s. op_write_byte so s (cv_num ConsistAddress) 0)) (\<lambda>h _.
           (h, Ok (Some AcknowledgeCv)))))))" for val
  proof (cases "1 \<le> val \<and> val \<le> 127")
    case True
    have "post (keeps b h) (in_store h (\<lambda>s. op_write_byte so s (cv_num PrimaryAddress) val))"
      using wf True by (intro post_write keeps_store) (auto simp: addr_cvs_ok_def word_le_nat_alt)
    then show ?thesis using True
      by (auto intro!: post_bind_same post_read keeps_write_other simp: keeps_wf)
  qed (use wf in simp)
  show ?thesis unfolding write_primary_address_def
    using wf rest by (intro post_bind_same post_of_packet) auto
qed

lemma keeps_write_manufacturer: "wf (hd_store h) \<Longrightarrow> post (keeps b h) (write_manufacturer_id so p h)"
  unfolding write_manufacturer_id_def
  by (intro post_bind_same post_of_packet)
    (auto intro!: post_bind_same post_reset keeps_store simp: addr_cvs_ok_defaults [unfolded One_nat_def])

lemma keeps_write_version: "wf (hd_store h) \<Longrightarrow> post (keeps b h) (write_version_number so p h)"
  unfolding write_version_number_def emf_adc_offset_clear_def
  by (intro post_bind_same post_of_packet) (auto intro!: post_bind_same keeps_write_other)

lemma keeps_write_msb: "wf (hd_store h) \<Longrightarrow> post (keeps b h) (write_extended_msb so p h)"
  unfolding write_extended_msb_def
  by (intro post_bind_same post_of_packet post_read)
    (auto intro!: post_bind_same post_write keeps_store simp: addr_cvs_ok_def word_le_nat_alt read_byte
      word_unat_eq_iff [of _ "192 :: u8"] word_unat_eq_iff [of _ "0 :: u8"])

lemma keeps_write_lsb: "wf (hd_store h) \<Longrightarrow> post (keeps b h) (write_extended_lsb so p h)"
  unfolding write_extended_lsb_def
  by (intro post_bind_same post_of_packet post_read)
    (auto intro!: post_bind_same post_write keeps_store simp: addr_cvs_ok_def read_byte
      word_unat_eq_iff [of _ "192 :: u8"])

end

context cv_store
begin

lemma keeps_write_plain:
  assumes "wf (hd_store h)" "cv_address p = Ok a" "unat a \<notin> {1, 17, 18}"
  shows "post (keeps b h) (st_bind (of_packet h (cv_data p)) (\<lambda>h v.
           st_bind (in_store h (\<lambda>s. op_write_byte so s (unat a) v)) (\<lambda>h _. (h, Ok (Some AcknowledgeCv)))))"
  using assms cv_address_bounds [OF assms(2)]
  by (intro post_bind_same post_of_packet) (auto intro!: post_bind_same keeps_write_other)

lemma keeps_write_byte: "wf (hd_store h) \<Longrightarrow> post (keeps b h) (write_byte so p h)"
proof -
  assume wf: "wf (hd_store h)"
  have "post (keeps b h) (if a = 31 \<or> a = 32 then (h, Ok None)
       else case cv_try_from a of
         Some PrimaryAddress \<Rightarrow> write_primary_address so p h
       | Some ManufacturerId \<Rightarrow> write_manufacturer_id so p h
       | Some ManufacturerVersionNumber \<Rightarrow> write_version_number so p h
       | Some ExtendedAddressMsb \<Rightarrow> write_extended_msb so p h
       | Some ExtendedAddressLsb \<Rightarrow> write_extended_lsb so p h
       | _ \<Rightarrow>
           st_bind (of_packet h (cv_data p)) (\<lambda>h v.
           st_bind (in_store h (\<lambda>s. op_write_byte so s (unat a) v)) (\<lambda>h _. (h, Ok (Some AcknowledgeCv)))))"
    if a: "cv_address p = Ok a" for a
  proof -
    have special: "cv_try_from a \<in> {Some PrimaryAddress, Some ExtendedAddressMsb, Some ExtendedAddressLsb}"
      if "unat a \<in> {1, 17, 18}"
      using that by (auto simp: cv_try_from_iff)
    consider "cv_try_from a \<in> {Some PrimaryAddress, Some ManufacturerId, Some ManufacturerVersionNumber,
        Some ExtendedAddressMsb, Some ExtendedAddressLsb}" | "cv_try_from a \<notin> {Some PrimaryAddress,
        Some ManufacturerId, Some ManufacturerVersionNumber, Some ExtendedAddressMsb, Some ExtendedAddressLsb}"
      by blast
    then show ?thesis
    proof cases
      case 1
      then show ?thesis using wf keeps_write_primary keeps_write_manufacturer keeps_write_version
          keeps_write_msb keeps_write_lsb by auto
    next
      case 2
      then have n: "unat a \<notin> {1, 17, 18}" using special by auto
      from keeps_write_plain [OF wf a n] 2 wf show ?thesis
        by (cases "cv_try_from a") (auto split: cv.split)
    qed
  qed
  then show ?thesis unfolding write_byte_def
    using wf by (intro post_bind_same post_of_packet) auto
qed

lemma keeps_manipulate_bit:
  assumes "wf (hd_store h)"
    "b \<Longrightarrow> \<not> (cv_address p \<in> {Ok 1, Ok 17, Ok 18} \<and> (\<exists>d. cv_data p = Ok d \<and> d AND 0b00010000 \<noteq> 0))"
  shows "post (keeps b h) (manipulate_bit so p h)"
proof -
  have ok: "unat a \<notin> {1, 17, 18}" if "b" "cv_address p = Ok a" "cv_data p = Ok d" "d AND 16 \<noteq> 0" for a d
    using assms(2) that by (auto simp: word_unat_eq_iff)
  show ?thesis
    unfolding manipulate_bit_def Let_def
    using assms(1) ok cv_address_ge [of p] cv_address_le [of p]
    by (intro post_bind_same post_of_packet)
      (auto intro!: post_bind_same post_of_packet post_read keeps_write_bits)
qed

lemma keeps_service_mode:
  assumes "wf (hd_store h)" "b \<Longrightarrow> \<not> address_bit_write p"
  shows "post (keeps b h) (if length (pkt_data p) = 2 \<and> take 2 (pkt_data p) = [0b01111111, 0b00001000] then
           st_bind (reset_to_factory_defaults so h) (\<lambda>h _. (h, Ok (Some Reboot)))
         else
           st_bind (of_packet h (instruction_type p)) (\<lambda>h t.
             case t of
               ManipulateBit \<Rightarrow> manipulate_bit so p h
             | VerifyByte \<Rightarrow> verify_byte so p h
             | WriteByte \<Rightarrow> write_byte so p h))"
proof (cases "length (pkt_data p) = 2 \<and> take 2 (pkt_data p) = [0b01111111, 0b00001000]")
  case True
  then show ?thesis using assms(1)
    by (auto intro!: post_bind_same post_reset keeps_store simp: addr_cvs_ok_defaults [unfolded One_nat_def])
next
  case False
  have "post (keeps b h) (case t of ManipulateBit \<Rightarrow> manipulate_bit so p h
      | VerifyByte \<Rightarrow> verify_byte so p h | WriteByte \<Rightarrow> write_byte so p h)"
    if "instruction_type p = Ok t" for t
    using assms that keeps_manipulate_bit [of h b p] keeps_verify_byte [of h b p] keeps_write_byte [of h b p]
    by (auto simp: address_bit_write_def split: service_instruction_type.split)
  then show ?thesis using False assms(1) by (auto intro!: post_bind_same post_of_packet)
qed

lemma is_recipient_addr:
  assumes "wf s" "pkt_data p \<noteq> []"
  shows "is_recipient p so s = Ok (packet_addr p = Ok (addr_of_cvs (cvs s)))"
  using assms(2) by (cases rule: packet_addr_cases [of p]) (simp_all add: is_recipient_def addr [OF assms(1)])

lemma handle_command_keeps: "wf (hd_store h) \<Longrightarrow> pkt_data p \<noteq> [] \<Longrightarrow> post (\<lambda>h'. h' = h) (handle_command p h)"
  unfolding handle_command_def
  by (intro post_bind_same post_of_packet)
    (auto simp: parse_operation_no_panic split: operation_mode_instruction.split advanced_operations_instruction.split)

lemma post_mono: "post Q m \<Longrightarrow> (\<And>h. Q h \<Longrightarrow> R h) \<Longrightarrow> post R m"
  by (simp add: post_def)

lemma keeps_handle_service:
  assumes "wf (hd_store h)" "b \<Longrightarrow> \<not> address_bit_write p"
  shows "post (\<lambda>h'. wf (hd_store h') \<and> (b \<longrightarrow> addr_cvs_ok (hcvs h) \<longrightarrow> addr_cvs_ok (hcvs h')))
    (handle_service_mode so p h)"
proof (cases "hd_pending h = Some p")
  case True
  have "post (keeps b (h\<lparr>hd_pending := None\<rparr>)) (handle_service_mode so p h)"
    using keeps_service_mode [of "h\<lparr>hd_pending := None\<rparr>" b p] assms
    unfolding handle_service_mode_def Let_def True by simp
  then show ?thesis by (rule post_mono) (simp add: keeps_def)
qed (use assms in \<open>simp add: handle_service_mode_def Let_def\<close>)

text \<open>Whatever packet arrives, the handler returns and the store stays well formed; the address
  stays usable unless the packet writes a bit of an address CV.\<close>

lemma handle_keeps:
  fixes tops :: "'t timer_ops"
  assumes "wf (hd_store h)" "pkt_data p \<noteq> []" "b \<Longrightarrow> \<not> address_bit_write p"
  shows "post (\<lambda>h'. wf (hd_store h') \<and> (b \<longrightarrow> addr_cvs_ok (hcvs h) \<longrightarrow> addr_cvs_ok (hcvs h')))
    (handle tops so now now' p h)"
proof -
  have bc: "is_broadcast p \<noteq> (Panic :: (handler_error, bool) res)" "is_broadcast p \<noteq> (Err e :: (handler_error, bool) res)" for e
    using assms(2) by (cases rule: packet_addr_cases [of p]; simp add: is_broadcast_def)+
  have sc: "\<exists>c. service_mode_candidate p = Ok c"
    using assms(2) by (cases "pkt_data p") (auto simp: service_mode_candidate_def)
  have cmd: "post (\<lambda>h'. wf (hd_store h') \<and> (b \<longrightarrow> addr_cvs_ok (hcvs h) \<longrightarrow> addr_cvs_ok (hcvs h'))) (handle_command p k)"
    if "hd_store k = hd_store h" for k :: "('t, 's) handler"
    using handle_command_keeps [of k p] that assms by (auto elim!: post_mono)
  have srv: "post (\<lambda>h'. wf (hd_store h') \<and> (b \<longrightarrow> addr_cvs_ok (hcvs h) \<longrightarrow> addr_cvs_ok (hcvs h'))) (handle_service_mode so p k)"
    if "hd_store k = hd_store h" for k :: "('t, 's) handler"
    using keeps_handle_service [of k b p] that assms by simp
  show ?thesis
    using assms(1) sc bc cmd srv is_recipient_addr [OF assms(1,2)]
    by (cases "is_broadcast p :: (handler_error, bool) res")
      (auto simp: handle_def handle_reset_def split: option.split)
qed

end

section \<open>What the service-mode instructions do\<close>

text \<open>A store that takes every write in range.\<close>

definition accepts :: "'s store_ops \<Rightarrow> ('s \<Rightarrow> bool) \<Rightarrow> bool" where
  "accepts so ok \<longleftrightarrow> (\<forall>s a v. ok s \<longrightarrow> 1 \<le> a \<longrightarrow> a \<le> 1024 \<longrightarrow> snd (op_write_byte so s a v) = Ok ())"

definition special_cvs :: "nat set" where
  "special_cvs = {1, 7, 8, 17, 18, 31, 32}"

lemma cv_try_from_numbers:
  "unat a = 1 \<Longrightarrow> cv_try_from a = Some PrimaryAddress"
  "unat a = 7 \<Longrightarrow> cv_try_from a = Some ManufacturerVersionNumber"
  "unat a = 8 \<Longrightarrow> cv_try_from a = Some ManufacturerId"
  "unat a = 17 \<Longrightarrow> cv_try_from a = Some ExtendedAddressMsb"
  "unat a = 18 \<Longrightarrow> cv_try_from a = Some ExtendedAddressLsb"
  by (simp_all add: cv_try_from_iff)

lemma cv_try_from_plain:
  assumes "unat a \<notin> special_cvs"
  shows "cv_try_from a \<notin> {Some PrimaryAddress, Some ManufacturerId, Some ManufacturerVersionNumber,
    Some ExtendedAddressMsb, Some ExtendedAddressLsb}"
  using assms by (auto simp: cv_try_from_iff special_cvs_def)

lemma not_31_32:
  "unat a \<notin> special_cvs \<Longrightarrow> a \<noteq> 31 \<and> a \<noteq> (32 :: u16)"
  by (auto simp: special_cvs_def)

context cv_store
begin

lemma in_store_accepts:
  assumes "accepts so wf" "wf (hd_store h)" "1 \<le> a" "a \<le> 1024"
  shows "\<exists>s. in_store h (\<lambda>s. op_write_byte so s a v) = (h\<lparr>hd_store := s\<rparr>, Ok ()) \<and> wf s \<and> cvs s = (hcvs h)(a := v)"
proof -
  have "snd (op_write_byte so (hd_store h) a v) = Ok ()" using assms unfolding accepts_def by blast
  then obtain s where e: "op_write_byte so (hd_store h) a v = (s, Ok ())"
    by (cases "op_write_byte so (hd_store h) a v") simp
  then show ?thesis
    using write_byte [OF assms(2-4) e] by (intro exI [of _ s]) (simp add: in_store_def write_outcome_def)
qed

lemma write_byte_plain:
  assumes "accepts so wf" "wf (hd_store h)" "cv_address p = Ok a" "cv_data p = Ok v" "unat a \<notin> special_cvs"
  shows "\<exists>s. write_byte so p h = (h\<lparr>hd_store := s\<rparr>, Ok (Some AcknowledgeCv)) \<and> wf s
    \<and> cvs s = (hcvs h)(unat a := v)"
proof -
  obtain s where s: "in_store h (\<lambda>s. op_write_byte so s (unat a) v) = (h\<lparr>hd_store := s\<rparr>, Ok ())" "wf s"
    "cvs s = (hcvs h)(unat a := v)"
    using in_store_accepts [OF assms(1,2), of "unat a" v] cv_address_bounds [OF assms(3)] by auto
  have "write_byte so p h = (h\<lparr>hd_store := s\<rparr>, Ok (Some AcknowledgeCv))"
    using cv_try_from_plain [OF assms(5)] not_31_32 [OF assms(5)] s(1) assms(3,4)
    by (cases "cv_try_from a") (auto simp: write_byte_def of_packet_def split: cv.split)
  then show ?thesis using s by blast
qed

lemma write_byte_primary:
  assumes "accepts so wf" "wf (hd_store h)" "cv_address p = Ok 1" "cv_data p = Ok v" "1 \<le> unat v" "unat v \<le> 127"
  shows "\<exists>s. write_byte so p h = (h\<lparr>hd_store := s\<rparr>, Ok (Some AcknowledgeCv)) \<and> wf s
    \<and> cvs s = (hcvs h)(1 := v, 29 := hcvs h 29 AND NOT 32, 19 := 0)"
proof -
  let ?n = "NOT (32 :: u8)"
  obtain s where s: "in_store h (\<lambda>s. op_write_byte so s 1 v) = (h\<lparr>hd_store := s\<rparr>, Ok ())" "wf s"
    "cvs s = (hcvs h)(1 := v)"
    using in_store_accepts [OF assms(1,2), of 1 v] by auto
  let ?h = "h\<lparr>hd_store := s\<rparr>"
  obtain t where t: "in_store ?h (\<lambda>s. op_write_byte so s 29 (cvs s 29 AND ?n)) = (h\<lparr>hd_store := t\<rparr>, Ok ())"
    "in_store ?h (\<lambda>u. op_write_byte so u 29 (hcvs h 29 AND ?n)) = (h\<lparr>hd_store := t\<rparr>, Ok ())" "wf t"
    "cvs t = (hcvs h)(1 := v, 29 := hcvs h 29 AND ?n)"
    using in_store_accepts [OF assms(1), of ?h 29 "hcvs h 29 AND ?n"] s by (auto simp: in_store_def)
  let ?k = "h\<lparr>hd_store := t\<rparr>"
  obtain u where u: "in_store ?k (\<lambda>s. op_write_byte so s 19 0) = (h\<lparr>hd_store := u\<rparr>, Ok ())" "wf u"
    "cvs u = (hcvs h)(1 := v, 29 := hcvs h 29 AND ?n, 19 := 0)"
    using in_store_accepts [OF assms(1), of ?k 19 0] t by auto
  have "write_primary_address so p h = (h\<lparr>hd_store := u\<rparr>, Ok (Some AcknowledgeCv))"
    using assms(4-6) s t u
    by (simp add: write_primary_address_def of_packet_def of_store_def read_byte word_le_nat_alt)
  moreover have "write_byte so p h = write_primary_address so p h"
    using assms(3) by (simp add: write_byte_def of_packet_def cv_try_from_numbers)
  ultimately show ?thesis using u by auto
qed

lemma write_byte_refused:
  assumes "wf (hd_store h)" "cv_address p = Ok a" "cv_data p = Ok v"
  shows "unat a = 1 \<Longrightarrow> \<not> (1 \<le> unat v \<and> unat v \<le> 127) \<Longrightarrow> write_byte so p h = (h, Err (PacketError InvalidInstruction))"
    and "unat a = 17 \<Longrightarrow> \<not> (192 \<le> unat v \<and> unat v \<le> 231) \<or> unat v = 192 \<and> hcvs h 18 = 0 \<Longrightarrow>
      write_byte so p h = (h, Err (PacketError InvalidInstruction))"
    and "unat a = 18 \<Longrightarrow> unat (hcvs h 17) = 192 \<Longrightarrow> v = 0 \<Longrightarrow> write_byte so p h = (h, Err (PacketError InvalidInstruction))"
    and "unat a \<in> {31, 32} \<Longrightarrow> write_byte so p h = (h, Ok None)"
    and "unat a = 8 \<Longrightarrow> v \<noteq> 8 \<Longrightarrow> write_byte so p h = (h, Ok None)"
    and "unat a = 7 \<Longrightarrow> v \<noteq> 7 \<Longrightarrow> write_byte so p h = (h, Ok (Some Reboot))"
proof -
  have n: "a \<noteq> 31 \<and> a \<noteq> 32" if "unat a \<notin> {31, 32}" using that by auto
  note defs = write_byte_def of_packet_def of_store_def assms read_byte cv_try_from_numbers word_le_nat_alt
    write_primary_address_def write_extended_msb_def write_extended_lsb_def write_manufacturer_id_def
    write_version_number_def
  show "unat a = 1 \<Longrightarrow> \<not> (1 \<le> unat v \<and> unat v \<le> 127) \<Longrightarrow> write_byte so p h = (h, Err (PacketError InvalidInstruction))"
    using n by (auto simp: defs)
  show "unat a = 17 \<Longrightarrow> \<not> (192 \<le> unat v \<and> unat v \<le> 231) \<or> unat v = 192 \<and> hcvs h 18 = 0 \<Longrightarrow>
      write_byte so p h = (h, Err (PacketError InvalidInstruction))"
    using n by (auto simp: defs word_unat_eq_iff)
  show "unat a = 18 \<Longrightarrow> unat (hcvs h 17) = 192 \<Longrightarrow> v = 0 \<Longrightarrow> write_byte so p h = (h, Err (PacketError InvalidInstruction))"
    using n by (auto simp: defs word_unat_eq_iff)
  show "unat a \<in> {31, 32} \<Longrightarrow> write_byte so p h = (h, Ok None)"
    by (auto simp: defs word_unat_eq_iff)
  show "unat a = 8 \<Longrightarrow> v \<noteq> 8 \<Longrightarrow> write_byte so p h = (h, Ok None)"
    using n by (auto simp: defs)
  show "unat a = 7 \<Longrightarrow> v \<noteq> 7 \<Longrightarrow> write_byte so p h = (h, Ok (Some Reboot))"
    using n by (auto simp: defs)
qed

lemma verify_byte_result:
  assumes "wf (hd_store h)" "cv_address p = Ok a" "cv_data p = Ok v"
  shows "verify_byte so p h = (h, Ok (if v = hcvs h (unat a) then Some AcknowledgeCv else None))"
  using assms cv_address_bounds [OF assms(2)] by (simp add: verify_byte_def of_packet_def of_store_def read_byte)

end

section \<open>Single bits\<close>

text \<open>The data byte of a bit manipulation, \<^verbatim>\<open>111KDBBB\<close>.\<close>

definition bit_command :: "bool \<Rightarrow> nat \<Rightarrow> bool \<Rightarrow> u8" where
  "bit_command write pos b = 0b11100000 OR (if write then 0b00010000 else 0)
     OR push_bit 3 (of_bool b) OR of_nat pos"

lemma less_8_cases: "n < 8 \<Longrightarrow> n = 0 \<or> n = 1 \<or> n = 2 \<or> n = 3 \<or> n = 4 \<or> n = 5 \<or> n = 6 \<or> n = (7 :: nat)"
  by auto

lemma bit_command_fields:
  assumes "pos < 8"
  shows "\<not> bit_command write pos b < 0b11100000"
    and "bit_command write pos b AND 0b00010000 \<noteq> 0 \<longleftrightarrow> write"
    and "drop_bit 3 (bit_command write pos b AND 0b00001000) = of_bool b"
    and "unat (bit_command write pos b AND 0b00000111) = pos"
  using less_8_cases [OF assms] by (auto simp: bit_command_def)

lemma bit_updated:
  assumes "pos < 8"
  shows "bit ((c AND NOT (push_bit pos 1)) OR push_bit pos (of_bool b) :: u8) n \<longleftrightarrow> (if n = pos then b else bit c n)"
  using assms u8_bit_bound [of c n] by (auto simp: bit_simps)

lemma bit_tested: "drop_bit n c AND 1 = (of_bool (bit c n) :: u8)"
  by (rule bit_eqI) (auto simp: bit_simps)

context cv_store
begin

lemma manipulate_bit_write:
  assumes "accepts so wf" "wf (hd_store h)" "cv_address p = Ok a" "cv_data p = Ok (bit_command True pos b)" "pos < 8"
  shows "\<exists>s v. manipulate_bit so p h = (h\<lparr>hd_store := s\<rparr>, Ok (Some AcknowledgeCv)) \<and> wf s
    \<and> cvs s = (hcvs h)(unat a := v) \<and> (\<forall>n. bit v n \<longleftrightarrow> (if n = pos then b else bit (hcvs h (unat a)) n))"
proof -
  let ?v = "(hcvs h (unat a) AND NOT (push_bit pos 1)) OR push_bit pos (of_bool b)"
  obtain s where s: "in_store h (\<lambda>s. op_write_byte so s (unat a) ?v) = (h\<lparr>hd_store := s\<rparr>, Ok ())" "wf s"
    "cvs s = (hcvs h)(unat a := ?v)"
    using in_store_accepts [OF assms(1,2), of "unat a" ?v] cv_address_bounds [OF assms(3)] by auto
  have "manipulate_bit so p h = (h\<lparr>hd_store := s\<rparr>, Ok (Some AcknowledgeCv))"
    using assms(2,3,4) s(1) bit_command_fields [OF assms(5), of True b] cv_address_bounds [OF assms(3)]
    by (simp add: manipulate_bit_def of_packet_def of_store_def read_byte Let_def)
  then show ?thesis using s bit_updated [OF assms(5)] by blast
qed

lemma manipulate_bit_verify:
  assumes "wf (hd_store h)" "cv_address p = Ok a" "cv_data p = Ok (bit_command False pos b)" "pos < 8"
  shows "manipulate_bit so p h = (h, Ok (if bit (hcvs h (unat a)) pos = b then Some AcknowledgeCv else None))"
  using assms(1-3) bit_command_fields [OF assms(4), of False b] cv_address_bounds [OF assms(2)]
  by (simp add: manipulate_bit_def of_packet_def of_store_def read_byte Let_def bit_tested)

end

section \<open>Service mode as a protocol\<close>

text \<open>Less than 20 ms have passed since the last reset or service-mode packet.\<close>

definition in_window :: "'t timer_ops \<Rightarrow> instant \<Rightarrow> 't \<Rightarrow> bool" where
  "in_window tops now t \<longleftrightarrow> (case tm_elapsed_ms tops now t of Some e \<Rightarrow> e < SERVICE_MODE_TIMEOUT_MS | None \<Rightarrow> False)"

lemma candidate_not_reset: "service_mode_candidate p = Ok True \<Longrightarrow> \<not> is_reset p"
  by (cases "pkt_data p") (auto simp: service_mode_candidate_def is_reset_def)

text \<open>A run of the handler over packets with the times they arrive.\<close>

primrec handle_all ::
  "'t timer_ops \<Rightarrow> 's store_ops \<Rightarrow> (instant \<times> packet) list \<Rightarrow> ('t, 's) handler
   \<Rightarrow> ('t, 's) handler \<times> (handler_error, dcc_op option) res list" where
  "handle_all tops so [] h = (h, [])"
| "handle_all tops so (tp # tps) h =
     (let (h, r) = handle tops so (fst tp) (fst tp) (snd tp) h; (h, rs) = handle_all tops so tps h
      in (h, r # rs))"

lemma handle_service:
  assumes "service_mode_candidate p = Ok True" "in_window tops now (hd_timer h)"
  shows "handle tops so now now' p h = handle_service_mode so p (h\<lparr>hd_timer := tm_start tops now' (hd_timer h)\<rparr>)"
  using assms candidate_not_reset [OF assms(1)] by (auto simp: handle_def in_window_def split: option.splits)

lemma handle_service_first:
  assumes "service_mode_candidate p = Ok True" "in_window tops now (hd_timer h)" "hd_pending h \<noteq> Some p"
  shows "handle tops so now now' p h =
    (h\<lparr>hd_timer := tm_start tops now' (hd_timer h), hd_pending := Some p\<rparr>, Ok None)"
  using assms(3) by (simp add: handle_service [OF assms(1,2)] handle_service_mode_def Let_def)

lemma handle_service_second:
  assumes "service_mode_candidate p = Ok True" "in_window tops now (hd_timer h)" "hd_pending h = Some p"
    "instruction_type p = Ok t" "length (pkt_data p) \<noteq> 2"
  shows "handle tops so now now' p h =
    (let k = h\<lparr>hd_timer := tm_start tops now' (hd_timer h), hd_pending := None\<rparr>
     in case t of ManipulateBit \<Rightarrow> manipulate_bit so p k | VerifyByte \<Rightarrow> verify_byte so p k
        | WriteByte \<Rightarrow> write_byte so p k)"
  using assms(3-5)
  by (simp add: handle_service [OF assms(1,2)] handle_service_mode_def Let_def of_packet_def
      split: service_instruction_type.split)

lemma handle_reset_packet:
  "is_reset p \<Longrightarrow> handle tops so now now' p h = (h\<lparr>hd_timer := tm_start tops now (hd_timer h)\<rparr>, Ok (Some ResetOp))"
  by (simp add: handle_def handle_reset_def)

lemma handle_command_state: "fst (handle_command p h) = h"
  by (cases "parse_operation p")
    (auto simp: handle_command_def of_packet_def split: operation_mode_instruction.split advanced_operations_instruction.split)

lemma handle_command_no_ack: "snd (handle_command p h) \<notin> {Ok (Some AcknowledgeCv), Ok (Some Reboot)}"
  by (cases "parse_operation p")
    (auto simp: handle_command_def of_packet_def split: operation_mode_instruction.split advanced_operations_instruction.split)

text \<open>Outside this protocol nothing happens to the store.\<close>

lemma handle_outside_service:
  assumes "\<not> (in_window tops now (hd_timer h) \<and> service_mode_candidate p = Ok True \<and> hd_pending h = Some p)"
  shows "hd_store (fst (handle tops so now now' p h)) = hd_store h"
    and "snd (handle tops so now now' p h) \<notin> {Ok (Some AcknowledgeCv), Ok (Some Reboot)}"
proof -
  have *: "hd_store (fst (handle tops so now now' p h)) = hd_store h
    \<and> snd (handle tops so now now' p h) \<notin> {Ok (Some AcknowledgeCv), Ok (Some Reboot)}"
  proof (cases "in_window tops now (hd_timer h) \<and> service_mode_candidate p = Ok True")
    case True
    then show ?thesis using assms handle_service_first [of p tops now h so now'] by simp
  next
    case False
    let ?m = "(case tm_elapsed_ms tops now (hd_timer h) of
            Some elapsed \<Rightarrow>
              (if elapsed < SERVICE_MODE_TIMEOUT_MS then map_err PacketError (service_mode_candidate p) else Ok False)
          | None \<Rightarrow> Ok False)"
    have m: "?m \<noteq> Ok True" using False by (auto simp: in_window_def split: option.splits)
    show ?thesis
    proof (cases "is_reset p")
      case True
      then show ?thesis by (simp add: handle_reset_packet)
    next
      case reset: False
      have cmd: "hd_store (fst (handle_command p k)) = hd_store k" for k :: "('a, 'b) handler"
        by (simp add: handle_command_state)
      show ?thesis using m reset handle_command_no_ack [of p "h\<lparr>hd_timer := tm_stop tops (hd_timer h)\<rparr>"]
          handle_command_no_ack [of p h] cmd
        by (cases "is_recipient p so (hd_store h)"; cases "is_broadcast p :: (handler_error, bool) res")
          (auto simp: handle_def st_bind_def split: res.splits option.splits if_splits)
    qed
  qed
  show "hd_store (fst (handle tops so now now' p h)) = hd_store h"
    "snd (handle tops so now now' p h) \<notin> {Ok (Some AcknowledgeCv), Ok (Some Reboot)}"
    using * by blast+
qed

locale service_mode = st: cv_store so cvs wf + tm: service_timer tops
  for so :: "'s store_ops" and cvs wf and tops :: "'t timer_ops"
begin

lemma window_after_start:
  assumes "t0 \<le> now" "now < t0 + 20000"
  shows "in_window tops now (tm_start tops t0 t)"
  using tm.elapsed_below [of t0 now 20 t] assms by (auto simp: in_window_def SERVICE_MODE_TIMEOUT_MS_def)

text \<open>A packet sent twice in the window takes effect with the second copy.\<close>

lemma handle_twice:
  assumes "service_mode_candidate p = Ok True" "instruction_type p = Ok i" "length (pkt_data p) \<noteq> 2"
    "in_window tops t1 (hd_timer h)" "hd_pending h = None" "t1 \<le> t2" "t2 < t1 + 20000"
  shows "handle_all tops so ((t1, p) # (t2, p) # tps) h =
    (let k = h\<lparr>hd_timer := tm_start tops t2 (tm_start tops t1 (hd_timer h))\<rparr>;
         (k, r) = (case i of ManipulateBit \<Rightarrow> manipulate_bit so p k | VerifyByte \<Rightarrow> verify_byte so p k
           | WriteByte \<Rightarrow> write_byte so p k);
         (k, rs) = handle_all tops so tps k
     in (k, Ok None # r # rs))"
proof -
  let ?h = "h\<lparr>hd_timer := tm_start tops t1 (hd_timer h), hd_pending := Some p\<rparr>"
  have first: "handle tops so t1 t1 p h = (?h, Ok None)"
    using assms(1,4,5) by (simp add: handle_service_first)
  have w: "in_window tops t2 (hd_timer ?h)" using window_after_start assms(6,7) by simp
  have pend: "hd_pending ?h = Some p" by simp
  let ?k = "h\<lparr>hd_timer := tm_start tops t2 (tm_start tops t1 (hd_timer h))\<rparr>"
  have k: "?k = ?h\<lparr>hd_timer := tm_start tops t2 (hd_timer ?h), hd_pending := None\<rparr>"
    using assms(5) by simp
  have second: "handle tops so t2 t2 p ?h = (case i of ManipulateBit \<Rightarrow> manipulate_bit so p ?k
      | VerifyByte \<Rightarrow> verify_byte so p ?k | WriteByte \<Rightarrow> write_byte so p ?k)"
    unfolding k using handle_service_second [OF assms(1) w pend assms(2,3), of so t2]
    by (simp only: Let_def)
  show ?thesis
    by (simp add: first second Let_def split: prod.split)
qed

end

section \<open>The handler of the device\<close>

interpretation dcc: service_mode "flash_store p fo" flash_cvs flash_wf instant_timer_ops
  for p :: profile and fo :: "'f rp_flash"
  by unfold_locales

type_synonym 'f device = "(instant_timer, 'f flash) handler"

abbreviation device_handle where
  "device_handle pr fo \<equiv> handle instant_timer_ops (flash_store pr fo)"

abbreviation device_cvs :: "'f device \<Rightarrow> nat \<Rightarrow> u8" where
  "device_cvs h \<equiv> flash_cvs (hd_store h)"

text \<open>A flash whose operations all succeed.\<close>

definition flash_works :: "'f rp_flash \<Rightarrow> bool" where
  "flash_works fo \<longleftrightarrow> (\<forall>f from to. snd (fl_erase fo f from to)) \<and> (\<forall>f off d. snd (fl_write fo f off d))"

lemma flash_works_sync: "flash_works fo \<Longrightarrow> snd (sync_cvs fo s) = Ok ()"
  by (auto simp: flash_works_def sync_cvs_def Let_def split: prod.split)
    (metis snd_conv)+

lemma flash_works_write:
  assumes "flash_works fo" "flash_wf s" "1 \<le> a" "a + length v \<le> 1025"
  shows "snd (flash_write_bytes p fo s a v force) = Ok ()"
  using flash_works_sync [OF assms(1)]
  by (cases rule: flash_write_bytes_cases [OF assms(2-4), of force p fo]) simp_all

lemma flash_accepts: "flash_works fo \<Longrightarrow> accepts (flash_store p fo) flash_wf"
  using flash_works_write [of fo _ _ "[v]" for v]
  by (auto simp: accepts_def flash_store_def flash_write_byte_def)

lemma mem_flash_works: "flash_works (mem_flash True)"
  by (simp add: flash_works_def mem_flash_def)

definition device_new :: "'f flash \<Rightarrow> 'f device" where
  "device_new s = handler_new instant_timer_new s"

lemma device_new_simps [simp]:
  "hd_store (device_new s) = s" "hd_timer (device_new s) = instant_timer_new" "hd_pending (device_new s) = None"
  by (simp_all add: device_new_def handler_new_def)

section \<open>Properties\<close>

text \<open>C8: no packet can crash the handler or damage the address. Whatever non-empty packet arrives, at
  whatever time and in whatever state, the handler returns, the store stays well formed, and the
  address CVs keep usable values (short address in 1..127, long address high byte in 192..231, long
  address not 0), also when the flash fails half way through; the one exception is a service-mode
  packet that writes a single bit of CV 1, 17 or 18.\<close>

theorem handler_keeps_address_usable:
  assumes "flash_wf (hd_store h)" "pkt_data p \<noteq> []" "device_handle pr fo now now' p h = (h', r)"
  shows "r \<noteq> Panic \<and> flash_wf (hd_store h')
    \<and> (addr_cvs_ok (device_cvs h) \<and> \<not> address_bit_write p \<longrightarrow> addr_cvs_ok (device_cvs h'))"
  using fls.handle_keeps [OF assms(1,2), of True instant_timer_ops pr fo now now']
    fls.handle_keeps [OF assms(1,2), of False instant_timer_ops pr fo now now'] assms(3)
  by (simp_all add: post_def)

definition sample_store :: "u8 list flash" where
  "sample_store = blank_flash\<lparr>cache := DEFAULT_VALUES\<rparr>"

lemma sample_store_simps [simp]:
  "flash_wf sample_store" "1 \<le> a \<Longrightarrow> a \<le> 1024 \<Longrightarrow> flash_cvs sample_store a = DEFAULT_VALUES ! (a - 1)"
  by (simp_all add: sample_store_def flash_wf_def flash_cvs_def)

lemma sample_store_addr_ok: "addr_cvs_ok (flash_cvs sample_store)"
  using addr_cvs_ok_defaults [of "flash_cvs sample_store"]
  by (simp add: addr_cvs_ok_def cv_update_def CV_SIZE_def)

lemma handler_keeps_address_usable_witness:
  "\<exists>h' r. device_handle Dev (mem_flash True) 5 6 \<lparr>pkt_data = [0, 0]\<rparr> (device_new sample_store) = (h', r)
     \<and> r \<noteq> Panic \<and> addr_cvs_ok (device_cvs h')"
proof -
  obtain h' r where e: "device_handle Dev (mem_flash True) 5 6 \<lparr>pkt_data = [0, 0]\<rparr> (device_new sample_store) = (h', r)"
    by fastforce
  have n: "\<not> address_bit_write \<lparr>pkt_data = [0, 0]\<rparr>"
    by (simp add: address_bit_write_def instruction_type_def service_instruction_type_of_def)
  show ?thesis
    using handler_keeps_address_usable [OF _ _ e] n sample_store_addr_ok e by auto
qed



text \<open>Service packets as the handler sees them.\<close>

lemma service_write_packet_facts:
  assumes "1 \<le> unat cv" "unat cv \<le> 1024"
  shows "service_mode_candidate (service_write_packet cv v) = Ok True"
    "instruction_type (service_write_packet cv v) = Ok WriteByte"
    "cv_address (service_write_packet cv v) = Ok cv" "cv_data (service_write_packet cv v) = Ok v"
    "length (pkt_data (service_write_packet cv v)) \<noteq> 2"
  using service_packet_fields [OF assms, of 3 v]
  by (simp_all add: service_write_packet_def service_instruction_type_of_def)
    (simp add: service_packet_def Let_def)

lemma service_verify_packet_facts:
  assumes "1 \<le> unat cv" "unat cv \<le> 1024"
  shows "service_mode_candidate (service_verify_packet cv v) = Ok True"
    "instruction_type (service_verify_packet cv v) = Ok VerifyByte"
    "cv_address (service_verify_packet cv v) = Ok cv" "cv_data (service_verify_packet cv v) = Ok v"
    "length (pkt_data (service_verify_packet cv v)) \<noteq> 2"
  using service_packet_fields [OF assms, of 1 v]
  by (simp_all add: service_verify_packet_def service_instruction_type_of_def)
    (simp add: service_packet_def Let_def)

text \<open>The whole exchange: a reset, a packet twice, each within 20 ms of the one before.\<close>

lemma device_after_reset:
  assumes "is_reset z"
  shows "handle_all instant_timer_ops (flash_store pr fo) ((t0, z) # tps) h =
    (let (k, rs) = handle_all instant_timer_ops (flash_store pr fo) tps
       (h\<lparr>hd_timer := instant_timer_start t0 (hd_timer h)\<rparr>)
     in (k, Ok (Some ResetOp) # rs))"
  using assms by (simp add: handle_reset_packet instant_timer_ops_def)

definition spaced :: "instant list \<Rightarrow> bool" where
  "spaced ts \<longleftrightarrow> (\<forall>i. Suc i < length ts \<longrightarrow> ts ! i \<le> ts ! Suc i \<and> ts ! Suc i < ts ! i + 20000)"

lemma spaced_Cons: "spaced (t # t' # ts) \<longleftrightarrow> t \<le> t' \<and> t' < t + 20000 \<and> spaced (t' # ts)"
  unfolding spaced_def by (auto simp: less_Suc_eq_0_disj nth_Cons split: nat.split)

lemma device_window: "t0 \<le> t1 \<Longrightarrow> t1 < t0 + 20000 \<Longrightarrow> in_window instant_timer_ops t1 (instant_timer_start t0 t)"
  using dcc.window_after_start [of t0 t1 t] by (simp add: instant_timer_ops_def)

text \<open>C9: programming works end to end. On a working flash, a reset followed by two copies of a byte
  write and two copies of a byte verify, each packet within 20 ms of the previous one, acknowledges
  the write, stores exactly that value in exactly that CV, and acknowledges the verify exactly when
  it asks for the value written; for every CV in 1..1024 other than the ones with a meaning of their
  own (1, 7, 8, 17, 18, 31, 32).\<close>

theorem program_and_verify:
  assumes "flash_works fo" "flash_wf (hd_store h)" "hd_pending h = None" "is_reset z"
    "1 \<le> unat cv" "unat cv \<le> 1024" "unat cv \<notin> special_cvs" "spaced [t0, t1, t2, t3, t4]"
    "handle_all instant_timer_ops (flash_store pr fo)
       [(t0, z), (t1, service_write_packet cv v), (t2, service_write_packet cv v),
        (t3, service_verify_packet cv w), (t4, service_verify_packet cv w)] h = (h', rs)"
  shows "rs = [Ok (Some ResetOp), Ok None, Ok (Some AcknowledgeCv), Ok None,
      Ok (if w = v then Some AcknowledgeCv else None)]
    \<and> device_cvs h' = (device_cvs h)(unat cv := v)"
proof -
  note t = assms(8) [unfolded spaced_Cons]
  note wp = service_write_packet_facts [OF assms(5,6), of v]
  note vp = service_verify_packet_facts [OF assms(5,6), of w]
  let ?h0 = "h\<lparr>hd_timer := instant_timer_start t0 (hd_timer h)\<rparr>"
  let ?h2 = "?h0\<lparr>hd_timer := tm_start instant_timer_ops t2 (tm_start instant_timer_ops t1 (hd_timer ?h0))\<rparr>"
  have "flash_wf (hd_store ?h2)" using assms(2) by simp
  then obtain s where s: "write_byte (flash_store pr fo) (service_write_packet cv v) ?h2 = (?h2\<lparr>hd_store := s\<rparr>, Ok (Some AcknowledgeCv))"
    "flash_wf s" "flash_cvs s = (device_cvs h)(unat cv := v)"
    using fls.write_byte_plain [OF flash_accepts [OF assms(1)] _ wp(3,4) assms(7), of ?h2 pr] by auto
  let ?h2' = "?h2\<lparr>hd_store := s\<rparr>"
  let ?h4 = "?h2'\<lparr>hd_timer := tm_start instant_timer_ops t4 (tm_start instant_timer_ops t3 (hd_timer ?h2'))\<rparr>"
  have "flash_wf (hd_store ?h4)" using s by simp
  then have v: "verify_byte (flash_store pr fo) (service_verify_packet cv w) ?h4 = (?h4, Ok (if w = v then Some AcknowledgeCv else None))"
    using fls.verify_byte_result [OF _ vp(3,4), of ?h4 pr fo] s(3) by simp
  have w1: "in_window instant_timer_ops t1 (hd_timer ?h0)" using t by (simp add: device_window)
  have w3: "in_window instant_timer_ops t3 (hd_timer ?h2')" using t by (simp add: dcc.window_after_start)
  have "handle_all instant_timer_ops (flash_store pr fo)
      [(t3, service_verify_packet cv w), (t4, service_verify_packet cv w)] ?h2'
    = (?h4, [Ok None, Ok (if w = v then Some AcknowledgeCv else None)])"
    using dcc.handle_twice [OF vp(1,2,5) w3, of t4 pr fo "[]"] v assms(3) t by (simp add: Let_def)
  then have "handle_all instant_timer_ops (flash_store pr fo)
      [(t1, service_write_packet cv v), (t2, service_write_packet cv v),
       (t3, service_verify_packet cv w), (t4, service_verify_packet cv w)] ?h0
    = (?h4, [Ok None, Ok (Some AcknowledgeCv), Ok None, Ok (if w = v then Some AcknowledgeCv else None)])"
    using dcc.handle_twice [OF wp(1,2,5) w1, of t2 pr fo "[(t3, service_verify_packet cv w), (t4, service_verify_packet cv w)]"]
      s(1) assms(3) t by (simp add: Let_def)
  then have "h' = ?h4" "rs = [Ok (Some ResetOp), Ok None, Ok (Some AcknowledgeCv), Ok None,
      Ok (if w = v then Some AcknowledgeCv else None)]"
    using assms(9) by (simp_all add: device_after_reset [OF assms(4)] del: handle_all.simps)
  then show ?thesis using s(3) by simp
qed

lemma program_and_verify_witness:
  "\<exists>h'. handle_all instant_timer_ops (flash_store Dev (mem_flash True))
     [(0, \<lparr>pkt_data = [0, 0]\<rparr>), (7000, service_write_packet 5 80), (14000, service_write_packet 5 80),
      (21000, service_verify_packet 5 80), (28000, service_verify_packet 5 80)] (device_new sample_store)
     = (h', [Ok (Some ResetOp), Ok None, Ok (Some AcknowledgeCv), Ok None, Ok (Some AcknowledgeCv)])
   \<and> device_cvs h' 5 = 80"
proof -
  obtain h' rs where e: "handle_all instant_timer_ops (flash_store Dev (mem_flash True))
     [(0, \<lparr>pkt_data = [0, 0]\<rparr>), (7000, service_write_packet 5 80), (14000, service_write_packet 5 80),
      (21000, service_verify_packet 5 80), (28000, service_verify_packet 5 80)] (device_new sample_store) = (h', rs)"
    by fastforce
  have z: "is_reset \<lparr>pkt_data = [0, 0]\<rparr>" by (simp add: is_reset_def)
  have sp: "spaced [0, 7000, 14000, 21000, 28000]" by (simp add: spaced_Cons) (simp add: spaced_def)
  have n: "unat (5 :: u16) \<notin> special_cvs" by (simp add: special_cvs_def)
  show ?thesis
    using program_and_verify [OF mem_flash_works _ _ z _ _ n sp e] e by simp
qed

text \<open>C20: what byte writes refuse. A short address outside 1..127, a long-address high byte outside
  192..231 and either half of a long address that would make it 0 are refused with an error, writes
  to the page registers CV 31 and 32 are ignored, the manufacturer CV only reacts to the value 8,
  and the version CV is never written; in all these cases the state is unchanged.\<close>

theorem byte_write_guards:
  assumes "flash_wf (hd_store h)" "cv_address p = Ok a" "cv_data p = Ok v"
  shows "(unat a = 1 \<and> \<not> (1 \<le> unat v \<and> unat v \<le> 127)
      \<or> unat a = 17 \<and> (\<not> (192 \<le> unat v \<and> unat v \<le> 231) \<or> unat v = 192 \<and> device_cvs h 18 = 0)
      \<or> unat a = 18 \<and> unat (device_cvs h 17) = 192 \<and> v = 0 \<longrightarrow>
      write_byte (flash_store pr fo) p h = (h, Err (PacketError InvalidInstruction)))
    \<and> (unat a \<in> {31, 32} \<or> unat a = 8 \<and> v \<noteq> 8 \<longrightarrow> write_byte (flash_store pr fo) p h = (h, Ok None))
    \<and> (unat a = 7 \<and> v \<noteq> 7 \<longrightarrow> write_byte (flash_store pr fo) p h = (h, Ok (Some Reboot)))"
  using fls.write_byte_refused [OF assms] by blast

lemma byte_write_guards_witness:
  "write_byte (flash_store Dev (mem_flash True)) (service_write_packet 1 200) (device_new sample_store)
     = (device_new sample_store, Err (PacketError InvalidInstruction))"
  using byte_write_guards [of "device_new sample_store" "service_write_packet 1 200" 1 200 Dev "mem_flash True"]
    service_write_packet_facts [of 1 200] by simp

text \<open>A new short address takes effect at once. On a working flash, writing 1..127 to CV 1 is
  acknowledged, switches long addressing off, clears the consist address and changes nothing else, and
  from then on the decoder is the recipient of exactly the packets with that address.\<close>

theorem short_address_takes_effect:
  assumes "flash_works fo" "flash_wf (hd_store h)" "cv_address p = Ok 1" "cv_data p = Ok v"
    "1 \<le> unat v" "unat v \<le> 127"
  shows "\<exists>s. write_byte (flash_store pr fo) p h = (h\<lparr>hd_store := s\<rparr>, Ok (Some AcknowledgeCv))
    \<and> flash_cvs s = (device_cvs h)(1 := v, 29 := device_cvs h 29 AND NOT 32, 19 := 0)
    \<and> (\<forall>q. pkt_data q \<noteq> [] \<longrightarrow> is_recipient q (flash_store pr fo) s = Ok (packet_addr q = Ok (ucast v)))"
proof -
  obtain s where s: "write_byte (flash_store pr fo) p h = (h\<lparr>hd_store := s\<rparr>, Ok (Some AcknowledgeCv))" "flash_wf s"
    "flash_cvs s = (device_cvs h)(1 := v, 29 := device_cvs h 29 AND NOT 32, 19 := 0)"
    using fls.write_byte_primary [OF flash_accepts [OF assms(1)] assms(2-6), of pr] by blast
  have "(device_cvs h 29 AND NOT 32) AND 32 = (0 :: u8)"
    by (simp only: and.assoc bit.conj_cancel_left and_zero_eq)
  then have "addr_of_cvs (flash_cvs s) = ucast v"
    by (simp only: addr_of_cvs_def s(3)) simp
  then show ?thesis using s fls.is_recipient_addr [OF s(2)] by auto
qed

lemma short_address_takes_effect_witness:
  "\<exists>s. write_byte (flash_store Dev (mem_flash True)) (service_write_packet 1 42) (device_new sample_store)
     = ((device_new sample_store)\<lparr>hd_store := s\<rparr>, Ok (Some AcknowledgeCv))
   \<and> is_recipient (operation_packet 42 []) (flash_store Dev (mem_flash True)) s = Ok True"
proof -
  have "packet_addr (operation_packet 42 []) = Ok 42" "pkt_data (operation_packet 42 []) \<noteq> []"
    by (simp_all add: operation_packet_def packet_addr_def)
  then show ?thesis
    using short_address_takes_effect [OF mem_flash_works, of "device_new sample_store"
        "service_write_packet 1 42" 42 Dev] service_write_packet_facts [of 1 42] by force
qed

text \<open>C18: bit manipulation touches one bit. A bit write sets that bit of the CV to the value in the
  packet, leaves every other bit and every other CV alone and acknowledges; a bit verify changes
  nothing and acknowledges exactly when the bit has the value asked for.\<close>

theorem bit_manipulation:
  assumes "flash_works fo" "flash_wf (hd_store h)" "cv_address p = Ok a" "pos < 8"
  shows "(cv_data p = Ok (bit_command True pos b) \<longrightarrow>
      (\<exists>s v. manipulate_bit (flash_store pr fo) p h = (h\<lparr>hd_store := s\<rparr>, Ok (Some AcknowledgeCv))
        \<and> flash_cvs s = (device_cvs h)(unat a := v)
        \<and> (\<forall>n. bit v n \<longleftrightarrow> (if n = pos then b else bit (device_cvs h (unat a)) n))))
    \<and> (cv_data p = Ok (bit_command False pos b) \<longrightarrow>
      manipulate_bit (flash_store pr fo) p h =
        (h, Ok (if bit (device_cvs h (unat a)) pos = b then Some AcknowledgeCv else None)))"
  using fls.manipulate_bit_write [OF flash_accepts [OF assms(1)] assms(2,3) _ assms(4), of b pr]
    fls.manipulate_bit_verify [OF assms(2,3) _ assms(4), of b pr fo] by blast

lemma service_bit_packet_facts:
  assumes "1 \<le> unat cv" "unat cv \<le> 1024"
  shows "service_mode_candidate (service_bit_write_packet cv pos b) = Ok True"
    "instruction_type (service_bit_write_packet cv pos b) = Ok ManipulateBit"
    "cv_address (service_bit_write_packet cv pos b) = Ok cv"
    "cv_data (service_bit_write_packet cv pos b) = Ok (0b11110000 OR push_bit 3 b OR pos)"
    "length (pkt_data (service_bit_write_packet cv pos b)) \<noteq> 2"
  using service_packet_fields [OF assms, of 2 "0b11110000 OR push_bit 3 b OR pos"]
  by (simp_all add: service_bit_write_packet_def service_instruction_type_of_def)
    (simp add: service_packet_def Let_def)

lemma bit_manipulation_witness:
  "\<exists>s v. manipulate_bit (flash_store Dev (mem_flash True)) (service_bit_write_packet 29 5 1) (device_new sample_store)
     = ((device_new sample_store)\<lparr>hd_store := s\<rparr>, Ok (Some AcknowledgeCv)) \<and> bit (flash_cvs s 29) 5"
proof -
  have "cv_data (service_bit_write_packet 29 5 1) = Ok (bit_command True 5 True)"
    using service_bit_packet_facts [of 29 5 1] by (simp add: bit_command_def)
  then show ?thesis
    using bit_manipulation [OF mem_flash_works, of "device_new sample_store" "service_bit_write_packet 29 5 1" 29 5 True Dev]
      service_bit_packet_facts [of 29 5 1] by force
qed

text \<open>C22: bit writes bypass the guards of byte writes. With address 1 programmed, clearing bit 0 of CV 1
  by a bit write is acknowledged and leaves the short address 0, which a byte write would refuse;
  the next start takes the store for empty and resets every CV to its factory default.\<close>

theorem bit_write_bypasses_guards:
  assumes "flash_works fo" "flash_wf (hd_store h)" "device_cvs h 1 = 1" "device_cvs h 29 AND 32 = 0"
  shows "\<exists>s. manipulate_bit (flash_store pr fo) (service_bit_write_packet 1 0 0) h
      = (h\<lparr>hd_store := s\<rparr>, Ok (Some AcknowledgeCv))
    \<and> flash_cvs s 1 = 0 \<and> store_addr (flash_store pr fo) s = Ok 0
    \<and> ensure_populated (flash_store pr fo) s = store_reset (flash_store pr fo) s"
proof -
  have d: "cv_data (service_bit_write_packet 1 0 0) = Ok (bit_command True 0 False)"
    and a: "cv_address (service_bit_write_packet 1 0 0) = Ok 1"
    using service_bit_packet_facts [of 1 0 0] by (simp_all add: bit_command_def)
  obtain s v where s: "manipulate_bit (flash_store pr fo) (service_bit_write_packet 1 0 0) h
      = (h\<lparr>hd_store := s\<rparr>, Ok (Some AcknowledgeCv))" "flash_wf s" "flash_cvs s = (device_cvs h)(1 := v)"
    and v: "\<forall>n. bit v n \<longleftrightarrow> (if n = 0 then False else bit (1 :: u8) n)"
    using fls.manipulate_bit_write [OF flash_accepts [OF assms(1)] assms(2) a d, of pr] assms(3) by auto
  have "v = 0" by (rule bit_eqI) (use v in \<open>auto simp: bit_1_iff\<close>)
  then have "addr_of_cvs (flash_cvs s) = 0" using assms(4) by (simp add: addr_of_cvs_def s(3))
  then show ?thesis
    using s \<open>v = 0\<close> fls.addr [OF s(2), of pr fo] fls.ensure_populated_cases [OF s(2), of pr fo] by auto
qed

lemma bit_write_bypasses_guards_witness:
  "\<exists>(h :: u8 list device) s. manipulate_bit (flash_store Dev (mem_flash True)) (service_bit_write_packet 1 0 0) h
      = (h\<lparr>hd_store := s\<rparr>, Ok (Some AcknowledgeCv)) \<and> store_addr (flash_store Dev (mem_flash True)) s = Ok 0"
proof -
  let ?s = "blank_flash\<lparr>cache := 1 # replicate 1023 0\<rparr>"
  have "flash_wf ?s" "flash_cvs ?s 1 = 1" "flash_cvs ?s 29 AND 32 = 0"
    by (simp_all add: flash_wf_def flash_cvs_def CV_SIZE_def)
  then obtain s where "manipulate_bit (flash_store Dev (mem_flash True)) (service_bit_write_packet 1 0 0) (device_new ?s)
      = ((device_new ?s)\<lparr>hd_store := s\<rparr>, Ok (Some AcknowledgeCv))" "store_addr (flash_store Dev (mem_flash True)) s = Ok 0"
    using bit_write_bypasses_guards [OF mem_flash_works, of "device_new ?s" Dev] by auto
  then show ?thesis by blast
qed

text \<open>C21: factory reset. On a working flash the value 8 written to CV 8, and the two-byte reset packet of
  the older standard, set every CV to its default and ask for a reboot; the decoder is then at
  address 3.\<close>

theorem factory_reset:
  assumes "flash_works fo" "flash_wf (hd_store h)" "hd_pending h = Some p"
    "pkt_data p = [0b01111111, 0b00001000] \<or> instruction_type p = Ok WriteByte \<and> cv_address p = Ok 8 \<and> cv_data p = Ok 8"
  shows "\<exists>h'. handle_service_mode (flash_store pr fo) p h = (h', Ok (Some Reboot))
    \<and> (\<forall>a. 1 \<le> a \<longrightarrow> a \<le> 1024 \<longrightarrow> device_cvs h' a = DEFAULT_VALUES ! (a - 1))
    \<and> store_addr (flash_store pr fo) (hd_store h') = Ok 3"
proof -
  obtain s where s: "store_reset (flash_store pr fo) (hd_store h) = (s, Ok ())"
    using flash_works_write [OF assms(1,2), of 1 DEFAULT_VALUES pr True]
    by (cases "store_reset (flash_store pr fo) (hd_store h)")
      (simp add: store_reset_def flash_store_def CV_SIZE_def)
  note vals = fls.reset_values [OF assms(2) s]
  have wf: "flash_wf s" using fls.reset(1) [OF assms(2) s] .
  have addr: "store_addr (flash_store pr fo) s = Ok 3"
    using fls.addr [OF wf, of pr fo] fls.reset_addr [OF assms(2) s] by simp
  let ?h = "h\<lparr>hd_pending := None, hd_store := s\<rparr>"
  have r: "reset_to_factory_defaults (flash_store pr fo) (h\<lparr>hd_pending := None\<rparr>) = (?h, Ok ())"
    by (simp add: reset_to_factory_defaults_def in_store_def s)
  have eight: "cv_try_from 8 = Some ManufacturerId" by (simp add: cv_try_from_iff)
  have "handle_service_mode (flash_store pr fo) p h = (?h, Ok (Some Reboot))"
  proof (cases "pkt_data p = [0b01111111, 0b00001000]")
    case True
    then show ?thesis using assms(3) r by (simp add: handle_service_mode_def Let_def)
  next
    case False
    then have "\<not> (length (pkt_data p) = 2 \<and> take 2 (pkt_data p) = [127, 8])" by auto
    then show ?thesis using False assms(3,4) r eight
      by (auto simp: handle_service_mode_def Let_def of_packet_def write_byte_def write_manufacturer_id_def)
  qed
  then show ?thesis using vals addr by (simp add: default_cvs_def)
qed

lemma factory_reset_witness:
  "\<exists>h'. handle_service_mode (flash_store Dev (mem_flash True)) (service_write_packet 8 8)
       ((device_new blank_flash)\<lparr>hd_pending := Some (service_write_packet 8 8)\<rparr>) = (h', Ok (Some Reboot))
    \<and> store_addr (flash_store Dev (mem_flash True)) (hd_store h') = Ok 3"
  using factory_reset [OF mem_flash_works, of "(device_new blank_flash)\<lparr>hd_pending := Some (service_write_packet 8 8)\<rparr>"
      "service_write_packet 8 8" Dev] service_write_packet_facts [of 8 8] by auto

text \<open>A packet outside service mode.\<close>

lemma handle_operation:
  assumes "flash_wf (hd_store h)" "pkt_data p \<noteq> []" "\<not> is_reset p"
    "\<not> (in_window instant_timer_ops now (hd_timer h) \<and> service_mode_candidate p = Ok True)"
  shows "device_handle pr fo now now' p h =
    (if packet_addr p = Ok (addr_of_cvs (device_cvs h)) then
       (h\<lparr>hd_timer := instant_timer_stop (hd_timer h)\<rparr>,
        case parse_operation p of
          Ok (AdvancedOperations (SpeedStepControl v)) \<Rightarrow> Ok (Some (Velocity128 v))
        | Ok (FunctionGroupInstr fg) \<Rightarrow> Ok (Some (SetFunctions fg))
        | Err e \<Rightarrow> Err (PacketError e)
        | Panic \<Rightarrow> Panic)
     else (h, Ok None))"
proof -
  have bc: "is_broadcast p = (Ok False :: (handler_error, bool) res)"
    using assms(2) packet_addr_bound [of p] by (cases rule: packet_addr_cases [of p])
      (auto simp: is_broadcast_def BROADCAST_ADDRESS_def word_unat_eq_iff)
  have cmd: "handle_command p k = (k, case parse_operation p of
          Ok (AdvancedOperations (SpeedStepControl v)) \<Rightarrow> Ok (Some (Velocity128 v))
        | Ok (FunctionGroupInstr fg) \<Rightarrow> Ok (Some (SetFunctions fg))
        | Err e \<Rightarrow> Err (PacketError e)
        | Panic \<Rightarrow> Panic)" for k :: "'a device"
    by (cases "parse_operation p") (auto simp: handle_command_def of_packet_def
      split: operation_mode_instruction.split advanced_operations_instruction.split)
  obtain c where c: "service_mode_candidate p = Ok c"
    using assms(2) by (cases "pkt_data p") (auto simp: service_mode_candidate_def)
  show ?thesis
    using assms(3,4) fls.is_recipient_addr [OF assms(1,2), of pr fo] bc c
    by (auto simp: handle_def in_window_def cmd instant_timer_ops_def split: option.splits)
qed



end
