(* ===== verification/Packet_Task.thy ===== *)
theory Packet_Task
  imports Motor_Tasks Function_Outputs Handler
begin

text \<open>
  The packet handler task (\<^verbatim>\<open>application/src/main.rs\<close>): it gives every packet to the handler of
  the \<^verbatim>\<open>dcc\<close> crate and passes the operation it asks for to the motor tasks or to the function
  outputs. A velocity that repeats the operation before it is not passed on again.
\<close>

section \<open>The task\<close>

record ('t, 's, 'w) packet_task =
  ap_handler :: "('t, 's) handler"
  ap_outputs :: "'w outputs"
  ap_last :: "dcc_op option"

definition packet_task_init :: "('t, 's) handler \<Rightarrow> 'w outputs \<Rightarrow> ('t, 's, 'w) packet_task" where
  "packet_task_init h fg = \<lparr>ap_handler = h, ap_outputs = fg, ap_last = None\<rparr>"

text \<open>What an iteration sends to the motor channel, unless it resets the system, which does not
  return.\<close>

datatype iteration = Commands "command list" | SysReset

definition obey :: "'w pin_hw \<Rightarrow> dcc_op \<Rightarrow> ('t, 's, 'w) packet_task \<Rightarrow> ('t, 's, 'w) packet_task \<times> iteration" where
  "obey hw op a = (case op of
     dcc_op.AcknowledgeCv \<Rightarrow> (a\<lparr>ap_last := Some op\<rparr>, Commands [command.AcknowledgeCv])
   | ResetOp \<Rightarrow> (a\<lparr>ap_last := Some op\<rparr>, Commands [command.Reset])
   | Velocity128 sp \<Rightarrow>
       if ap_last a \<noteq> Some op then
         (a\<lparr>ap_outputs := outputs_set_direction hw (vs_direction sp) (ap_outputs a), ap_last := Some op\<rparr>,
          Commands [SetVelocity128 sp])
       else (a\<lparr>ap_last := Some op\<rparr>, Commands [])
   | dcc_op.SetFunctions fg \<Rightarrow>
       (a\<lparr>ap_outputs := outputs_handle hw fg (ap_outputs a), ap_last := Some op\<rparr>, Commands [])
   | Reboot \<Rightarrow> (a, SysReset))"

definition packet_task_step ::
  "'t timer_ops \<Rightarrow> 's store_ops \<Rightarrow> 'w pin_hw \<Rightarrow> instant \<Rightarrow> instant \<Rightarrow> packet \<Rightarrow> ('t, 's, 'w) packet_task
   \<Rightarrow> ('t, 's, 'w) packet_task \<times> (unit, iteration) res" where
  "packet_task_step tops so hw now now' packet a =
     (let (h, r) = handle tops so now now' packet (ap_handler a); a = a\<lparr>ap_handler := h\<rparr> in
      case r of
        Ok (Some op) \<Rightarrow> (let (a, it) = obey hw op a in (a, Ok it))
      | Ok None \<Rightarrow> (a, Ok (Commands []))
      | Err e \<Rightarrow> (a, Ok (Commands []))
      | Panic \<Rightarrow> (a, Panic))"

text \<open>The loop over the packets to come, each with the clock readings of its iteration, up to a system
  reset; it collects the commands sent to the motor channel.\<close>

fun packet_task_run ::
  "'t timer_ops \<Rightarrow> 's store_ops \<Rightarrow> 'w pin_hw \<Rightarrow> (instant \<times> instant \<times> packet) list \<Rightarrow> ('t, 's, 'w) packet_task
   \<Rightarrow> ('t, 's, 'w) packet_task \<times> (unit, command list) res" where
  "packet_task_run tops so hw [] a = (a, Ok [])"
| "packet_task_run tops so hw ((now, now', packet) # ps) a =
     st_bind (packet_task_step tops so hw now now' packet a) (\<lambda>a it.
       case it of
         SysReset \<Rightarrow> (a, Ok [])
       | Commands cs \<Rightarrow> st_bind (packet_task_run tops so hw ps a) (\<lambda>a cs'. (a, Ok (cs @ cs'))))"

section \<open>Specification: the operations of the packets\<close>

text \<open>What the handler makes of the packets, up to a reboot.\<close>

fun received_ops :: "'t timer_ops \<Rightarrow> 's store_ops \<Rightarrow> (instant \<times> instant \<times> packet) list \<Rightarrow> ('t, 's) handler \<Rightarrow> dcc_op list" where
  "received_ops tops so [] h = []"
| "received_ops tops so ((now, now', p) # ps) h =
     (case handle tops so now now' p h of
        (h', Ok (Some op)) \<Rightarrow> if op = Reboot then [] else op # received_ops tops so ps h'
      | (h', _) \<Rightarrow> received_ops tops so ps h')"

text \<open>What operations mean for the outputs and for the speed.\<close>

fun output_events :: "dcc_op list \<Rightarrow> output_event list" where
  "output_events [] = []"
| "output_events (Velocity128 sp # ops) = SetDirection (vs_direction sp) # output_events ops"
| "output_events (dcc_op.SetFunctions fg # ops) = output_event.SetFunctions fg # output_events ops"
| "output_events (op # ops) = output_events ops"

fun last_velocity :: "velocity_setpoint option \<Rightarrow> dcc_op list \<Rightarrow> velocity_setpoint option" where
  "last_velocity v [] = v"
| "last_velocity v (op # ops) = last_velocity (case op of Velocity128 sp \<Rightarrow> Some sp | _ \<Rightarrow> v) ops"

fun last_command :: "velocity_setpoint option \<Rightarrow> command list \<Rightarrow> velocity_setpoint option" where
  "last_command v [] = v"
| "last_command v (c # cs) = last_command (case c of SetVelocity128 sp \<Rightarrow> Some sp | _ \<Rightarrow> v) cs"

text \<open>Acknowledgements and resets are never dropped.\<close>

fun stops :: "dcc_op list \<Rightarrow> command list" where
  "stops [] = []"
| "stops (dcc_op.AcknowledgeCv # ops) = command.AcknowledgeCv # stops ops"
| "stops (ResetOp # ops) = command.Reset # stops ops"
| "stops (op # ops) = stops ops"

definition is_velocity :: "command \<Rightarrow> bool" where
  "is_velocity c \<longleftrightarrow> (\<exists>sp. c = SetVelocity128 sp)"

text \<open>A velocity that is remembered has been passed on to both.\<close>

definition remembered :: "velocity_setpoint option \<Rightarrow> ('t, 's, 'w) packet_task \<Rightarrow> bool" where
  "remembered v a \<longleftrightarrow>
     (\<forall>sp. ap_last a = Some (Velocity128 sp) \<longrightarrow> v = Some sp \<and> fo_direction (ap_outputs a) = vs_direction sp)"

lemma outputs_run_Cons: "outputs_run hw (e # es) fg = outputs_run hw es (output_step hw e fg)"
  by (simp add: outputs_run_def)

lemma set_same_direction: "fo_direction fg = d \<Longrightarrow> output_step hw (SetDirection d) fg = fg"
  by (simp add: output_step_def outputs_set_direction_def)

text \<open>One operation: the outputs, the velocity commanded, and the other commands.\<close>

lemma obey_spec:
  assumes "remembered v a" "op \<noteq> Reboot" "obey hw op a = (a', it)"
  shows "\<exists>cs. it = Commands cs \<and> ap_handler a' = ap_handler a
    \<and> outputs_run hw (output_events [op]) (ap_outputs a) = ap_outputs a'
    \<and> last_command v cs = last_velocity v [op] \<and> filter (\<lambda>c. \<not> is_velocity c) cs = stops [op]
    \<and> remembered (last_velocity v [op]) a'"
proof (cases op)
  case (Velocity128 sp)
  show ?thesis
  proof (cases "ap_last a = Some op")
    case True
    then have "v = Some sp" "fo_direction (ap_outputs a) = vs_direction sp"
      using assms(1) Velocity128 by (simp_all add: remembered_def)
    then show ?thesis
      using assms(3) True Velocity128 by (auto simp: obey_def remembered_def outputs_run_def set_same_direction)
  next
    case False
    then show ?thesis
      using assms(3) Velocity128
      by (auto simp: obey_def remembered_def outputs_run_def output_step_def is_velocity_def outputs_set_direction_def)
  qed
qed (use assms in \<open>auto simp: obey_def remembered_def outputs_run_def output_step_def is_velocity_def\<close>)

lemma last_velocity_append: "last_velocity v (xs @ ys) = last_velocity (last_velocity v xs) ys"
  by (induction xs arbitrary: v) simp_all

lemma last_command_append: "last_command v (xs @ ys) = last_command (last_command v xs) ys"
  by (induction xs arbitrary: v) simp_all

lemma output_events_Cons: "output_events (op # ops) = output_events [op] @ output_events ops"
  by (cases op) simp_all

lemma stops_Cons: "stops (op # ops) = stops [op] @ stops ops"
  by (cases op) simp_all

lemma outputs_run_append: "outputs_run hw (es @ es') fg = outputs_run hw es' (outputs_run hw es fg)"
  by (simp add: outputs_run_def)

lemma remembered_handler [simp]: "remembered v (a\<lparr>ap_handler := h\<rparr>) = remembered v a"
  by (simp add: remembered_def)

context cv_store
begin

lemma packet_task_run_spec:
  fixes tops :: "'t timer_ops"
  assumes "wf (hd_store (ap_handler a))" "\<forall>(now, now', p) \<in> set ps. pkt_data p \<noteq> []" "remembered v a"
  shows "\<exists>a' cs. packet_task_run tops so hw ps a = (a', Ok cs)
    \<and> ap_outputs a' = outputs_run hw (output_events (received_ops tops so ps (ap_handler a))) (ap_outputs a)
    \<and> last_command v cs = last_velocity v (received_ops tops so ps (ap_handler a))
    \<and> filter (\<lambda>c. \<not> is_velocity c) cs = stops (received_ops tops so ps (ap_handler a))"
  using assms
proof (induction ps arbitrary: a v)
  case Nil
  then show ?case by (simp add: outputs_run_def)
next
  case (Cons x ps)
  obtain now now' p where x: "x = (now, now', p)" by (metis surj_pair)
  obtain h r where e: "handle tops so now now' p (ap_handler a) = (h, r)" by fastforce
  have "post (\<lambda>h'. wf (hd_store h')) (handle tops so now now' p (ap_handler a))"
    using handle_keeps [OF Cons.prems(1), of p False tops now now'] Cons.prems(2) by (simp add: x post_def)
  then have h: "wf (hd_store h)" "r \<noteq> Panic" by (simp_all add: e)
  have ps: "\<forall>(now, now', p) \<in> set ps. pkt_data p \<noteq> []" using Cons.prems(2) by simp
  let ?a = "a\<lparr>ap_handler := h\<rparr>"
  show ?case
  proof (cases "\<exists>op. r = Ok (Some op)")
    case False
    then have "packet_task_step tops so hw now now' p a = (?a, Ok (Commands []))"
      using h(2) by (cases r) (auto simp: packet_task_step_def e split: option.split)
    moreover have "received_ops tops so (x # ps) (ap_handler a) = received_ops tops so ps h"
      using False by (auto simp: x e split: res.split option.split)
    ultimately show ?thesis
      using Cons.IH [of ?a v] h(1) ps Cons.prems(3) by (auto simp: x)
  next
    case True
    then obtain op where op: "r = Ok (Some op)" by blast
    obtain a1 it where o1: "obey hw op ?a = (a1, it)" by fastforce
    then have step: "packet_task_step tops so hw now now' p a = (a1, Ok it)"
      by (simp add: packet_task_step_def e op)
    show ?thesis
    proof (cases "op = Reboot")
      case True
      then show ?thesis using o1 step by (auto simp: x e op obey_def outputs_run_def)
    next
      case False
      let ?ops = "received_ops tops so ps h"
      obtain cs where cs: "it = Commands cs" "ap_handler a1 = h"
        "outputs_run hw (output_events [op]) (ap_outputs a) = ap_outputs a1"
        "last_command v cs = last_velocity v [op]" "filter (\<lambda>c. \<not> is_velocity c) cs = stops [op]"
        "remembered (last_velocity v [op]) a1"
        using obey_spec [OF _ False o1, of v] Cons.prems(3) by auto
      obtain a' cs' where ih: "packet_task_run tops so hw ps a1 = (a', Ok cs')"
        "ap_outputs a' = outputs_run hw (output_events ?ops) (ap_outputs a1)"
        "last_command (last_velocity v [op]) cs' = last_velocity (last_velocity v [op]) ?ops"
        "filter (\<lambda>c. \<not> is_velocity c) cs' = stops ?ops"
        using Cons.IH [OF _ ps cs(6)] h(1) cs(2) by auto
      have "received_ops tops so (x # ps) (ap_handler a) = op # ?ops" using False by (simp add: x e op)
      moreover have "packet_task_run tops so hw (x # ps) a = (a', Ok (cs @ cs'))"
        by (simp add: x step cs(1) ih(1))
      ultimately show ?thesis
        using cs(3-5) ih(2-4)
        by (simp add: output_events_Cons [of op ?ops] stops_Cons [of op ?ops] outputs_run_append last_command_append
            del: output_events.simps stops.simps)
    qed
  qed
qed

end

section \<open>Properties\<close>



end
