(* ===== verification/Packet_Channel.thy ===== *)
theory Packet_Channel
  imports Packet_Task Codec "HOL-Library.Sublist"
begin

text \<open>
  The channel between the decoder task and the packet handler task (\<^verbatim>\<open>application/src/main.rs\<close>): a
  \<^verbatim>\<open>PubSubChannel\<close> of five packets with one subscriber. \<^verbatim>\<open>publish_immediate\<close> makes room by dropping
  the oldest packet, as its documentation says. The two tasks take turns in any order.
\<close>

section \<open>The channel and the two tasks\<close>

definition PACKET_CHANNEL_CAP :: nat where
  "PACKET_CHANNEL_CAP = 5"

definition publish_immediate :: "packet \<Rightarrow> packet list \<Rightarrow> packet list" where
  "publish_immediate p q = (if length q < PACKET_CHANNEL_CAP then q @ [p] else tl q @ [p])"

text \<open>The packets in the channel, the packet handler task, what it has sent to the motor channel, and
  whether it has ended by a system reset or a panic.\<close>

record ('t, 's, 'w) pipeline =
  pl_queue :: "packet list"
  pl_task :: "('t, 's, 'w) packet_task"
  pl_sent :: "command list"
  pl_ended :: bool

definition pipeline_init :: "('t, 's, 'w) packet_task \<Rightarrow> ('t, 's, 'w) pipeline" where
  "pipeline_init a = \<lparr>pl_queue = [], pl_task = a, pl_sent = [], pl_ended = False\<rparr>"

text \<open>A turn of the decoder task with the raw packet it has received, or one of the packet handler
  task with the clock readings of its iteration.\<close>

datatype turn = Received "u8 list" | Handled instant instant

fun pipeline_turn ::
  "'t timer_ops \<Rightarrow> 's store_ops \<Rightarrow> 'w pin_hw \<Rightarrow> turn \<Rightarrow> ('t, 's, 'w) pipeline \<Rightarrow> ('t, 's, 'w) pipeline" where
  "pipeline_turn tops so hw (Received raw) s =
     s\<lparr>pl_queue := fold publish_immediate (packet_decoder [raw]) (pl_queue s)\<rparr>"
| "pipeline_turn tops so hw (Handled now now') s =
     (case pl_queue s of
        [] \<Rightarrow> s
      | p # q \<Rightarrow>
          if pl_ended s then s
          else
            (case packet_task_step tops so hw now now' p (pl_task s) of
               (a, Ok (Commands cs)) \<Rightarrow> s\<lparr>pl_queue := q, pl_task := a, pl_sent := pl_sent s @ cs\<rparr>
             | (a, _) \<Rightarrow> s\<lparr>pl_queue := q, pl_task := a, pl_ended := True\<rparr>))"

definition pipeline_run ::
  "'t timer_ops \<Rightarrow> 's store_ops \<Rightarrow> 'w pin_hw \<Rightarrow> turn list \<Rightarrow> ('t, 's, 'w) pipeline \<Rightarrow> ('t, 's, 'w) pipeline" where
  "pipeline_run tops so hw ts s = fold (pipeline_turn tops so hw) ts s"

text \<open>The raw packets received.\<close>

fun arrivals :: "turn list \<Rightarrow> u8 list list" where
  "arrivals [] = []"
| "arrivals (Received raw # ts) = raw # arrivals ts"
| "arrivals (Handled now now' # ts) = arrivals ts"

text \<open>The handler keeps up when it never leaves more than five packets waiting, starting from \<open>n\<close>.\<close>

fun keeps_up :: "nat \<Rightarrow> turn list \<Rightarrow> bool" where
  "keeps_up n [] \<longleftrightarrow> True"
| "keeps_up n (Received raw # ts) \<longleftrightarrow> n < PACKET_CHANNEL_CAP \<and> keeps_up (Suc n) ts"
| "keeps_up n (Handled now now' # ts) \<longleftrightarrow> keeps_up (n - 1) ts"

section \<open>What reaches the handler\<close>

lemma packet_decoder_one: "packet_decoder [raw] = [] \<or> (\<exists>p. packet_decoder [raw] = [p])"
  by (auto split: res.splits option.splits)

lemma pipeline_run_simps [simp]:
  "pipeline_run tops so hw [] s = s"
  "pipeline_run tops so hw (t # ts) s = pipeline_run tops so hw ts (pipeline_turn tops so hw t s)"
  by (simp_all add: pipeline_run_def)

text \<open>The packets that the handler takes from the channel, with the clock readings of their turns.\<close>

fun handled ::
  "'t timer_ops \<Rightarrow> 's store_ops \<Rightarrow> 'w pin_hw \<Rightarrow> turn list \<Rightarrow> ('t, 's, 'w) pipeline \<Rightarrow> (instant \<times> instant \<times> packet) list" where
  "handled tops so hw [] s = []"
| "handled tops so hw (Received raw # ts) s = handled tops so hw ts (pipeline_turn tops so hw (Received raw) s)"
| "handled tops so hw (Handled now now' # ts) s =
     (if pl_ended s \<or> pl_queue s = [] then [] else [(now, now', hd (pl_queue s))])
     @ handled tops so hw ts (pipeline_turn tops so hw (Handled now now') s)"

definition packets_of :: "(instant \<times> instant \<times> packet) list \<Rightarrow> packet list" where
  "packets_of = map (\<lambda>(now, now', p). p)"

lemma packets_of_simps [simp]:
  "packets_of [] = []" "packets_of ((now, now', p) # ps) = p # packets_of ps"
  by (simp_all add: packets_of_def)

text \<open>It treats them one by one like the loop over a list of packets.\<close>

lemma ended_stays:
  assumes "pl_ended s"
  shows "pl_task (pipeline_run tops so hw ts s) = pl_task s" "pl_sent (pipeline_run tops so hw ts s) = pl_sent s"
    "handled tops so hw ts s = []" "pl_ended (pipeline_run tops so hw ts s)"
proof -
  have "pl_ended (pipeline_turn tops so hw t s)" "pl_task (pipeline_turn tops so hw t s) = pl_task s"
    "pl_sent (pipeline_turn tops so hw t s) = pl_sent s" if "pl_ended s" for t and s :: "('a, 'b, 'c) pipeline"
    using that by (cases t; auto split: list.split)+
  then have "pl_task (pipeline_run tops so hw ts s) = pl_task s \<and> pl_sent (pipeline_run tops so hw ts s) = pl_sent s
      \<and> handled tops so hw ts s = [] \<and> pl_ended (pipeline_run tops so hw ts s)"
    using assms
  proof (induction ts arbitrary: s)
    case (Cons t ts)
    then show ?case by (cases t) (simp_all del: pipeline_turn.simps)
  qed simp
  then show "pl_task (pipeline_run tops so hw ts s) = pl_task s" "pl_sent (pipeline_run tops so hw ts s) = pl_sent s"
    "handled tops so hw ts s = []" "pl_ended (pipeline_run tops so hw ts s)" by simp_all
qed

lemma pipeline_obeys:
  assumes "\<not> pl_ended s"
  shows "\<exists>r. packet_task_run tops so hw (handled tops so hw ts s) (pl_task s) = (pl_task (pipeline_run tops so hw ts s), r)
    \<and> (\<forall>cs. r = Ok cs \<longrightarrow> pl_sent (pipeline_run tops so hw ts s) = pl_sent s @ cs)"
  using assms
proof (induction ts arbitrary: s)
  case (Cons t ts)
  show ?case
  proof (cases "\<exists>now now' p q. t = Handled now now' \<and> pl_queue s = p # q")
    case True
    then obtain now now' p q where t: "t = Handled now now'" "pl_queue s = p # q" by blast
    obtain a r where step: "packet_task_step tops so hw now now' p (pl_task s) = (a, r)" by fastforce
    show ?thesis
    proof (cases "\<exists>cs. r = Ok (Commands cs)")
      case True
      then obtain cs where cs: "r = Ok (Commands cs)" by blast
      let ?s = "s\<lparr>pl_queue := q, pl_task := a, pl_sent := pl_sent s @ cs\<rparr>"
      obtain r' where "packet_task_run tops so hw (handled tops so hw ts ?s) a = (pl_task (pipeline_run tops so hw ts ?s), r')"
        "\<forall>cs'. r' = Ok cs' \<longrightarrow> pl_sent (pipeline_run tops so hw ts ?s) = pl_sent s @ cs @ cs'"
        using Cons.IH [of ?s] Cons.prems by auto
      with t step Cons.prems cs show ?thesis by (cases r') auto
    next
      case False
      with t step Cons.prems show ?thesis
        using ended_stays [of "s\<lparr>pl_queue := q, pl_task := a, pl_ended := True\<rparr>" tops so hw ts]
        by (auto split: res.splits iteration.splits)
    qed
  next
    case False
    then have "t = Handled now now' \<Longrightarrow> pl_queue s = []" for now now' by (cases "pl_queue s") auto
    then show ?thesis
      using Cons.IH [of "pipeline_turn tops so hw t s"] Cons.prems
      by (cases t) (simp_all del: packet_decoder_simps)
  qed
qed simp

text \<open>They are received packets in the order of their arrival, and all of them if the handler keeps up.\<close>

lemma subseq_publish: "subseq (publish_immediate p q) (q @ [p])"
  by (cases q) (auto simp: publish_immediate_def)

lemma queue_after_turn:
  "subseq (pl_queue (pipeline_turn tops so hw (Received raw) s)) (pl_queue s @ packet_decoder [raw])"
  "length (pl_queue s) < PACKET_CHANNEL_CAP \<Longrightarrow>
    pl_queue (pipeline_turn tops so hw (Received raw) s) = pl_queue s @ packet_decoder [raw]"
  "length (packet_decoder [raw]) \<le> 1"
  using packet_decoder_one [of raw] subseq_publish
  by (auto simp: publish_immediate_def simp del: packet_decoder_simps)

lemma arrivals_decoded: "packet_decoder (raw # raws) = packet_decoder [raw] @ packet_decoder raws"
  using packet_decoder_append [of "[raw]" raws] by simp

lemma queue_after_handled:
  "\<not> pl_ended s \<Longrightarrow> pl_queue (pipeline_turn tops so hw (Handled now now') s) = tl (pl_queue s)"
  by (auto split: list.splits res.splits iteration.splits prod.splits)

lemma pipeline_in_order:
  "subseq (packets_of (handled tops so hw ts s)) (pl_queue s @ packet_decoder (arrivals ts))"
proof (induction ts arbitrary: s)
  case (Cons t ts)
  show ?case
  proof (cases "pl_ended s")
    case True
    then show ?thesis by (simp add: ended_stays(3))
  next
    case False
    show ?thesis
    proof (cases t)
      case (Received raw)
      have "subseq (pl_queue (pipeline_turn tops so hw t s) @ packet_decoder (arrivals ts))
          (pl_queue s @ packet_decoder (arrivals (t # ts)))"
        using queue_after_turn(1) [of tops so hw raw s]
        by (simp add: Received arrivals_decoded [of raw "arrivals ts"] list_emb_append_mono
            flip: append_assoc del: packet_decoder_simps pipeline_turn.simps)
      with Cons.IH [of "pipeline_turn tops so hw t s"] show ?thesis
        by (simp add: Received subseq_order.trans del: packet_decoder_simps pipeline_turn.simps)
    next
      case (Handled now now')
      show ?thesis
        using Cons.IH [of "pipeline_turn tops so hw t s"] queue_after_handled [OF False, of tops so hw now now'] False
        by (cases "pl_queue s") (auto simp: Handled simp del: packet_decoder_simps pipeline_turn.simps)
    qed
  qed
qed simp

lemma pipeline_loses_nothing:
  assumes "\<not> pl_ended (pipeline_run tops so hw ts s)" "keeps_up n ts" "length (pl_queue s) \<le> n"
  shows "packets_of (handled tops so hw ts s) @ pl_queue (pipeline_run tops so hw ts s)
     = pl_queue s @ packet_decoder (arrivals ts)"
  using assms
proof (induction ts arbitrary: s n)
  case (Cons t ts)
  have e: "\<not> pl_ended s" using Cons.prems(1) ended_stays(4) [of s tops so hw "t # ts"] by blast
  show ?case
  proof (cases t)
    case (Received raw)
    have "pl_queue (pipeline_turn tops so hw t s) = pl_queue s @ packet_decoder [raw]"
      using queue_after_turn(2) [of s tops so hw raw] Cons.prems by (simp add: Received)
    moreover have "length (packet_decoder [raw]) \<le> 1" by (rule queue_after_turn(3))
    ultimately show ?thesis
      using Cons.IH [of "pipeline_turn tops so hw t s" "Suc n"] Cons.prems
      by (simp add: Received arrivals_decoded [of raw "arrivals ts"] del: packet_decoder_simps pipeline_turn.simps)
  next
    case (Handled now now')
    show ?thesis
      using Cons.IH [of "pipeline_turn tops so hw t s" "n - 1"] queue_after_handled [OF e, of tops so hw now now'] e Cons.prems
      by (cases "pl_queue s") (auto simp: Handled simp del: packet_decoder_simps pipeline_turn.simps)
  qed
qed simp


text \<open>No packet handled ends the task.\<close>

fun runs_on ::
  "'t timer_ops \<Rightarrow> 's store_ops \<Rightarrow> 'w pin_hw \<Rightarrow> (instant \<times> instant \<times> packet) list \<Rightarrow> ('t, 's, 'w) packet_task \<Rightarrow> bool" where
  "runs_on tops so hw [] a \<longleftrightarrow> True"
| "runs_on tops so hw ((now, now', p) # ps) a \<longleftrightarrow>
     (case packet_task_step tops so hw now now' p a of
        (a, Ok (Commands cs)) \<Rightarrow> runs_on tops so hw ps a
      | _ \<Rightarrow> False)"

lemma runs_on_not_ended:
  assumes "\<not> pl_ended s" "runs_on tops so hw (handled tops so hw ts s) (pl_task s)"
  shows "\<not> pl_ended (pipeline_run tops so hw ts s)"
  using assms
proof (induction ts arbitrary: s)
  case (Cons t ts)
  show ?case
  proof (cases t)
    case (Received raw)
    then show ?thesis using Cons.IH [of "pipeline_turn tops so hw t s"] Cons.prems by (simp del: packet_decoder_simps)
  next
    case (Handled now now')
    then show ?thesis using Cons by (cases "pl_queue s") (auto split: res.splits iteration.splits)
  qed
qed simp

text \<open>A handler that keeps up has handled every packet that is not waiting, unless one ended the task.\<close>

lemma pipeline_delivers:
  assumes "keeps_up 0 ts" "s = pipeline_run tops so hw ts (pipeline_init a)"
    and "\<And>xs. subseq (packets_of xs) (packet_decoder (arrivals ts)) \<Longrightarrow> runs_on tops so hw xs a"
  shows "\<not> pl_ended s"
    and "packets_of (handled tops so hw ts (pipeline_init a)) @ pl_queue s = packet_decoder (arrivals ts)"
proof -
  let ?i = "pipeline_init a" and ?got = "handled tops so hw ts (pipeline_init a)"
  have i: "\<not> pl_ended ?i" "pl_queue ?i = []" "pl_task ?i = a" by (simp_all add: pipeline_init_def)
  have "runs_on tops so hw ?got a" using assms(3) pipeline_in_order [of tops so hw ts ?i] i(2) by simp
  then show e: "\<not> pl_ended s" using runs_on_not_ended [OF i(1), of tops so hw ts] i(3) assms(2) by simp
  show "packets_of ?got @ pl_queue s = packet_decoder (arrivals ts)"
    using pipeline_loses_nothing [of tops so hw ts ?i 0] assms(1,2) e i(2) by simp
qed

text \<open>The channel alone, for turns that do not end the task: the packets dealt out, with their clock readings,
  and the ones still waiting.\<close>

fun dealt :: "turn list \<Rightarrow> packet list \<Rightarrow> (instant \<times> instant \<times> packet) list" where
  "dealt [] q = []"
| "dealt (Received raw # ts) q = dealt ts (fold publish_immediate (packet_decoder [raw]) q)"
| "dealt (Handled now now' # ts) q = (case q of [] \<Rightarrow> dealt ts [] | p # q \<Rightarrow> (now, now', p) # dealt ts q)"

fun waiting :: "turn list \<Rightarrow> packet list \<Rightarrow> packet list" where
  "waiting [] q = q"
| "waiting (Received raw # ts) q = waiting ts (fold publish_immediate (packet_decoder [raw]) q)"
| "waiting (Handled now now' # ts) q = waiting ts (tl q)"

lemma handled_dealt:
  assumes "\<not> pl_ended (pipeline_run tops so hw ts s)"
  shows "handled tops so hw ts s = dealt ts (pl_queue s)" "pl_queue (pipeline_run tops so hw ts s) = waiting ts (pl_queue s)"
proof -
  have "handled tops so hw ts s = dealt ts (pl_queue s) \<and> pl_queue (pipeline_run tops so hw ts s) = waiting ts (pl_queue s)"
    using assms
  proof (induction ts arbitrary: s)
    case (Cons t ts)
    have e: "\<not> pl_ended s" using Cons.prems ended_stays(4) [of s tops so hw "t # ts"] by blast
    show ?case
    proof (cases t)
      case (Received raw)
      then show ?thesis
        using Cons.IH [of "pipeline_turn tops so hw t s"] Cons.prems by (simp del: packet_decoder_simps)
    next
      case (Handled now now')
      then show ?thesis
        using Cons.IH [of "pipeline_turn tops so hw t s"] Cons.prems queue_after_handled [OF e, of tops so hw now now'] e
        by (cases "pl_queue s") (simp_all del: pipeline_turn.simps)
    qed
  qed simp
  then show "handled tops so hw ts s = dealt ts (pl_queue s)"
    "pl_queue (pipeline_run tops so hw ts s) = waiting ts (pl_queue s)" by blast+
qed

text \<open>A single valid packet among those that arrive.\<close>

lemma pipeline_single:
  assumes "packet_decoder (arrivals ts) = [q]" "keeps_up 0 ts"
    and "s = pipeline_run tops so hw ts (pipeline_init a)" "pl_queue s = []"
    and step: "\<And>now now'. \<exists>a'. packet_task_step tops so hw now now' q a = (a', Ok (Commands cs)) \<and> P a'"
  shows "pl_sent s = cs \<and> P (pl_task s)"
proof -
  let ?i = "pipeline_init a" and ?got = "handled tops so hw ts (pipeline_init a)"
  have i: "\<not> pl_ended ?i" "pl_task ?i = a" "pl_sent ?i = []" by (simp_all add: pipeline_init_def)
  have "runs_on tops so hw xs a" if "subseq (packets_of xs) [q]" for xs
  proof -
    have "packets_of xs = [] \<or> packets_of xs = [q]" using that by (auto elim: list_emb.cases)
    then have "xs = [] \<or> (\<exists>now now'. xs = [(now, now', q)])" by (auto simp: packets_of_def map_eq_Cons_conv)
    moreover have "runs_on tops so hw [(now, now', q)] a" for now now' using step [of now now'] by auto
    ultimately show ?thesis by auto
  qed
  then have "packets_of ?got = [q]" using pipeline_delivers(2) [OF assms(2,3)] assms(1,4) by simp
  then obtain now now' where "?got = [(now, now', q)]" by (auto simp: packets_of_def map_eq_Cons_conv)
  moreover obtain a' where "packet_task_step tops so hw now now' q a = (a', Ok (Commands cs))" "P a'"
    using step by blast
  ultimately show ?thesis using pipeline_obeys [OF i(1), of tops so hw ts] i(2,3) assms(3) by auto
qed

section \<open>Properties\<close>



text \<open>Six packets before the handler's first turn are one too many: the first is lost.\<close>

lemma slow_handler_loses_packets:
  "pl_queue (pipeline_run tops so hw (map (\<lambda>k. Received [3, k, 3 XOR k]) [1, 2, 3, 4, 5, 6]) (pipeline_init a))
     = map (\<lambda>k. \<lparr>pkt_data = [3, k]\<rparr>) [2, 3, 4, 5, 6]"
  by (simp add: pipeline_init_def decode_eq PACKET_CHANNEL_CAP_def publish_immediate_def)

end
