(* ===== verification/Cv_Programming.thy ===== *)
theory Cv_Programming
  imports Packet_Channel
begin

text \<open>
  Programming a CV through the packet task (\<^verbatim>\<open>application/src/main.rs\<close> over \<^verbatim>\<open>dcc/src/handler.rs\<close>
  and \<^verbatim>\<open>application/src/store/mod.rs\<close>): the service-mode exchange packet by packet, with the clock
  readings of every iteration, and a store that stays in step with its flash, so that a restart
  reads what was programmed.
\<close>

section \<open>A store in step with its flash\<close>

definition flash_stored :: "'f rp_flash \<Rightarrow> 'f flash \<Rightarrow> bool" where
  "flash_stored fo s \<longleftrightarrow> flash_wf s \<and> in_step fo s"

lemma flash_write_in_step:
  assumes "flash_works fo" "flash_durable fo" "flash_stored fo s" "1 \<le> a" "a + length v \<le> 1025"
    "flash_write_bytes p fo s a v force = (s', r)"
  shows "in_step fo s'"
proof -
  have wf: "flash_wf s" "in_step fo s" using assms(3) by (simp_all add: flash_stored_def)
  show ?thesis
  proof (cases rule: flash_write_bytes_cases [OF wf(1) assms(4,5), of force p fo])
    case 1
    then show ?thesis using wf(2) assms(6) by simp
  next
    case (2 u)
    then have "sync_cvs fo u = (s', Ok ())"
      using flash_works_sync [OF assms(1), of u] assms(6) by (cases "sync_cvs fo u") simp
    then show ?thesis using sync_in_step [OF assms(2)] 2 by blast
  qed
qed

text \<open>The contract of a CV store holds for this stronger invariant too.\<close>

lemma stored_cv_store:
  assumes "flash_works fo" "flash_durable fo"
  shows "cv_store (flash_store p fo) flash_cvs (flash_stored fo)"
proof
  fix s s' a v r n vs force
  assume s: "flash_stored fo s"
  then have wf: "flash_wf s" by (simp add: flash_stored_def)
  show "op_read_byte (flash_store p fo) s a = Ok (flash_cvs s a)" if "1 \<le> a" "a \<le> 1024"
    using fls.read_byte [OF wf that] .
  show "op_read_bytes (flash_store p fo) s a n = Ok (map (flash_cvs s) [a..<a + n])" if "1 \<le> a" "a + n \<le> 1025"
    using fls.read_bytes [OF wf that] .
  show "flash_stored fo s' \<and> write_outcome (flash_cvs s) ((flash_cvs s)(a := v)) (flash_cvs s') r"
    if "1 \<le> a" "a \<le> 1024" "op_write_byte (flash_store p fo) s a v = (s', r)"
    using fls.write_byte [OF wf that] flash_write_in_step [OF assms s that(1), of "[v]"] that(2,3)
    by (auto simp: flash_stored_def flash_store_def flash_write_byte_def)
  show "flash_stored fo s' \<and> write_outcome (flash_cvs s) (cv_update (flash_cvs s) a vs) (flash_cvs s') r"
    if "1 \<le> a" "a + length vs \<le> 1025" "op_write_bytes (flash_store p fo) s a vs force = (s', r)"
    using fls.write_bytes [OF wf that] flash_write_in_step [OF assms s that(1,2)] that(3)
    by (auto simp: flash_stored_def flash_store_def)
qed

lemma stored_accepts: "flash_works fo \<Longrightarrow> accepts (flash_store p fo) (flash_stored fo)"
  using flash_accepts [of fo p] by (simp add: accepts_def flash_stored_def)

lemma restart_reads:
  assumes "flash_stored fo s" "flash_new p es fo (flash_dev s) (cv_data_start s) = Ok t"
  shows "flash_cvs t = flash_cvs s"
proof -
  have "cache t = cache s"
    using assms by (cases "read_cv_array fo (flash_dev s) (cv_data_start s)")
      (auto simp: flash_stored_def in_step_def flash_new_def)
  then show ?thesis by (simp add: flash_cvs_def fun_eq_iff)
qed

section \<open>The packets of direct mode\<close>

text \<open>A byte instruction as it arrives, without the placeholder for the checksum that the packets of the
  unit tests carry.\<close>

definition direct_packet :: "u8 \<Rightarrow> u16 \<Rightarrow> u8 \<Rightarrow> packet" where
  "direct_packet code cv v = \<lparr>pkt_data = [0x70 OR push_bit 2 code OR ucast (drop_bit 8 (cv - 1) AND 0x03),
     ucast ((cv - 1) AND 0xFF), v]\<rparr>"

lemma service_packet_direct: "pkt_data (service_packet code cv v) = pkt_data (direct_packet code cv v) @ [0]"
  by (simp add: service_packet_def direct_packet_def Let_def)

lemma direct_packet_reads:
  "service_mode_candidate (direct_packet code cv v) = service_mode_candidate (service_packet code cv v)"
  "instruction_type (direct_packet code cv v) = instruction_type (service_packet code cv v)"
  "cv_address (direct_packet code cv v) = cv_address (service_packet code cv v)"
  "cv_data (direct_packet code cv v) = cv_data (service_packet code cv v)"
  "length (pkt_data (direct_packet code cv v)) \<noteq> 2"
  by (simp_all add: service_mode_candidate_def instruction_type_def cv_address_def cv_data_def service_packet_direct)
    (simp_all add: direct_packet_def index_def)

lemma direct_write_facts:
  assumes "1 \<le> unat cv" "unat cv \<le> 1024"
  shows "service_mode_candidate (direct_packet 0b11 cv v) = Ok True"
    "instruction_type (direct_packet 0b11 cv v) = Ok WriteByte"
    "cv_address (direct_packet 0b11 cv v) = Ok cv" "cv_data (direct_packet 0b11 cv v) = Ok v"
    "length (pkt_data (direct_packet 0b11 cv v)) \<noteq> 2"
  using service_write_packet_facts [OF assms, of v]
  by (simp_all only: direct_packet_reads service_write_packet_def) simp

lemma direct_verify_facts:
  assumes "1 \<le> unat cv" "unat cv \<le> 1024"
  shows "service_mode_candidate (direct_packet 0b01 cv v) = Ok True"
    "instruction_type (direct_packet 0b01 cv v) = Ok VerifyByte"
    "cv_address (direct_packet 0b01 cv v) = Ok cv" "cv_data (direct_packet 0b01 cv v) = Ok v"
    "length (pkt_data (direct_packet 0b01 cv v)) \<noteq> 2"
  using service_verify_packet_facts [OF assms, of v]
  by (simp_all only: direct_packet_reads service_verify_packet_def) simp

section \<open>The exchange, packet by packet\<close>

text \<open>Each packet is handled within 20 ms of the one before, and the readings of the clock are in order.\<close>

fun in_time :: "(instant \<times> instant \<times> packet) list \<Rightarrow> bool" where
  "in_time ((t, u, p) # (t', u', p') # ps) \<longleftrightarrow> t \<le> u \<and> u \<le> t' \<and> t' < t + 20000 \<and> in_time ((t', u', p') # ps)"
| "in_time [(t, u, p)] \<longleftrightarrow> t \<le> u"
| "in_time [] \<longleftrightarrow> True"

text \<open>The task in service mode: its timer was started at \<open>t\<close>, its store is \<open>s\<close>.\<close>

definition in_service ::
  "instant \<Rightarrow> 'f flash \<Rightarrow> packet option \<Rightarrow> (instant_timer, 'f flash, 'w) packet_task \<Rightarrow> bool" where
  "in_service t s pend a \<longleftrightarrow> (\<exists>x. hd_timer (ap_handler a) = instant_timer_start t x)
     \<and> hd_store (ap_handler a) = s \<and> hd_pending (ap_handler a) = pend"

lemma in_service_window:
  "in_service t s pend a \<Longrightarrow> t \<le> t' \<Longrightarrow> t' < t + 20000 \<Longrightarrow> in_window instant_timer_ops t' (hd_timer (ap_handler a))"
  by (auto simp: in_service_def device_window)

lemma reset_enters_service:
  assumes "is_reset z" "hd_store (ap_handler a) = s" "hd_pending (ap_handler a) = None"
  shows "\<exists>a'. packet_task_step instant_timer_ops so hw t u z a = (a', Ok (Commands [command.Reset])) \<and> in_service t s None a'"
  using assms handle_reset_packet [OF assms(1), of instant_timer_ops so t u "ap_handler a"]
  by (auto simp: packet_task_step_def obey_def in_service_def instant_timer_ops_def)

lemma first_copy:
  assumes "service_mode_candidate p = Ok True" "in_service t s None a" "t \<le> t'" "t' < t + 20000"
  shows "\<exists>a'. packet_task_step instant_timer_ops so hw t' u p a = (a', Ok (Commands [])) \<and> in_service u s (Some p) a'"
proof -
  have "hd_pending (ap_handler a) \<noteq> Some p" using assms(2) by (simp add: in_service_def)
  from handle_service_first [OF assms(1) in_service_window [OF assms(2-4)] this, of so u] show ?thesis
    using assms(2) by (auto simp: packet_task_step_def in_service_def instant_timer_ops_def)
qed

text \<open>The second copy, as the handler sees it.\<close>

lemma second_copy:
  assumes "service_mode_candidate p = Ok True" "instruction_type p = Ok i" "length (pkt_data p) \<noteq> 2"
    "in_service t s (Some p) a" "t \<le> t'" "t' < t + 20000"
  shows "\<exists>k. handle instant_timer_ops so t' u p (ap_handler a)
      = (case i of ManipulateBit \<Rightarrow> manipulate_bit so p k | VerifyByte \<Rightarrow> verify_byte so p k | WriteByte \<Rightarrow> write_byte so p k)
    \<and> hd_store k = s \<and> hd_pending k = None \<and> (\<exists>x. hd_timer k = instant_timer_start u x)"
proof -
  have "hd_pending (ap_handler a) = Some p" using assms(4) by (simp add: in_service_def)
  from handle_service_second [OF assms(1) in_service_window [OF assms(4-6)] this assms(2,3), of so u] show ?thesis
    using assms(4)
    by (intro exI [of _ "(ap_handler a)\<lparr>hd_timer := instant_timer_start u (hd_timer (ap_handler a)), hd_pending := None\<rparr>"])
      (auto simp: Let_def in_service_def instant_timer_ops_def)
qed

lemma second_write:
  assumes fo: "flash_works fo" "flash_durable fo" and cv: "1 \<le> unat cv" "unat cv \<le> 1024" "unat cv \<notin> special_cvs"
    and a: "flash_stored fo s" "in_service t s (Some (direct_packet 0b11 cv v)) a" "t \<le> t'" "t' < t + 20000"
  shows "\<exists>a' s'. packet_task_step instant_timer_ops (flash_store p fo) hw t' u (direct_packet 0b11 cv v) a
      = (a', Ok (Commands [command.AcknowledgeCv]))
    \<and> in_service u s' None a' \<and> flash_stored fo s' \<and> flash_cvs s' = (flash_cvs s)(unat cv := v)"
proof -
  note wp = direct_write_facts [OF cv(1,2), of v]
  obtain k where k: "handle instant_timer_ops (flash_store p fo) t' u (direct_packet 0b11 cv v) (ap_handler a)
      = write_byte (flash_store p fo) (direct_packet 0b11 cv v) k"
    "hd_store k = s" "hd_pending k = None" "\<exists>x. hd_timer k = instant_timer_start u x"
    using second_copy [OF wp(1,2,5) a(2-4), of "flash_store p fo" u] by auto
  obtain s' where "write_byte (flash_store p fo) (direct_packet 0b11 cv v) k = (k\<lparr>hd_store := s'\<rparr>, Ok (Some dcc_op.AcknowledgeCv))"
    "flash_stored fo s'" "flash_cvs s' = (flash_cvs s)(unat cv := v)"
    using cv_store.write_byte_plain [OF stored_cv_store [OF fo] stored_accepts [OF fo(1)] _ wp(3,4) cv(3), of k] a(1) k(2) by auto
  then show ?thesis
    using k by (auto simp: packet_task_step_def obey_def in_service_def)
qed

lemma second_verify:
  assumes cv: "1 \<le> unat cv" "unat cv \<le> 1024" "flash_wf s"
    and a: "in_service t s (Some (direct_packet 0b01 cv w)) a" "t \<le> t'" "t' < t + 20000"
  shows "\<exists>a'. packet_task_step instant_timer_ops (flash_store p fo) hw t' u (direct_packet 0b01 cv w) a
      = (a', Ok (Commands (if w = flash_cvs s (unat cv) then [command.AcknowledgeCv] else []))) \<and> in_service u s None a'"
proof -
  note vp = direct_verify_facts [OF cv(1,2), of w]
  obtain k where k: "handle instant_timer_ops (flash_store p fo) t' u (direct_packet 0b01 cv w) (ap_handler a)
      = verify_byte (flash_store p fo) (direct_packet 0b01 cv w) k"
    "hd_store k = s" "hd_pending k = None" "\<exists>x. hd_timer k = instant_timer_start u x"
    using second_copy [OF vp(1,2,5) a, of "flash_store p fo" u] by auto
  then show ?thesis
    using fls.verify_byte_result [OF _ vp(3,4), of k p fo] cv(3)
    by (auto simp: packet_task_step_def obey_def in_service_def)
qed

text \<open>The packets of the exchange.\<close>

definition exchange :: "packet \<Rightarrow> u16 \<Rightarrow> u8 \<Rightarrow> u8 \<Rightarrow> packet list" where
  "exchange z cv v w = [z, direct_packet 0b11 cv v, direct_packet 0b11 cv v,
     direct_packet 0b01 cv w, direct_packet 0b01 cv w]"

lemma exchange_run:
  assumes fo: "flash_works fo" "flash_durable fo" and cv: "1 \<le> unat cv" "unat cv \<le> 1024" "unat cv \<notin> special_cvs"
    and a: "is_reset z" "flash_stored fo (hd_store (ap_handler a))" "hd_pending (ap_handler a) = None"
    and xs: "packets_of xs = exchange z cv v w" "in_time xs"
  shows "\<exists>a'. packet_task_run instant_timer_ops (flash_store p fo) hw xs a
      = (a', Ok ([command.Reset, command.AcknowledgeCv] @ (if w = v then [command.AcknowledgeCv] else [])))
    \<and> flash_stored fo (hd_store (ap_handler a'))
    \<and> flash_cvs (hd_store (ap_handler a')) = (flash_cvs (hd_store (ap_handler a)))(unat cv := v)"
proof -
  let ?step = "packet_task_step instant_timer_ops (flash_store p fo) hw" and ?s = "hd_store (ap_handler a)"
  let ?wp = "direct_packet 0b11 cv v" and ?vp = "direct_packet 0b01 cv w"
  from xs(1) obtain t0 u0 t1 u1 t2 u2 t3 u3 t4 u4 where
    x: "xs = [(t0, u0, z), (t1, u1, ?wp), (t2, u2, ?wp), (t3, u3, ?vp), (t4, u4, ?vp)]"
    by (auto simp: packets_of_def exchange_def map_eq_Cons_conv)
  have t: "t0 \<le> t1" "t1 < t0 + 20000" "u1 \<le> t2" "t2 < u1 + 20000" "u2 \<le> t3" "t3 < u2 + 20000" "u3 \<le> t4" "t4 < u3 + 20000"
    using xs(2) by (simp_all add: x)
  note wp = direct_write_facts [OF cv(1,2), of v] and vp = direct_verify_facts [OF cv(1,2), of w]
  obtain a0 where a0: "?step t0 u0 z a = (a0, Ok (Commands [command.Reset]))" "in_service t0 ?s None a0"
    using reset_enters_service [OF a(1) refl a(3)] by blast
  obtain a1 where a1: "?step t1 u1 ?wp a0 = (a1, Ok (Commands []))" "in_service u1 ?s (Some ?wp) a1"
    using first_copy [OF wp(1) a0(2) t(1,2)] by blast
  obtain a2 s2 where a2: "?step t2 u2 ?wp a1 = (a2, Ok (Commands [command.AcknowledgeCv]))" "in_service u2 s2 None a2"
    "flash_stored fo s2" "flash_cvs s2 = (flash_cvs ?s)(unat cv := v)"
    using second_write [OF fo cv a(2) a1(2) t(3,4)] by blast
  obtain a3 where a3: "?step t3 u3 ?vp a2 = (a3, Ok (Commands []))" "in_service u3 s2 (Some ?vp) a3"
    using first_copy [OF vp(1) a2(2) t(5,6)] by blast
  have "flash_wf s2" using a2(3) by (simp add: flash_stored_def)
  from second_verify [OF cv(1,2) this a3(2) t(7,8), of p fo hw u4] obtain a4 where
    a4: "?step t4 u4 ?vp a3 = (a4, Ok (Commands (if w = v then [command.AcknowledgeCv] else [])))" "in_service u4 s2 None a4"
    by (auto simp: a2(4))
  show ?thesis
    using a2(3,4) a4(2) by (intro exI [of _ a4]) (simp add: x a0(1) a1(1) a2(1) a3(1) a4(1) in_service_def)
qed

lemma obey_goes_on:
  "op \<noteq> Reboot \<Longrightarrow> \<exists>a' cs. obey hw op a = (a', Commands cs) \<and> ap_handler a' = ap_handler a"
  by (cases op) (simp_all add: obey_def)

text \<open>None of them ends the task, whenever it is handled.\<close>

lemma exchange_packet_goes_on:
  assumes "flash_works fo" and cv: "1 \<le> unat cv" "unat cv \<le> 1024" "unat cv \<notin> special_cvs"
    and a: "flash_wf (hd_store (ap_handler a))" and q: "is_reset z" "q \<in> set (exchange z cv v w)"
  shows "\<exists>a' cs. packet_task_step instant_timer_ops (flash_store p fo) hw t u q a = (a', Ok (Commands cs))
    \<and> flash_wf (hd_store (ap_handler a'))"
proof -
  let ?h = "ap_handler a"
  note wp = direct_write_facts [OF cv(1,2), of v] and vp = direct_verify_facts [OF cv(1,2), of w]
  obtain h r where e: "handle instant_timer_ops (flash_store p fo) t u q ?h = (h, r)" by fastforce
  have "pkt_data q \<noteq> []"
    using q by (auto simp: exchange_def direct_packet_def is_reset_def)
  from fls.handle_keeps [OF a this, of False instant_timer_ops p fo t u] have h: "flash_wf (hd_store h)" "r \<noteq> Panic"
    by (simp_all add: e post_def)
  have "r \<noteq> Ok (Some Reboot)"
  proof (cases "in_window instant_timer_ops t (hd_timer ?h) \<and> service_mode_candidate q = Ok True \<and> hd_pending ?h = Some q")
    case False
    then show ?thesis using handle_outside_service(2) [OF False, of "flash_store p fo" u] by (simp add: e)
  next
    case True
    then have c: "in_window instant_timer_ops t (hd_timer ?h)" "service_mode_candidate q = Ok True" "hd_pending ?h = Some q"
      by blast+
    let ?k = "?h\<lparr>hd_timer := tm_start instant_timer_ops u (hd_timer ?h), hd_pending := None\<rparr>"
    have k: "flash_wf (hd_store ?k)" using a by simp
    from q(2) consider "q = z" | "q = direct_packet 0b11 cv v" | "q = direct_packet 0b01 cv w"
      by (auto simp: exchange_def)
    then show ?thesis
    proof cases
      case 1
      then show ?thesis using candidate_not_reset [OF c(2)] q(1) by simp
    next
      case 2
      have "handle instant_timer_ops (flash_store p fo) t u q ?h = write_byte (flash_store p fo) q ?k"
        using handle_service_second [OF c(2,1,3), of WriteByte "flash_store p fo" u] wp(2,5) by (simp add: 2)
      then show ?thesis
        using fls.write_byte_plain [OF flash_accepts [OF assms(1)] k wp(3,4) cv(3), of p] e by (auto simp: 2)
    next
      case 3
      have "handle instant_timer_ops (flash_store p fo) t u q ?h = verify_byte (flash_store p fo) q ?k"
        using handle_service_second [OF c(2,1,3), of VerifyByte "flash_store p fo" u] vp(2,5) by (simp add: 3)
      then show ?thesis
        using fls.verify_byte_result [OF k vp(3,4), of p fo] e by (auto simp: 3 split: if_splits)
    qed
  qed
  show ?thesis
  proof (cases "\<exists>op. r = Ok (Some op)")
    case True
    then obtain op where op: "r = Ok (Some op)" by blast
    with \<open>r \<noteq> Ok (Some Reboot)\<close> have "op \<noteq> Reboot" by simp
    from obey_goes_on [OF this, of hw "a\<lparr>ap_handler := h\<rparr>"] show ?thesis
      using h(1) by (auto simp: packet_task_step_def e op)
  next
    case False
    then show ?thesis using h by (cases r) (auto simp: packet_task_step_def e split: option.split)
  qed
qed

lemma exchange_runs_on:
  assumes "flash_works fo" "1 \<le> unat cv" "unat cv \<le> 1024" "unat cv \<notin> special_cvs" "is_reset z"
    and "flash_wf (hd_store (ap_handler a))" "set (packets_of xs) \<subseteq> set (exchange z cv v w)"
  shows "runs_on instant_timer_ops (flash_store p fo) hw xs a"
  using assms(6,7)
proof (induction xs arbitrary: a)
  case (Cons x xs)
  obtain t u q where x: "x = (t, u, q)" by (metis surj_pair)
  then have "q \<in> set (exchange z cv v w)" using Cons.prems(2) by simp
  from exchange_packet_goes_on [OF assms(1-4) Cons.prems(1) assms(5) this, of p hw t u] obtain a' cs where
    "packet_task_step instant_timer_ops (flash_store p fo) hw t u q a = (a', Ok (Commands cs))"
    "flash_wf (hd_store (ap_handler a'))" by blast
  then show ?case using Cons.IH [of a'] Cons.prems(2) by (simp add: x)
qed simp

section \<open>Through the channel\<close>

lemma exchange_through_channel:
  assumes fo: "flash_works fo" "flash_durable fo" and cv: "1 \<le> unat cv" "unat cv \<le> 1024" "unat cv \<notin> special_cvs"
    and a: "is_reset z" "flash_stored fo (hd_store (ap_handler a))" "hd_pending (ap_handler a) = None"
    and ts: "packet_decoder (arrivals ts) = exchange z cv v w" "keeps_up 0 ts"
    and s: "s = pipeline_run instant_timer_ops (flash_store p fo) hw ts (pipeline_init a)"
    and t: "waiting ts [] = []" "in_time (dealt ts [])"
  shows "pl_sent s = [command.Reset, command.AcknowledgeCv] @ (if w = v then [command.AcknowledgeCv] else [])"
    and "flash_stored fo (hd_store (ap_handler (pl_task s)))"
    and "flash_cvs (hd_store (ap_handler (pl_task s))) = (flash_cvs (hd_store (ap_handler a)))(unat cv := v)"
proof -
  have wf: "flash_wf (hd_store (ap_handler a))" using a(2) by (simp add: flash_stored_def)
  have runs: "runs_on instant_timer_ops (flash_store p fo) hw xs a" if "subseq (packets_of xs) (packet_decoder (arrivals ts))" for xs
    by (rule exchange_runs_on [OF fo(1) cv a(1) wf]) (use that ts(1) in \<open>auto dest: list_emb_set\<close>)
  have e: "\<not> pl_ended s" by (rule pipeline_delivers(1) [OF ts(2) s]) (rule runs)
  have all: "packets_of (handled instant_timer_ops (flash_store p fo) hw ts (pipeline_init a)) @ pl_queue s = exchange z cv v w"
    unfolding ts(1) [symmetric] by (rule pipeline_delivers(2) [OF ts(2) s]) (rule runs)
  have q: "pl_queue (pipeline_init a) = []" by (simp add: pipeline_init_def)
  note calm = handled_dealt [OF e [unfolded s], unfolded q]
  have "packets_of (handled instant_timer_ops (flash_store p fo) hw ts (pipeline_init a)) = exchange z cv v w"
    using all calm(2) t(1) s by simp
  from exchange_run [OF fo cv a this t(2) [folded calm(1)], of p hw] obtain a' where a': "packet_task_run instant_timer_ops (flash_store p fo) hw
      (handled instant_timer_ops (flash_store p fo) hw ts (pipeline_init a)) a
      = (a', Ok ([command.Reset, command.AcknowledgeCv] @ (if w = v then [command.AcknowledgeCv] else [])))"
    "flash_stored fo (hd_store (ap_handler a'))"
    "flash_cvs (hd_store (ap_handler a')) = (flash_cvs (hd_store (ap_handler a)))(unat cv := v)" by blast
  have i: "\<not> pl_ended (pipeline_init a)" "pl_task (pipeline_init a) = a" "pl_sent (pipeline_init a) = []"
    by (simp_all add: pipeline_init_def)
  have "pl_task s = a'" "pl_sent s = [command.Reset, command.AcknowledgeCv] @ (if w = v then [command.AcknowledgeCv] else [])"
    using pipeline_obeys [OF i(1), of instant_timer_ops "flash_store p fo" hw ts] a'(1) i(2,3) s(1) by auto
  then show "pl_sent s = [command.Reset, command.AcknowledgeCv] @ (if w = v then [command.AcknowledgeCv] else [])"
    "flash_stored fo (hd_store (ap_handler (pl_task s)))"
    "flash_cvs (hd_store (ap_handler (pl_task s))) = (flash_cvs (hd_store (ap_handler a)))(unat cv := v)"
    using a'(2,3) by simp_all
qed

end
