(* ===== verification/Emergency_Stop.thy ===== *)
theory Emergency_Stop
  imports Motor_Tasks
begin

text \<open>
  The emergency stop through the motor tasks of \<^verbatim>\<open>application/src/motor/handler.rs\<close>: what holds from the
  moment the acceleration task takes an emergency stop until it takes another velocity, whatever else
  the three tasks do. As for every safety argument over the tasks, an invariant is established by
  the command, kept by every step, and entails that the motor is off.
\<close>

section \<open>The invariant\<close>

text \<open>The acceleration task takes a velocity in this step.\<close>

definition takes_velocity :: "('w, 'p) motor_system \<Rightarrow> ('w, 'p) motor_system \<Rightarrow> bool" where
  "takes_velocity s s' \<longleftrightarrow> (\<exists>v. sy_accel_queue s = SetVelocity128 v # sy_accel_queue s')"

text \<open>A helper that will not leave standstill by itself: it is at speed index 0, and heads for an
  emergency stop or nowhere.\<close>

definition halted :: "accel_helper \<Rightarrow> bool" where
  "halted h \<longleftrightarrow> idx (vs_speed_step (ah_current h)) = 0
     \<and> (vs_speed_step (ah_target h) = EmergencyStop \<or> equivalent (ah_current h) (ah_target h))"

definition standstill :: "accel_state \<Rightarrow> bool" where
  "standstill a \<longleftrightarrow> halted (at_helper a) \<and> delay_ok (at_helper a)
     \<and> (\<exists>v. at_previous a = Some v \<and> idx (vs_speed_step v) = 0)"

section \<open>Steps\<close>

text \<open>A step towards an emergency stop halts the helper.\<close>

lemma emergency_step:
  assumes "vs_speed_step (ah_target h) = EmergencyStop" "delay_ok h"
  obtains h' v d where "accel_step p h = (h', Ok (v, d))" "halted h'" "delay_ok h'" "idx (vs_speed_step v) = 0"
proof (cases "equivalent (ah_current h) (ah_target h)")
  case True
  then have "idx (vs_speed_step (ah_current h)) = 0" using assms(1) by (simp add: equivalent_def)
  then show thesis
    using that [OF accel_step_equivalent [OF True]] True assms by (simp add: halted_def)
next
  case False
  let ?h = "h\<lparr>ah_current := (accel_switch h)\<lparr>vs_speed_step := EmergencyStop\<rparr>\<rparr>"
  have "next_speed_step p (ah_config h) (accel_switch h) (ah_target h) = Ok EmergencyStop"
    using assms(1) by (simp add: next_speed_step_def)
  from accel_step_moves [OF False assms(2) this] obtain v d where
    s: "accel_step p h = (?h, Ok (v, d))" "equivalent v ((accel_switch h)\<lparr>vs_speed_step := EmergencyStop\<rparr>)" by blast
  show thesis
    using that [OF s(1)] s(2) assms by (simp add: halted_def delay_ok_def equivalent_def)
qed

lemma halted_step:
  assumes "halted h" "delay_ok h"
  obtains h' v d where "accel_step p h = (h', Ok (v, d))" "halted h'" "delay_ok h'" "idx (vs_speed_step v) = 0"
proof (cases "vs_speed_step (ah_target h) = EmergencyStop")
  case True
  then show thesis using that emergency_step [of h p] assms(2) by blast
next
  case False
  then have e: "equivalent (ah_current h) (ah_target h)" "idx (vs_speed_step (ah_target h)) = 0"
    using assms(1) by (auto simp: halted_def equivalent_def)
  show thesis using that [OF accel_step_equivalent [OF e(1)] assms e(2)] .
qed

text \<open>What the task does with such a step.\<close>

lemma accel_advance_standstill:
  assumes "accel_step p (at_helper a) = (h', Ok (v, d))" "halted h'" "delay_ok h'" "idx (vs_speed_step v) = 0"
  shows "\<exists>a' sig. accel_advance p to_ticks speed_table now a = (a', Ok sig) \<and> standstill a'
    \<and> (at_previous a = None \<longrightarrow> sig \<noteq> None)"
  using assms by (cases a) (auto simp: accel_advance_def maybe_send_def standstill_def)

lemma emergency_taken:
  assumes "vs_speed_step v = EmergencyStop" "delay_ok (at_helper a)"
  shows "\<exists>a' sig. accel_task_step p to_ticks speed_table now (AccelCommand (SetVelocity128 v)) a = (a', Ok sig)
    \<and> standstill a' \<and> (at_previous a = None \<longrightarrow> sig \<noteq> None)"
proof -
  let ?a = "a\<lparr>at_helper := accel_set_target v (at_helper a)\<rparr>"
  have "vs_speed_step (ah_target (at_helper ?a)) = EmergencyStop" "delay_ok (at_helper ?a)"
    using assms by (simp_all add: accel_set_target_def delay_ok_def)
  then obtain h' w d where "accel_step p (at_helper ?a) = (h', Ok (w, d))" "halted h'" "delay_ok h'"
    "idx (vs_speed_step w) = 0" by (rule emergency_step)
  from accel_advance_standstill [OF this, of to_ticks speed_table now] show ?thesis
    by (simp add: accel_task_step_def)
qed

lemma standstill_kept:
  assumes "standstill a" "\<And>v. e \<noteq> AccelCommand (SetVelocity128 v)"
    and "accel_task_step p to_ticks speed_table now e a = (a', Ok sig)"
  shows "standstill a'"
proof (cases e)
  case (AccelCommand c)
  have "halted (accel_reset (at_helper a))" by (simp add: halted_def accel_reset_def velocity_default_def)
  then show ?thesis
    using assms AccelCommand
    by (cases c) (auto simp: accel_task_step_def standstill_def accel_reset_def delay_ok_def)
next
  case AccelTimer
  have "halted (at_helper a)" "delay_ok (at_helper a)" using assms(1) by (simp_all add: standstill_def)
  then obtain h' v d where "accel_step p (at_helper a) = (h', Ok (v, d))" "halted h'" "delay_ok h'"
    "idx (vs_speed_step v) = 0" by (rule halted_step)
  from accel_advance_standstill [OF this, of to_ticks speed_table now] show ?thesis
    using assms(3) AccelTimer by (auto simp: accel_task_step_def)
qed

lemma system_step_emergency:
  assumes "system_step p to_ticks speed_table lib hw k s s'" "takes_velocity s s'"
    and "sy_accel_queue s = SetVelocity128 v # q" "vs_speed_step v = EmergencyStop" "delay_ok (at_helper (sy_accel s))"
  shows "standstill (sy_accel s')"
  using assms(1)
proof cases
  case (AccelReceives c q' now a sig)
  then show ?thesis
    using assms(3) emergency_taken [OF assms(4,5), of p to_ticks speed_table now] by auto
qed (use assms(2,3) in \<open>auto simp: takes_velocity_def\<close>)

lemma system_step_standstill:
  assumes "system_step p to_ticks speed_table lib hw k s s'" "\<not> takes_velocity s s'" "standstill (sy_accel s)"
  shows "standstill (sy_accel s')"
  using assms(1)
proof cases
  case (AccelReceives c q now a sig)
  then have "AccelCommand c \<noteq> AccelCommand (SetVelocity128 v)" for v
    using assms(2) by (auto simp: takes_velocity_def)
  then show ?thesis using standstill_kept [OF assms(3) _ AccelReceives(4)] AccelReceives by simp
next
  case (AccelFires now a sig)
  then show ?thesis using standstill_kept [OF assms(3) _ AccelFires(5)] by simp
qed (use assms(3) in simp_all)

section \<open>The motor is off\<close>

lemma standstill_level:
  assumes "standstill (sy_accel s)" "levels_agree speed_table s" "speed_table ! 0 = 0"
  shows "ol_setpoint (case sy_level s of Some l \<Rightarrow> l | None \<Rightarrow> ct_last (sy_controller s)) = 0"
  using assms by (auto simp: standstill_def levels_agree_def to_output_level_def)

text \<open>A level of 0 switches the motor off at once, and the switching does not fail.\<close>

lemma level_zero_stops:
  assumes "motor_hw_ok hw duty" "off_reliable hw" "ol_setpoint l = 0"
  shows "\<exists>st'. controller_step p lib hw k now now' (LevelSignal l) st = (st', Ok ())
    \<and> at_rest duty (ct_motor st') \<and> ct_alarm st' = INSTANT_MAX_FIXED"
proof -
  let ?m = "(ct_motor st)\<lparr>mc_world := hw_wait hw (from_millis 1) (mc_world (ct_motor st))\<rparr>"
  obtain m' where "motor_stop hw ?m = (m', Ok ())" "at_rest duty m'"
    using motor_stop_reliable [OF assms(1,2)] by blast
  then show ?thesis
    using assms(3) by (simp add: controller_step_def set_output_def in_motor_def logged_def)
qed

text \<open>The whole argument, for the tasks as they are spawned.\<close>

lemma emergency_stop_halts:
  fixes lib :: "('e, 'c, 'p) pid_lib"
  assumes hw: "motor_hw_ok hw duty" "off_reliable hw" and lib: "pid_lib_limits lib clim plim" and k: "k < 2 ^ 62"
    and init: "speed_wf plim mx c" "at_rest duty m" "delay_ok h" "speed_table ! 0 = 0"
    and run: "(system_step p to_ticks speed_table lib hw k)\<^sup>*\<^sup>* (system_init h m c) s"
    and stop: "sy_accel_queue s = SetVelocity128 v # q" "vs_speed_step v = EmergencyStop"
    and taken: "system_step p to_ticks speed_table lib hw k s s'" "takes_velocity s s'"
    and later: "(\<lambda>x y. system_step p to_ticks speed_table lib hw k x y \<and> \<not> takes_velocity x y)\<^sup>*\<^sup>* s' s''"
  shows "standstill (sy_accel s'')"
    and "ol_setpoint (case sy_level s'' of Some l \<Rightarrow> l | None \<Rightarrow> ct_last (sy_controller s'')) = 0"
    and "sy_level s'' = None \<Longrightarrow> at_rest duty (ct_motor (sy_controller s''))
      \<and> ct_alarm (sy_controller s'') = INSTANT_MAX_FIXED"
proof -
  have "standstill (sy_accel s')"
    by (rule system_step_emergency [OF taken stop system_delay_ok [OF run init(3)]])
  with later show st: "standstill (sy_accel s'')"
    by (induction rule: rtranclp_induct) (auto intro: system_step_standstill)
  have "(system_step p to_ticks speed_table lib hw k)\<^sup>*\<^sup>* s' s''"
    using later by (rule mono_rtranclp [rule_format, rotated]) simp
  then have "(system_step p to_ticks speed_table lib hw k)\<^sup>*\<^sup>* (system_init h m c) s''"
    using run taken(1) by (meson rtranclp.rtrancl_into_rtrancl rtranclp_trans)
  from system_invariant [OF hw lib k init(1,2) this]
  have inv: "controller_ok duty plim mx (sy_controller s'')" "levels_agree speed_table s''" by simp_all
  show zero: "ol_setpoint (case sy_level s'' of Some l \<Rightarrow> l | None \<Rightarrow> ct_last (sy_controller s'')) = 0"
    by (rule standstill_level [OF st inv(2) init(4)])
  show "at_rest duty (ct_motor (sy_controller s'')) \<and> ct_alarm (sy_controller s'') = INSTANT_MAX_FIXED"
    if "sy_level s'' = None"
    using zero that inv(1) by (auto simp: controller_ok_def split: if_splits)
qed

text \<open>An emergency stop can always be posted, dispatched and taken.\<close>

lemma emergency_run:
  fixes lib :: "('e, 'c, 'p) pid_lib" and hw :: "('w, 'pe, 'ae) motor_hw"
  assumes "vs_speed_step v = EmergencyStop" "delay_ok h"
  shows "\<exists>s s'. (system_step p to_ticks speed_table lib hw k)\<^sup>*\<^sup>* (system_init h m c) s
    \<and> sy_accel_queue s = [SetVelocity128 v] \<and> system_step p to_ticks speed_table lib hw k s s' \<and> takes_velocity s s'
    \<and> sy_level s' \<noteq> None"
proof -
  let ?R = "system_step p to_ticks speed_table lib hw k" and ?c = "SetVelocity128 v"
  let ?s0 = "system_init h m c"
  let ?s1 = "?s0\<lparr>sy_commands := [?c]\<rparr>"
  let ?s2 = "?s1\<lparr>sy_commands := [], sy_sends := dispatch ?c\<rparr>"
  let ?s3 = "?s2\<lparr>sy_sends := [], sy_accel_queue := [?c]\<rparr>"
  have 1: "?R ?s0 ?s1" using Post [of ?s0 p to_ticks speed_table lib hw k ?c] by (simp add: system_init_def CHANNEL_CAPACITY_def)
  have 2: "?R ?s1 ?s2" by (rule Receive) (simp_all add: system_init_def)
  have 3: "?R ?s2 ?s3" using SendAccel [of ?s2 ?c "[]" p to_ticks speed_table lib hw k]
    by (simp add: system_init_def CHANNEL_CAPACITY_def dispatch_def)
  have run: "?R\<^sup>*\<^sup>* ?s0 ?s3" using 1 2 3 by (meson rtranclp.rtrancl_into_rtrancl rtranclp.rtrancl_refl)
  have "delay_ok (at_helper (sy_accel ?s3))" using assms(2) by (simp add: system_init_def accel_task_init_def)
  from emergency_taken [OF assms(1) this, of p to_ticks speed_table 0] obtain a sig where
    "accel_task_step p to_ticks speed_table 0 (AccelCommand ?c) (sy_accel ?s3) = (a, Ok sig)"
    and sig: "sig \<noteq> None" by (auto simp: system_init_def accel_task_init_def)
  then have 4: "?R ?s3 (?s3\<lparr>sy_accel_queue := [], sy_accel := a, sy_level := signalled sig (sy_level ?s3)\<rparr>)"
    by (intro AccelReceives [of _ ?c "[]" 0]) simp_all
  show ?thesis
    by (rule exI [of _ ?s3], rule exI, intro conjI, rule run, simp, rule 4)
      (use sig in \<open>auto simp: takes_velocity_def signalled_def\<close>)
qed

end
