(* ===== verification/Speed_Table.thy ===== *)
theory Speed_Table
  imports F32
begin

text \<open>
  The speed table (\<^verbatim>\<open>motor/src/speed/table.rs\<close>): 127 back-EMF set points, one per speed step,
  interpolated in single precision between \<^verbatim>\<open>v_start\<close>, \<^verbatim>\<open>v_mid\<close> and \<^verbatim>\<open>v_high\<close>. The
  rounding errors are bounded, so that every entry is shown to be the integer nearest to the exact
  interpolation, and the assertion on the way never fails.
\<close>

section \<open>Building the table\<close>

record table_config =
  tc_v_start :: u8
  tc_v_mid :: u8
  tc_v_high :: u8

definition SPEED_TABLE_LEN :: usize where
  "SPEED_TABLE_LEN = 127"

text \<open>The closure \<^verbatim>\<open>calc_step\<close>; its \<^verbatim>\<open>debug_assert!\<close> is checked in the dev profile only.\<close>

definition calc_step :: "profile \<Rightarrow> f32 \<Rightarrow> f32 \<Rightarrow> usize \<Rightarrow> (unit, u16) res" where
  "calc_step p start stop i =
     (let m = f_div (f_sub stop start) 63;
          val = f_add (f_mul m (f_of_nat i)) start
      in if p = Dev \<and> \<not> (0 \<le> val \<and> val \<le> 65535) then Panic
         else res_bind (f_clamp val 0 65535) (\<lambda>c. Ok (f_to_u16 (f_add c (1 / 2)))))"

text \<open>\<^verbatim>\<open>for_each\<close> over the chosen positions of the table.\<close>

fun fill :: "(usize \<Rightarrow> (unit, u16) res) \<Rightarrow> usize list \<Rightarrow> u16 list \<Rightarrow> (unit, u16 list) res" where
  "fill f [] t = Ok t"
| "fill f (i # js) t = res_bind (f i) (\<lambda>v. fill f js (t[i := v]))"

definition build :: "profile \<Rightarrow> table_config \<Rightarrow> (unit, u16 list) res" where
  "build p c =
     (let v_min = f_of_nat (unat (tc_v_start c));
          v_mid = f_mul (f_of_nat (unat (tc_v_mid c))) 16;
          v_max = f_mul (f_of_nat (unat (tc_v_high c))) 16;
          MIDPOINT = SPEED_TABLE_LEN div 2;
          table = (replicate SPEED_TABLE_LEN 0)[0 := 0]
      in res_bind (fill (\<lambda>i. calc_step p v_min v_mid (i - 1)) [1..<1 + MIDPOINT] table) (\<lambda>table.
         fill (\<lambda>i. calc_step p v_mid v_max (i - MIDPOINT)) [MIDPOINT + 1..<SPEED_TABLE_LEN] table))"

section \<open>Exact interpolation\<close>

text \<open>The exact value of step \<^term>\<open>k\<close> of 63 between \<^term>\<open>s\<close> and \<^term>\<open>e\<close>, rounded to the nearest
  integer (a tie is impossible).\<close>

definition interp :: "int \<Rightarrow> int \<Rightarrow> int \<Rightarrow> int" where
  "interp s e k = (2 * (63 * s + (e - s) * k) + 63) div 126"

lemma fill_ok:
  assumes "\<And>i. i \<in> set js \<Longrightarrow> f i = Ok (g i)" "distinct js" "\<And>i. i \<in> set js \<Longrightarrow> i < length t"
  shows "fill f js t = Ok (map (\<lambda>i. if i \<in> set js then g i else t ! i) [0..<length t])"
  using assms
proof (induction "js" arbitrary: t)
  case Nil
  then show ?case by (simp add: map_nth)
next
  case (Cons i js)
  have "fill f js (t[i := g i]) = Ok (map (\<lambda>j. if j \<in> set js then g j else t[i := g i] ! j) [0..<length (t[i := g i])])"
    using Cons.prems by (intro Cons.IH) auto
  then show ?case using Cons.prems by (auto simp: nth_list_update)
qed

lemma fill_range:
  assumes "\<And>i. a \<le> i \<Longrightarrow> i < b \<Longrightarrow> f i = Ok (g i)" "b \<le> length t"
  shows "fill f [a..<b] t = Ok (map (\<lambda>i. if a \<le> i \<and> i < b then g i else t ! i) [0..<length t])"
  using fill_ok [of "[a..<b]" f g t] assms by simp

lemma interp_nonneg:
  assumes "0 \<le> s" "0 \<le> e" "0 \<le> k" "k \<le> 63" shows "0 \<le> 63 * s + (e - s) * (k :: int)"
proof -
  have "63 * s + (e - s) * k = s * (63 - k) + e * k" by (simp add: algebra_simps)
  then show ?thesis using assms by simp
qed

text \<open>Dividing by 63 and multiplying by 63 again never overshoots. For most numbers this follows
  from the rounding errors; the eight multiples of 16 just below a power of two, whose quotient
  lies in the next binade, are computed.\<close>

lemma rnd_div_63_mul:
  assumes "0 < s" "32 * s < 63 * 2 powi (ilog2 s)" "s = of_int j * 2 powi (ilog2 s - 23)"
  shows "rnd (rnd (s / 63) * 63) \<le> s"
proof -
  let ?u = "2 powi (ilog2 s - 29) :: rat"
  have p: "2 powi (ilog2 s - 23) = 64 * ?u" "2 powi (ilog2 s) = 64 * 8388608 * ?u"
    "2 powi (ilog2 s - 6) = 8388608 * ?u" "2 powi (ilog2 s - 5) = 2 * 8388608 * ?u"
    "2 powi (ilog2 s + 1) = 2 * 64 * 8388608 * ?u"
    by (simp_all add: power_int_diff power_int_add)
  have u: "0 < ?u" by simp
  have l: "ilog2 (s / 63) = ilog2 s - 6"
    by (rule ilog2_unique) (use ilog2_bounds [OF assms(1)] assms(2) p u in \<open>simp_all\<close>)
  have "\<bar>rnd (s / 63) - s / 63\<bar> \<le> ulp (s / 63) / 2" using assms(1) by (intro rnd_error_ulp) simp
  also have "ulp (s / 63) = ?u" using assms(1) by (simp add: ulp_def l)
  finally have "rnd (s / 63) \<le> s / 63 + ?u / 2" by (simp only: abs_le_iff) linarith
  then have "rnd (s / 63) * 63 \<le> (s / 63 + ?u / 2) * 63" by (rule mult_right_mono) simp
  then have "rnd (s / 63) * 63 \<le> s + 63 / 2 * ?u" by (simp add: algebra_simps)
  then have "rnd (rnd (s / 63) * 63) \<le> rnd (s + 63 / 2 * ?u)" by (rule rnd_mono)
  also have "rnd (s + 63 / 2 * ?u) = s"
  proof -
    define y where "y = s + 63 / 2 * ?u"
    have y: "0 < y" using assms(1) u by (simp add: y_def add_pos_pos)
    have "ilog2 y = ilog2 s"
      by (rule ilog2_unique) (use ilog2_bounds [OF assms(1)] assms(2) p u in \<open>simp_all add: y_def\<close>)
    then have v: "ulp y = 64 * ?u" using y p by (simp add: ulp_def)
    have "y / ulp y = of_int j + 63 / 128"
      unfolding v unfolding y_def using assms(3) p u by (simp add: field_simps)
    moreover have "\<lfloor>of_int j + 63 / 128 :: rat\<rfloor> = j" by (rule floor_unique) simp_all
    then have "round_even (of_int j + 63 / 128) = j" by (simp add: round_even_def Let_def)
    ultimately have "rnd y = of_int j * (64 * ?u)" using y v by (simp add: rnd_ulp)
    then show ?thesis using assms(3) p unfolding y_def by simp
  qed
  finally show ?thesis .
qed

lemma rnd_div_63_mul_16:
  assumes "n < 256"
  shows "rnd (rnd (of_nat (16 * n) / 63) * 63) \<le> of_nat (16 * n)"
proof (cases "n \<in> {0, 63, 126, 127, 252, 253, 254, 255}")
  case True
  have "list_all (\<lambda>s. rnd (rnd (s / 63) * 63) \<le> s) [0, 1008, 2016, 2032, 4032, 4048, 4064, 4080]"
    by code_simp
  then show ?thesis using True by auto
next
  case False
  obtain k where k: "k < 8" "2 ^ k \<le> n" "n < 2 ^ (k + 1)"
  proof -
    have "n \<noteq> 0" using False by simp
    then show thesis
      using that [of 0] that [of 1] that [of 2] that [of 3] that [of 4] that [of 5] that [of 6] that [of 7] assms
      by (simp) linarith
  qed
  let ?s = "of_nat (16 * n) :: rat"
  have "(2 :: rat) ^ (k + 4) \<le> of_nat (16 * n) \<and> of_nat (16 * n) < (2 :: rat) ^ (k + 5)"
  proof -
    have "of_nat (2 ^ (k + 4)) \<le> ?s" "?s < of_nat (2 ^ (k + 5))"
      using k(2,3) by (simp_all only: of_nat_le_iff of_nat_less_iff) (simp_all add: power_add)
    then show ?thesis by simp
  qed
  then have l: "ilog2 ?s = int (k + 4)" 
    using ilog2_unique [of "int (k + 4)" ?s] power_int_of_nat [of "2 :: rat" "k + 4"] power_int_of_nat [of "2 :: rat" "k + 5"]
    by (simp add: add.commute)
  show ?thesis
  proof (rule rnd_div_63_mul)
    show "0 < ?s" using False by simp
    have "32 * (16 * n) < 63 * 2 ^ (k + 4)"
    proof -
      have "k \<in> {0, 1, 2, 3, 4, 5, 6, 7}" using k(1) by auto
      then show ?thesis using False k(2,3) assms by auto
    qed
    then have "(of_nat (32 * (16 * n)) :: rat) < of_nat (63 * 2 ^ (k + 4))" by (simp only: of_nat_less_iff)
    then show "32 * ?s < 63 * 2 powi (ilog2 ?s)" unfolding l by (simp only: power_int_of_nat) simp
    have "(2 :: rat) ^ (23 - k) * 2 powi (int (k + 4) - 23) = 2 powi (int (23 - k) + (int (k + 4) - 23))"
      using power_int_add [of "2 :: rat" "int (23 - k)" "int (k + 4) - 23"] power_int_of_nat [of "2 :: rat" "23 - k"] by simp
    also have "int (23 - k) + (int (k + 4) - 23) = 4" using k(1) by simp
    finally show "?s = of_int (int n * 2 ^ (23 - k)) * 2 powi (ilog2 ?s - 23)"
      unfolding l by (simp add: mult.assoc)
  qed
qed

section \<open>Rounding errors\<close>

lemma f_to_u16_floor:
  assumes "0 < x" "x < 65535" shows "f_to_u16 x = of_int \<lfloor>x\<rfloor>"
  using assms by (simp add: f_to_u16_def)

lemma interp_floor:
  assumes "\<bar>r - (of_int (63 * s + (e - s) * k) / 63 + 1 / 2)\<bar> < 1 / 126"
  shows "\<lfloor>r :: rat\<rfloor> = interp s e k"
proof (rule floor_unique)
  define n where "n = 63 * s + (e - s) * k"
  define q where "q = (2 * n + 63) div 126"
  define m where "m = (2 * n + 63) mod 126"
  have "2 * n + 63 = 126 * q + m" by (simp add: q_def m_def)
  moreover have "0 \<le> m" "m < 126" by (simp_all add: m_def)
  ultimately have "1 \<le> m \<and> m \<le> 125" and nq: "2 * n = 126 * q + m - 63" by presburger+
  then have m: "1 \<le> (of_int m :: rat)" "(of_int m :: rat) \<le> 125" by linarith+
  have "2 * (of_int n :: rat) = 126 * of_int q + of_int m - 63"
    using arg_cong [OF nq, of "of_int :: int \<Rightarrow> rat"] by simp
  then have x: "of_int n / 63 + 1 / 2 = of_int q + of_int m / (126 :: rat)" by (simp add: field_simps)
  have d: "\<bar>r - (of_int q + of_int m / 126)\<bar> < 1 / 126"
    using assms unfolding n_def [symmetric] x .
  have i: "interp s e k = q" by (simp add: interp_def q_def n_def)
  show "of_int (interp s e k) \<le> r" "r < of_int (interp s e k) + 1"
    unfolding i using d m by (simp_all only: abs_less_iff) linarith+
qed

lemma calc_step_error:
  fixes s e :: int and k :: nat
  assumes "0 \<le> s" "s \<le> 4080" "0 \<le> e" "e \<le> 4080" "k \<le> 63"
  defines "x \<equiv> of_int (63 * s + (e - s) * int k) / 63 :: rat"
    and "v \<equiv> rnd (rnd (rnd (of_int (e - s) / 63) * of_nat k) + of_int s)"
  shows "\<bar>v - x\<bar> \<le> 1 / 1000" and "0 \<le> x" and "x \<le> 4080"
proof -
  define d where "d = (of_int (e - s) / 63 :: rat)"
  have "\<bar>e - s\<bar> \<le> 4080" using assms by linarith
  then have "\<bar>of_int (e - s)\<bar> \<le> (4080 :: rat)" by linarith
  then have d: "\<bar>d\<bar> \<le> 4080 / 63" by (simp add: d_def abs_le_iff)
  then have m: "\<bar>rnd d - d\<bar> \<le> 1 / 131072" using rnd_error [of d 7] by simp
  have k: "0 \<le> (of_nat k :: rat)" "of_nat k \<le> (63 :: rat)" using assms(5) by simp_all
  have "\<bar>rnd d * of_nat k - d * of_nat k\<bar> = \<bar>rnd d - d\<bar> * of_nat k"
    using k by (simp add: abs_mult flip: left_diff_distrib)
  also have "\<dots> \<le> 1 / 131072 * 63" using m k by (intro mult_mono) simp_all
  finally have mk: "\<bar>rnd d * of_nat k - d * of_nat k\<bar> \<le> 63 / 131072" by simp
  have "\<bar>d * of_nat k\<bar> = \<bar>d\<bar> * of_nat k" using k by (simp add: abs_mult)
  also have "\<dots> \<le> 4080 / 63 * 63" using d k by (intro mult_mono) simp_all
  finally have dk: "\<bar>d * of_nat k\<bar> \<le> 4080" by simp
  have "\<bar>rnd d * of_nat k\<bar> \<le> 4096" using dk mk unfolding abs_le_iff by linarith
  then have p: "\<bar>rnd (rnd d * of_nat k) - rnd d * of_nat k\<bar> \<le> 1 / 4096"
    using rnd_error [of "rnd d * of_nat k" 12] by simp
  have x: "x = d * of_nat k + of_int s" by (simp add: x_def d_def field_simps)
  have n0: "0 \<le> 63 * s + (e - s) * int k" using assms by (intro interp_nonneg) simp_all
  have "63 * s + (e - s) * int k = s * (63 - int k) + e * int k" by (simp add: algebra_simps)
  also have "\<dots> \<le> 4080 * (63 - int k) + 4080 * int k" using assms by (intro add_mono mult_right_mono) simp_all
  finally have n1: "63 * s + (e - s) * int k \<le> 63 * 4080" by simp
  have "(0 :: rat) \<le> of_int (63 * s + (e - s) * int k)" using n0 by (simp only: of_int_0_le_iff)
  then show x0: "0 \<le> x" unfolding x_def by (rule divide_nonneg_pos) simp
  have "(of_int (63 * s + (e - s) * int k) :: rat) \<le> of_int (63 * 4080)" using n1 by (simp only: of_int_le_iff)
  then show x1: "x \<le> 4080" unfolding x_def by (simp add: pos_divide_le_eq)
  have "\<bar>rnd (rnd d * of_nat k) + of_int s\<bar> \<le> 4096"
    using x x0 x1 p mk unfolding abs_le_iff by linarith
  then have "\<bar>v - (rnd (rnd d * of_nat k) + of_int s)\<bar> \<le> 1 / 4096"
    using rnd_error [of "rnd (rnd d * of_nat k) + of_int s" 12] by (simp add: v_def d_def)
  then show "\<bar>v - x\<bar> \<le> 1 / 1000" using x p mk unfolding abs_le_iff by linarith
qed

text \<open>The value before rounding is never negative: only the last step of a segment that ends at 0
  could come out below zero, and there the product falls short of the start value.\<close>

lemma calc_step_nonneg:
  fixes s e :: int and k :: nat
  assumes "0 \<le> s" "s \<le> 4080" "0 \<le> e" "e \<le> 4080" "k \<le> 63"
    "e = 0 \<Longrightarrow> k = 63 \<Longrightarrow> \<exists>n < 256. s = int (16 * n)"
  shows "0 \<le> rnd (rnd (rnd (of_int (e - s) / 63) * of_nat k) + of_int s)"
proof (cases "63 * s + (e - s) * int k = 0")
  case False
  let ?n = "63 * s + (e - s) * int k"
  have "0 \<le> ?n" using assms(1,3,5) by (intro interp_nonneg) simp_all
  then have "1 \<le> ?n" using False by linarith
  then have "of_int 1 \<le> (of_int ?n :: rat)" by (simp only: of_int_le_iff)
  then have "(1 :: rat) / 63 \<le> of_int ?n / 63" by (intro divide_right_mono) simp_all
  then show ?thesis using calc_step_error(1) [OF assms(1-5)] unfolding abs_le_iff by linarith
next
  case True
  have "63 * s + (e - s) * int k = s * (63 - int k) + e * int k" by (simp add: algebra_simps)
  moreover have "0 \<le> s * (63 - int k)" "0 \<le> e * int k" using assms by simp_all
  ultimately have z: "s * (63 - int k) = 0" "e * int k = 0" using True by linarith+
  consider "s = 0" "e = 0" | "s = 0" "k = 0" | "e = 0" "k = 63"
    using z by auto
  then show ?thesis
  proof cases
    case 3
    then obtain n where n: "n < 256" "s = int (16 * n)" using assms(6) by blast
    have "of_int (e - s) / 63 = - (of_nat (16 * n) / 63 :: rat)" using 3 n by simp
    then have "rnd (of_int (e - s) / 63) = - rnd (of_nat (16 * n) / 63)" by (simp only: rnd_minus)
    then have "rnd (rnd (of_int (e - s) / 63) * of_nat k) = rnd (- (rnd (of_nat (16 * n) / 63) * 63))"
      using 3 by simp
    then have "rnd (rnd (of_int (e - s) / 63) * of_nat k) = - rnd (rnd (of_nat (16 * n) / 63) * 63)"
      by (simp only: rnd_minus)
    moreover have "(of_int s :: rat) = of_nat (16 * n)" using n(2) by simp
    ultimately show ?thesis using rnd_div_63_mul_16 [OF n(1)] by (intro rnd_nonneg) linarith
  qed simp_all
qed

lemma calc_step_exact:
  fixes s e :: int and k :: nat
  assumes "0 \<le> s" "s \<le> 4080" "0 \<le> e" "e \<le> 4080" "k \<le> 63"
    "e = 0 \<Longrightarrow> k = 63 \<Longrightarrow> \<exists>n < 256. s = int (16 * n)"
  shows "calc_step p (of_int s) (of_int e) k = Ok (of_int (interp s e (int k)))"
proof -
  define x where "x = (of_int (63 * s + (e - s) * int k) / 63 :: rat)"
  define v where "v = rnd (rnd (rnd (of_int (e - s) / 63) * of_nat k) + of_int s)"
  have v: "\<bar>v - x\<bar> \<le> 1 / 1000" "0 \<le> v" and x: "0 \<le> x" "x \<le> 4080"
    using calc_step_error [OF assms(1-5)] calc_step_nonneg [OF assms] by (simp_all only: v_def x_def)
  define r where "r = rnd (v + 1 / 2)"
  have "\<bar>v + 1 / 2\<bar> \<le> 8192" using v x unfolding abs_le_iff by linarith
  then have r: "\<bar>r - (v + 1 / 2)\<bar> \<le> 1 / 2048" using rnd_error [of "v + 1 / 2" 13] by (simp add: r_def)
  have "\<bar>r - (x + 1 / 2)\<bar> < 1 / 126" using r v(1) unfolding abs_le_iff abs_less_iff by linarith
  then have f: "\<lfloor>r\<rfloor> = interp s e (int k)" unfolding x_def by (rule interp_floor)
  have "0 < r" "r < 65535" using r v x unfolding abs_le_iff by linarith+
  then have u: "f_to_u16 r = of_int (interp s e (int k))" using f by (simp add: f_to_u16_floor)
  have sub: "rnd (of_int e - of_int s) = (of_int (e - s) :: rat)"
    using rnd_of_int [of "e - s"] assms(1-4) by simp
  have "f_add (f_mul (f_div (f_sub (of_int e) (of_int s)) 63) (f_of_nat k)) (of_int s) = v"
    using assms(5) by (simp add: f_add_def f_mul_def f_div_def f_sub_def sub v_def)
  moreover have "v \<le> 65535" using v x unfolding abs_le_iff by linarith
  ultimately show ?thesis
    using v(2) u by (simp add: calc_step_def Let_def f_clamp_def f_add_def r_def)
qed

section \<open>The entries of the table\<close>

definition segment_start :: "table_config \<Rightarrow> nat \<Rightarrow> int" where
  "segment_start c i = (if i \<le> 63 then uint (tc_v_start c) else 16 * uint (tc_v_mid c))"

definition segment_end :: "table_config \<Rightarrow> nat \<Rightarrow> int" where
  "segment_end c i = 16 * (if i \<le> 63 then uint (tc_v_mid c) else uint (tc_v_high c))"

definition table_entry :: "table_config \<Rightarrow> nat \<Rightarrow> int" where
  "table_entry c i = (if i = 0 then 0
     else interp (segment_start c i) (segment_end c i) (if i \<le> 63 then int i - 1 else int i - 63))"

lemma f_of_u8: "f_of_nat (unat (v :: u8)) = of_int (uint v)"
proof -
  have "unat v < 2 ^ 24" using unat_u8_le [of v] by simp
  then have "f_of_nat (unat v) = of_nat (unat v)" by (rule f_of_nat)
  also have "\<dots> = of_int (int (unat v))" by (simp only: of_int_of_nat_eq)
  finally show ?thesis by (simp only: of_nat_unat)
qed

lemma f_of_u8_times_16: "f_mul (f_of_nat (unat (v :: u8))) 16 = of_int (16 * uint v)"
proof -
  have "\<bar>16 * uint v\<bar> < 2 ^ 24" using uint_bounded [of v] by simp
  then have "rnd (of_int (16 * uint v)) = of_int (16 * uint v)" by (rule rnd_of_int)
  then show ?thesis by (simp only: f_mul_def f_of_u8 of_int_mult of_int_numeral mult.commute)
qed

lemma table_entry_first:
  assumes "1 \<le> i" "i \<le> 63"
  shows "calc_step p (of_int (uint (tc_v_start c))) (of_int (16 * uint (tc_v_mid c))) (i - 1) = Ok (of_int (table_entry c i))"
proof -
  obtain k where k: "i = Suc k" using assms(1) by (cases i) auto
  show ?thesis
    using calc_step_exact [of "uint (tc_v_start c)" "16 * uint (tc_v_mid c)" k p] assms(2)
      uint_bounded [of "tc_v_start c"] uint_bounded [of "tc_v_mid c"]
    by (simp add: k table_entry_def segment_start_def segment_end_def del: of_int_uint)
qed

lemma table_entry_second:
  assumes "64 \<le> i" "i \<le> 126"
  shows "calc_step p (of_int (16 * uint (tc_v_mid c))) (of_int (16 * uint (tc_v_high c))) (i - 63) = Ok (of_int (table_entry c i))"
proof -
  have "\<exists>n < 256. 16 * uint (tc_v_mid c) = int (16 * n)"
    using unat_u8_le [of "tc_v_mid c"] by (intro exI [of _ "unat (tc_v_mid c)"]) simp
  then show ?thesis
    using calc_step_exact [of "16 * uint (tc_v_mid c)" "16 * uint (tc_v_high c)" "i - 63" p] assms
      uint_bounded [of "tc_v_high c"] uint_bounded [of "tc_v_mid c"]
    by (simp add: table_entry_def segment_start_def segment_end_def of_nat_diff del: of_int_uint)
qed

lemma build_exact:
  "build p c = Ok (map (\<lambda>i. of_int (table_entry c i)) [0..<127])"
proof -
  let ?f = "\<lambda>i. calc_step p (of_int (uint (tc_v_start c))) (of_int (16 * uint (tc_v_mid c))) (i - 1)"
  let ?g = "\<lambda>i. calc_step p (of_int (16 * uint (tc_v_mid c))) (of_int (16 * uint (tc_v_high c))) (i - 63)"
  let ?e = "\<lambda>i. of_int (table_entry c i) :: u16"
  let ?t = "map (\<lambda>i. if 1 \<le> i \<and> i < 64 then ?e i else replicate 127 0 ! i) [0..<127]"
  have first: "fill ?f [1..<64] (replicate 127 0) = Ok ?t"
    using fill_range [of 1 64 ?f ?e "replicate 127 0"] table_entry_first [of _ p c] by simp
  have len: "length ?t = 127" by simp
  have "fill ?g [64..<127] ?t = Ok (map (\<lambda>i. if 64 \<le> i \<and> i < 127 then ?e i else ?t ! i) [0..<length ?t])"
    by (rule fill_range) (use table_entry_second [of _ p c] in simp_all)
  also have "map (\<lambda>i. if 64 \<le> i \<and> i < 127 then ?e i else ?t ! i) [0..<length ?t] = map ?e [0..<127]"
    unfolding len by (rule map_cong [OF refl]) (auto simp: table_entry_def)
  finally have second: "fill ?g [64..<127] ?t = Ok (map ?e [0..<127])" .
  have z: "(replicate 127 0)[0 := 0] = replicate 127 (0 :: u16)" by (simp add: list_eq_iff_nth_eq nth_list_update)
  have d: "(127 :: nat) div 2 = 63" "(1 :: nat) + 63 = 64" "(63 :: nat) + 1 = 64" by simp_all
  show ?thesis
    unfolding build_def Let_def SPEED_TABLE_LEN_def z d f_of_u8_times_16
    by (simp only: f_of_u8 first res_bind.simps second)
qed

lemma interp_mono: "s \<le> e \<Longrightarrow> j \<le> k \<Longrightarrow> interp s e j \<le> interp s e k"
  unfolding interp_def by (intro zdiv_mono1 add_mono mult_left_mono) simp_all

lemma interp_ends [simp]: "interp s e 0 = s" "interp s e 63 = e"
  by (simp_all add: interp_def algebra_simps)

lemma interp_bounds: "s \<le> e \<Longrightarrow> 0 \<le> k \<Longrightarrow> k \<le> 63 \<Longrightarrow> s \<le> interp s e k \<and> interp s e k \<le> e"
  using interp_mono [of s e 0 k] interp_mono [of s e k 63] by simp

lemma interp_ge_0: "0 \<le> s \<Longrightarrow> s \<le> e \<Longrightarrow> 0 \<le> k \<Longrightarrow> k \<le> 63 \<Longrightarrow> 0 \<le> interp s e k"
  using interp_bounds [of s e k] by linarith

section \<open>Properties\<close>

definition rising :: "table_config \<Rightarrow> bool" where
  "rising c \<longleftrightarrow> uint (tc_v_start c) \<le> 16 * uint (tc_v_mid c) \<and> uint (tc_v_mid c) \<le> uint (tc_v_high c)"

lemma table_entry_mono:
  assumes "rising c" "i \<le> j" "j \<le> 126"
  shows "table_entry c i \<le> table_entry c j"
proof -
  have s: "uint (tc_v_start c) \<le> 16 * uint (tc_v_mid c)" "16 * uint (tc_v_mid c) \<le> 16 * uint (tc_v_high c)"
    using assms(1) by (simp_all add: rising_def)
  consider "i = 0" | "i \<noteq> 0" "j \<le> 63" | "i \<noteq> 0" "i \<le> 63" "63 < j" | "63 < i" using assms(2) by linarith
  then show ?thesis
  proof cases
    case 1
    have "0 \<le> table_entry c j"
      using s assms(3) by (auto simp: table_entry_def segment_start_def segment_end_def intro!: interp_ge_0)
    then show ?thesis using 1 by (simp add: table_entry_def)
  next
    case 2
    then show ?thesis using assms(2) s(1) by (auto simp: table_entry_def segment_start_def segment_end_def intro!: interp_mono)
  next
    case 3
    have "interp (uint (tc_v_start c)) (16 * uint (tc_v_mid c)) (int i - 1) \<le> 16 * uint (tc_v_mid c)"
      using 3 interp_bounds [OF s(1), of "int i - 1"] by simp
    moreover have "16 * uint (tc_v_mid c) \<le> interp (16 * uint (tc_v_mid c)) (16 * uint (tc_v_high c)) (int j - 63)"
      using 3 assms(3) interp_bounds [OF s(2), of "int j - 63"] by simp
    ultimately show ?thesis using 3 by (simp add: table_entry_def segment_start_def segment_end_def)
  next
    case 4
    then show ?thesis using assms(2) s(2) by (auto simp: table_entry_def segment_start_def segment_end_def intro!: interp_mono)
  qed
qed

lemma table_entry_ends: "table_entry c 0 = 0" "table_entry c 126 = 16 * uint (tc_v_high c)"
  "table_entry c (Suc 0) = uint (tc_v_start c)"
  by (simp_all add: table_entry_def segment_start_def segment_end_def)

lemma interp_nearest: "\<bar>63 * interp s e k - (63 * s + (e - s) * k)\<bar> \<le> 31"
proof -
  define n where "n = 63 * s + (e - s) * k"
  have "2 * n + 63 = 126 * interp s e k + (2 * n + 63) mod 126"
    by (simp add: interp_def n_def)
  moreover have "0 \<le> (2 * n + 63) mod 126" "(2 * n + 63) mod 126 < 126" by simp_all
  ultimately show ?thesis unfolding n_def [symmetric] by linarith
qed

lemma table_entry_range: "0 \<le> table_entry c i \<and> table_entry c i < 65536" if "i \<le> 126" for i
proof -
  have b: "uint (v :: u8) \<le> 255" "0 \<le> uint v" for v using uint_bounded [of v] by simp_all
  have "0 \<le> interp s e k \<and> interp s e k < 65536"
    if "0 \<le> s" "s \<le> 4080" "0 \<le> e" "e \<le> 4080" "0 \<le> k" "k \<le> 63" for s e k
  proof -
    have "63 * s + (e - s) * k = s * (63 - k) + e * k" by (simp add: algebra_simps)
    also have "\<dots> \<le> 4080 * (63 - k) + 4080 * k" using that by (intro add_mono mult_right_mono) simp_all
    finally have "63 * s + (e - s) * k \<le> 63 * 4080" by simp
    then show ?thesis using interp_nonneg [of s e k] interp_nearest [of s e k] that by linarith
  qed
  then show ?thesis
    using that b [of "tc_v_start c"] b [of "tc_v_mid c"] b [of "tc_v_high c"]
    by (simp add: table_entry_def segment_start_def segment_end_def)
qed

lemma build_entry: "i \<le> 126 \<Longrightarrow> uint (map (\<lambda>i. of_int (table_entry c i) :: u16) [0..<127] ! i) = table_entry c i"
  using table_entry_range [of i c] by (simp add: uint_word_of_int)

text \<open>C26: the speed table is the exact interpolation rounded to the nearest integer. For every
  configuration and in both profiles the build returns 127 entries without tripping its assertion;
  entry 0 is 0, entries 1 to 63 run from \<^verbatim>\<open>v_start\<close> towards \<^verbatim>\<open>16 * v_mid\<close> and entries 64 to
  126 from there to \<^verbatim>\<open>16 * v_high\<close> in steps of one 63rd, and no entry is further than 31/63 from the
  exact value although the code computes in single precision.\<close>

theorem speed_table_nearest:
  "\<exists>t. build p c = Ok t \<and> length t = 127 \<and> t ! 0 = 0
    \<and> (\<forall>i \<in> {1..63}. \<bar>63 * uint (t ! i) - (63 * uint (tc_v_start c)
          + (16 * uint (tc_v_mid c) - uint (tc_v_start c)) * (int i - 1))\<bar> \<le> 31)
    \<and> (\<forall>i \<in> {64..126}. \<bar>63 * uint (t ! i) - (63 * (16 * uint (tc_v_mid c))
          + (16 * uint (tc_v_high c) - 16 * uint (tc_v_mid c)) * (int i - 63))\<bar> \<le> 31)"
proof (intro exI conjI ballI)
  let ?t = "map (\<lambda>i. of_int (table_entry c i) :: u16) [0..<127]"
  show "build p c = Ok ?t" by (rule build_exact)
  show "length ?t = 127" "?t ! 0 = 0" by (simp_all add: table_entry_def)
  fix i :: nat
  show "\<bar>63 * uint (?t ! i) - (63 * uint (tc_v_start c)
      + (16 * uint (tc_v_mid c) - uint (tc_v_start c)) * (int i - 1))\<bar> \<le> 31" if "i \<in> {1..63}"
  proof -
    have "uint (?t ! i) = table_entry c i" using that by (intro build_entry) simp
    then show ?thesis
      using that interp_nearest by (simp only:) (simp add: table_entry_def segment_start_def segment_end_def)
  qed
  show "\<bar>63 * uint (?t ! i) - (63 * (16 * uint (tc_v_mid c))
      + (16 * uint (tc_v_high c) - 16 * uint (tc_v_mid c)) * (int i - 63))\<bar> \<le> 31" if "i \<in> {64..126}"
  proof -
    have "uint (?t ! i) = table_entry c i" using that by (intro build_entry) simp
    then show ?thesis
      using that interp_nearest [of "16 * uint (tc_v_mid c)" "16 * uint (tc_v_high c)" "int i - 63"]
      by (simp only:) (simp add: table_entry_def segment_start_def segment_end_def)
  qed
qed

lemma speed_table_nearest_witness:
  "\<exists>t. build Dev \<lparr>tc_v_start = 1, tc_v_mid = 64, tc_v_high = 126\<rparr> = Ok t
    \<and> uint (t ! 63) = 1008 \<and> uint (t ! 64) = 1040"
proof -
  obtain t where t: "build Dev \<lparr>tc_v_start = 1, tc_v_mid = 64, tc_v_high = 126\<rparr> = Ok t"
    "\<forall>i \<in> {1..63}. \<bar>63 * uint (t ! i) - (63 + 1023 * (int i - 1))\<bar> \<le> 31"
    "\<forall>i \<in> {64..126}. \<bar>63 * uint (t ! i) - (64512 + 992 * (int i - 63))\<bar> \<le> 31"
    using speed_table_nearest [of Dev "\<lparr>tc_v_start = 1, tc_v_mid = 64, tc_v_high = 126\<rparr>"] by auto
  have "\<bar>63 * uint (t ! 63) - 63489\<bar> \<le> 31" using t(2) [THEN bspec, of 63] by simp
  moreover have "\<bar>63 * uint (t ! 64) - 65504\<bar> \<le> 31" using t(3) [THEN bspec, of 64] by simp
  ultimately show ?thesis using t(1) by (intro exI [of _ t]) linarith
qed

text \<open>A rising configuration gives a rising table. When \<^verbatim>\<open>v_start <= 16 * v_mid <= 16 * v_high\<close>, the
  table is sorted, starts with 0 and \<^verbatim>\<open>v_start\<close> and ends with exactly \<^verbatim>\<open>16 * v_high\<close>, the
  \<^verbatim>\<open>max_setpoint\<close> of the PID controller.\<close>

theorem speed_table_monotone:
  assumes "rising c"
  shows "\<exists>t. build p c = Ok t \<and> length t = 127 \<and> sorted (map uint t)
    \<and> uint (t ! 0) = 0 \<and> uint (t ! 1) = uint (tc_v_start c) \<and> uint (t ! 126) = 16 * uint (tc_v_high c)"
proof -
  let ?t = "map (\<lambda>i. of_int (table_entry c i) :: u16) [0..<127]"
  have "map uint ?t ! i = table_entry c i" if "i \<le> 126" for i
    using build_entry [OF that] that by (subst nth_map) simp_all
  then have "sorted (map uint ?t)"
    unfolding sorted_iff_nth_mono using table_entry_mono [OF assms] by simp
  then show ?thesis
    using build_exact [of p c] build_entry [of 0 c] build_entry [of "Suc 0" c] build_entry [of 126 c]
    by (simp add: table_entry_ends)
qed

lemma speed_table_monotone_witness:
  "\<exists>t. build Dev \<lparr>tc_v_start = 1, tc_v_mid = 64, tc_v_high = 126\<rparr> = Ok t \<and> uint (t ! 126) = 2016"
  using speed_table_monotone [of "\<lparr>tc_v_start = 1, tc_v_mid = 64, tc_v_high = 126\<rparr>" Dev]
  by (auto simp: rising_def)

end
