(* ===== verification/Boot.thy ===== *)
theory Boot
  imports Packet_Task Speed_Table
begin

text \<open>
  Starting the decoder (\<^verbatim>\<open>main\<close> in \<^verbatim>\<open>application/src/main.rs\<close>): the store is populated, the
  configurations of all parts are read from it, the ADC offset is measured and stored the first
  time, and the parts are built. Every error is fatal (\<^verbatim>\<open>unwrap!\<close>), which resets the chip. The
  system clock in hertz and the conversion of \<^verbatim>\<open>core\<close> durations to ticks are parameters.
\<close>

section \<open>Configurations read from the store\<close>

definition boot_motor_config ::
  "u32 \<Rightarrow> (duration \<Rightarrow> nat option) \<Rightarrow> 's store_ops \<Rightarrow> 's \<Rightarrow> (unit, motor_config) res" where
  "boot_motor_config clk_sys_freq to_ticks so s =
     res_bind (unwrap (motor_pwm_frequency so s)) (\<lambda>freq.
     res_bind (if freq = 0 then Panic else Ok (ucast (clk_sys_freq div freq))) (\<lambda>output_max.
     res_bind (unwrap (motor_pwm_divider so s)) (\<lambda>divider.
     res_bind (unwrap (Store.emf_measurement_delay so s)) (\<lambda>delay.
     res_bind (unwrap (ok_or (to_ticks delay) ())) (\<lambda>ticks.
     res_bind (unwrap (Store.emf_samples so s)) (\<lambda>samples.
     res_bind (unwrap (emf_l_side_cutoff so s)) (\<lambda>l.
     res_bind (unwrap (emf_r_side_cutoff so s)) (\<lambda>r.
       Ok \<lparr>pwm_max_output = output_max, pwm_clk_divider = 16 * ucast divider,
           emf_measurement_delay = from_micros ticks, emf_samples = samples,
           emf_l_cutoff = l, emf_r_cutoff = r\<rparr>))))))))"

definition boot_adc_offset ::
  "(f32 \<Rightarrow> f32) \<Rightarrow> (f64 \<Rightarrow> f64) \<Rightarrow> ('w, 'pe, 'ae) motor_hw \<Rightarrow> 's store_ops \<Rightarrow> 's \<times> 'w motor
   \<Rightarrow> ('s \<times> 'w motor) \<times> (unit, u8) res" where
  "boot_adc_offset sqrtf round64 hw so = (\<lambda>(s, m).
     st_bind ((s, m), unwrap (emf_adc_offset so s)) (\<lambda>(s, m) offset.
       case offset of
         Some v \<Rightarrow> ((s, m), Ok v)
       | None \<Rightarrow>
           (case measure_adc_offset sqrtf round64 hw m of
              (m, Ok measured_offset) \<Rightarrow>
                let measured_offset = ucast (max 0 (min measured_offset (255 - 1)));
                    (s, r) = write_emf_adc_offset so s measured_offset
                in st_bind ((s, m), unwrap r) (\<lambda>sm _. (sm, Ok measured_offset))
            | (m, Err e) \<Rightarrow> ((s, m), Ok 0)
            | (m, Panic) \<Rightarrow> ((s, m), Panic))))"

definition boot_table_config :: "'s store_ops \<Rightarrow> 's \<Rightarrow> (unit, table_config) res" where
  "boot_table_config so s =
     res_bind (unwrap (v_start so s)) (\<lambda>a. res_bind (unwrap (v_mid so s)) (\<lambda>b. res_bind (unwrap (v_high so s)) (\<lambda>c.
       Ok \<lparr>tc_v_start = a, tc_v_mid = b, tc_v_high = c\<rparr>)))"

text \<open>\<^verbatim>\<open>unwrap!(speed_table.last())\<close>: the table is never empty.\<close>

definition boot_speed_config :: "u16 \<Rightarrow> u16 list \<Rightarrow> u8 \<Rightarrow> 's store_ops \<Rightarrow> 's \<Rightarrow> (unit, speed_config) res" where
  "boot_speed_config output_max speed_table adc_offset so s =
     res_bind (unwrap (pid_sample_time so s)) (\<lambda>sample_time.
     res_bind (unwrap (pid_filter_tc so s)) (\<lambda>filter_tc.
     res_bind (unwrap (pid_ki so s)) (\<lambda>ki.
     res_bind (unwrap (pid_kd so s)) (\<lambda>kd.
     res_bind (unwrap (pid_kp_gain_range1_end so s)) (\<lambda>range1_end.
     res_bind (unwrap (pid_kp_y0 so s)) (\<lambda>y0.
     res_bind (unwrap (pid_kp_y1 so s)) (\<lambda>y1.
     res_bind (unwrap (pid_kp_y2 so s)) (\<lambda>y2.
     res_bind (if speed_table = [] then Panic else Ok (last speed_table)) (\<lambda>max_setpoint.
     res_bind (unwrap (pid_k_ff so s)) (\<lambda>ff.
       Ok \<lparr>spc_pid = \<lparr>pc_sample_time = sample_time, pc_filter_tc = filter_tc, pc_ki = ki, pc_kd = kd,
             pc_output_max = output_max, pc_kp_gain_range1_end = range1_end, pc_kp_y0 = y0, pc_kp_y1 = y1,
             pc_kp_y2 = y2, pc_max_setpoint = f_of_nat (unat max_setpoint)\<rparr>,
           spc_startup = \<lparr>sc_output_max = output_max, sc_pid_ff = ff\<rparr>,
           spc_adc_offset = f_of_nat (unat adc_offset)\<rparr>))))))))))"

definition boot_accel_config :: "'s store_ops \<Rightarrow> 's \<Rightarrow> (unit, accel_config) res" where
  "boot_accel_config so s =
     res_bind (unwrap (acceleration_rate so s)) (\<lambda>a. res_bind (unwrap (deceleration_rate so s)) (\<lambda>d.
     res_bind (unwrap (speed_step_period so s)) (\<lambda>p. Ok \<lparr>accel_rate = a, decel_rate = d, loop_delay = p\<rparr>)))"

section \<open>The start\<close>

text \<open>What \<^verbatim>\<open>main\<close> hands to the tasks it spawns.\<close>

record ('s, 'p, 'w, 'v) booted =
  bt_handler :: "(instant_timer, 's) handler"
  bt_outputs :: "'v outputs"
  bt_sample_ticks :: nat
  bt_motor :: "'w motor"
  bt_speed :: "'p speed_controller"
  bt_accel :: accel_helper
  bt_table :: "u16 list"

definition boot ::
  "profile \<Rightarrow> u32 \<Rightarrow> (duration \<Rightarrow> nat option) \<Rightarrow> ('e, 'c, 'p) pid_lib \<Rightarrow> (f32 \<Rightarrow> f32) \<Rightarrow> (f64 \<Rightarrow> f64)
   \<Rightarrow> ('w, 'pe, 'ae) motor_hw \<Rightarrow> 'v pin_hw \<Rightarrow> 's store_ops \<Rightarrow> 's \<Rightarrow> 'w \<Rightarrow> 'v
   \<Rightarrow> 's \<times> (unit, ('s, 'p, 'w, 'v) booted) res" where
  "boot p clk_sys_freq to_ticks lib sqrtf round64 hw phw so s w v =
     (let (s, r) = ensure_populated so s in
      st_bind (s, unwrap r) (\<lambda>s _.
      st_bind (s, boot_motor_config clk_sys_freq to_ticks so s) (\<lambda>s mcfg.
      let ((s, motor_controller), r) = boot_adc_offset sqrtf round64 hw so (s, motor_new hw mcfg w) in
      st_bind (s, r) (\<lambda>s adc_offset.
      st_bind (s, res_bind (boot_table_config so s) (build p)) (\<lambda>s speed_table.
      st_bind (s, boot_speed_config (pwm_max_output mcfg) speed_table adc_offset so s) (\<lambda>s scfg.
      st_bind (s, unwrap (speed_new lib scfg)) (\<lambda>s speed_control.
      st_bind (s, boot_accel_config so s) (\<lambda>s acfg.
      st_bind (s, unwrap (pid_sample_time so s)) (\<lambda>s sample_time.
      let (v, r) = new_handler phw so s v in
      st_bind (s, r) (\<lambda>s fg_handler.
        (s, Ok \<lparr>bt_handler = handler_new instant_timer_new s, bt_outputs = fg_handler,
          bt_sample_ticks = unwrap_default 7000 (to_ticks sample_time), bt_motor = motor_controller,
          bt_speed = speed_control, bt_accel = accel_new acfg, bt_table = speed_table\<rparr>)))))))))))"

text \<open>The tasks as they are spawned.\<close>

definition spawn_motor :: "('s, 'p, 'w, 'v) booted \<Rightarrow> ('w, 'p) motor_system" where
  "spawn_motor b = system_init (bt_accel b) (bt_motor b) (bt_speed b)"

definition spawn_packets :: "('s, 'p, 'w, 'v) booted \<Rightarrow> (instant_timer, 's, 'v) packet_task" where
  "spawn_packets b = packet_task_init (bt_handler b) (bt_outputs b)"

section \<open>Values\<close>

text \<open>Rounding is idempotent.\<close>

lemma rnd_idem: "0 \<le> x \<Longrightarrow> rnd (rnd x) = rnd x"
proof (cases "x = 0")
  case False
  assume "0 \<le> x"
  with False have x: "0 < x" by simp
  let ?n = "round_even (x / ulp x)" and ?e = "ilog2 \<bar>x\<bar> - 23"
  have r: "rnd x = of_int ?n * 2 powi ?e" using x by (simp add: rnd_ulp ulp_def)
  have p: "2 powi (ilog2 x + 1) = of_int (2 ^ 24) * (2 :: rat) powi ?e"
    using x by (simp add: power_int_add power_int_diff)
  have "of_int ?n * (2 :: rat) powi ?e \<le> of_int (2 ^ 24) * 2 powi ?e"
    using rnd_bounds(2) [OF x] unfolding r p .
  then have "(of_int ?n :: rat) \<le> of_int (2 ^ 24)" by (simp only: mult_le_cancel_right_pos powi_2_pos)
  then have le: "?n \<le> 2 ^ 24" by (simp only: of_int_le_iff)
  have "0 < of_int ?n * (2 :: rat) powi ?e" using rnd_pos [OF x] unfolding r .
  then have "0 < ?n" using powi_2_pos [of ?e] by (simp add: zero_less_mult_iff not_less_iff_gr_or_eq)
  show ?thesis
  proof (cases "?n = 2 ^ 24")
    case True
    have "rnd x = of_int 1 * 2 powi (?e + 24)" unfolding r True by (simp add: power_int_add power_int_diff)
    then show ?thesis using rnd_exact [of 1 "?e + 24"] by simp
  next
    case False
    then show ?thesis using rnd_exact [of ?n ?e] le \<open>0 < ?n\<close> unfolding r by simp
  qed
qed simp

lemma f_div_range:
  assumes "0 \<le> x" "x \<le> of_nat n * y" "0 < y" "n < 2 ^ 24"
  shows "0 \<le> f_div x y" "f_div x y \<le> of_nat n" "rnd (f_div x y) = f_div x y"
proof -
  have q: "0 \<le> x / y" "x / y \<le> of_nat n" using assms(1-3) by (simp_all add: pos_divide_le_eq)
  show "0 \<le> f_div x y" using q(1) by (simp add: f_div_def rnd_nonneg)
  show "f_div x y \<le> of_nat n" using rnd_mono [OF q(2)] rnd_of_nat [OF assms(4)] by (simp add: f_div_def)
  show "rnd (f_div x y) = f_div x y" using rnd_idem [OF q(1)] by (simp add: f_div_def)
qed

text \<open>The gains as hundredths of a \<^verbatim>\<open>u16\<close>.\<close>

lemma gain_range_u16:
  fixes v :: u16
  defines "g \<equiv> f_div (f_of_nat (unat v)) 100"
  shows "g \<in> {0..656}" "rnd g = g"
proof -
  have v: "f_of_nat (unat v) = of_nat (unat v)" using unat_u16_le [of v] by (intro f_of_nat) simp
  have "(of_nat (unat v) :: rat) \<le> of_nat 65535" using unat_u16_le [of v] by (simp only: of_nat_le_iff)
  then have "(of_nat (unat v) :: rat) \<le> of_nat 656 * 100" by simp
  note f = f_div_range [of "of_nat (unat v)" 656 100, OF of_nat_0_le_iff this]
  show "g \<in> {0..656}" "rnd g = g" unfolding g_def v using f by simp_all
qed

text \<open>The top of the PWM slice: the clock divided by the frequency of CV 9.\<close>

definition cv_pwm_max :: "u32 \<Rightarrow> (nat \<Rightarrow> u8) \<Rightarrow> nat" where
  "cv_pwm_max clk cvs = unat clk div (unat (cvs (cv_num MotorPwmFrequency)) * 100 + 10000)"

lemma pwm_frequency_unat: "unat (ucast (v :: u8) * 100 + 10000 :: u32) = unat v * 100 + 10000"
proof -
  have v: "unat v \<le> 255" by (rule unat_u8_le)
  then have u: "unat (ucast v :: u32) = unat v" by (simp add: unsigned_ucast_eq take_bit_nat_eq_self)
  show ?thesis using v by (simp add: unat_word_ariths u)
qed

lemma cv_pwm_max_bounds:
  "unat clk \<le> 652740000 \<Longrightarrow> cv_pwm_max clk cvs \<le> 65274"
  "8875000 \<le> unat clk \<Longrightarrow> 250 \<le> cv_pwm_max clk cvs"
proof -
  let ?v = "unat (cvs (cv_num MotorPwmFrequency))"
  have v: "?v \<le> 255" by (rule unat_u8_le)
  show "cv_pwm_max clk cvs \<le> 65274" if "unat clk \<le> 652740000"
  proof -
    have "unat clk div (?v * 100 + 10000) \<le> unat clk div 10000" by (rule div_le_mono2) simp_all
    then show ?thesis using that unfolding cv_pwm_max_def by linarith
  qed
  show "250 \<le> cv_pwm_max clk cvs" if "8875000 \<le> unat clk"
    using that v by (simp add: cv_pwm_max_def less_eq_div_iff_mult_less_eq)
qed

lemma pwm_max_unat:
  assumes "unat clk \<le> 652740000"
  shows "unat (ucast (clk div (ucast (cvs (cv_num MotorPwmFrequency)) * 100 + 10000)) :: u16) = cv_pwm_max clk cvs"
  using cv_pwm_max_bounds(1) [OF assms, of cvs] pwm_frequency_unat [of "cvs (cv_num MotorPwmFrequency)"]
  by (simp add: unsigned_ucast_eq take_bit_nat_eq_self unat_div cv_pwm_max_def)

lemma cv_percent_range:
  fixes v :: u8
  shows "f_of_nat (unat v) = of_nat (unat v)" "of_nat (unat v) \<le> (254 :: rat) \<longleftrightarrow> v \<le> 254"
proof -
  show "f_of_nat (unat v) = of_nat (unat v)" using unat_u8_le [of v] by (intro f_of_nat) simp
  have "of_nat (unat v) \<le> (254 :: rat) \<longleftrightarrow> of_nat (unat v) \<le> (of_nat 254 :: rat)" by simp
  also have "\<dots> \<longleftrightarrow> v \<le> 254" unfolding of_nat_le_iff by (simp add: word_le_nat_alt)
  finally show "of_nat (unat v) \<le> (254 :: rat) \<longleftrightarrow> v \<le> 254" .
qed

section \<open>The ADC offset\<close>

lemma post_measure_adc_offset_rest:
  assumes hw: "motor_hw_ok hw duty" "off_reliable hw"
  shows "post (at_rest duty) (measure_adc_offset sqrtf round64 hw m)"
proof -
  have stop: "post (at_rest duty) (motor_stop hw m)" for m
    using motor_stop_reliable [OF hw, of m] by (auto simp: post_def)
  have measure: "post (at_rest duty) (dc_measure_emf hw d n m)" if "at_rest duty m" for d n m
    using post_dc_measure(1) [OF hw(1), of "\<lambda>f. f = (\<lambda>_. 0)" m d n] that by (simp add: at_rest_def [abs_def])
  have wait: "at_rest duty (m\<lparr>mc_world := hw_wait hw t (mc_world m)\<rparr>) = at_rest duty m" for m t
    using hw_laws(5) [OF hw(1)] by (simp add: at_rest_def)
  show ?thesis
    unfolding measure_adc_offset_def Let_def
    by (intro post_bind_same [where Q = "at_rest duty"] stop measure) (simp_all add: wait)
qed

context cv_store
begin

text \<open>The offset is at most 254, the motor stays off, and no CV but the offset's own changes.\<close>

lemma boot_adc_offset_keeps:
  assumes hw: "motor_hw_ok hw duty" "off_reliable hw" and m: "at_rest duty m" and s: "wf s" "accepts so wf"
  obtains s' m' v where "boot_adc_offset sqrtf round64 hw so (s, m) = ((s', m'), Ok v)"
    "wf s'" "at_rest duty m'" "v \<le> 254" "\<And>a. a \<noteq> cv_num EmfAdcOffset \<Longrightarrow> cvs s' a = cvs s a"
proof (cases "cvs s (cv_num EmfAdcOffset) = 255")
  case False
  then have o: "emf_adc_offset so s = Ok (Some (cvs s (cv_num EmfAdcOffset)))"
    unfolding emf_adc_offset_def read_cv [OF s(1)] by simp
  from False have "cvs s (cv_num EmfAdcOffset) \<le> 254"
    using unat_u8_le [of "cvs s (cv_num EmfAdcOffset)"] by (simp add: word_le_nat_alt word_unat_eq_iff)
  then show thesis
    using that [of s m "cvs s (cv_num EmfAdcOffset)"] m s(1) by (simp add: boot_adc_offset_def o)
next
  case True
  then have o: "emf_adc_offset so s = Ok None" unfolding emf_adc_offset_def read_cv [OF s(1)] by simp
  obtain m' r where e: "measure_adc_offset sqrtf round64 hw m = (m', r)" by fastforce
  have m': "at_rest duty m'" "r \<noteq> Panic"
    using post_measure_adc_offset_rest [OF hw, of sqrtf round64 m] by (simp_all add: e)
  show thesis
  proof (cases r)
    case (Err x)
    then show thesis using that [of s m' 0] m' s(1) by (simp add: boot_adc_offset_def o e)
  next
    case (Ok x)
    let ?v = "ucast (max 0 (min x (255 - 1))) :: u8"
    obtain s' rr where w: "op_write_byte so s (cv_num EmfAdcOffset) ?v = (s', rr)" by fastforce
    have rr: "rr = Ok ()" using s cv_num_valid [of EmfAdcOffset] w unfolding accepts_def by (metis One_nat_def snd_conv)
    have s': "wf s'" "cvs s' = (cvs s)(cv_num EmfAdcOffset := ?v)"
      using write_cv [OF s(1) w] by (simp_all add: rr write_outcome_def)
    have "unat (min x 254) \<le> 254" by (simp add: min_def word_le_nat_alt)
    then have "?v \<le> 254" by (simp add: word_le_nat_alt unsigned_ucast_eq take_bit_nat_eq_self)
    then show thesis
      using that [of s' m' ?v] m' s' rr Ok w
      by (simp add: boot_adc_offset_def o e write_emf_adc_offset_def Let_def del: cv_num.simps)
  qed (use m' in simp)
qed

end

section \<open>The configurations\<close>

text \<open>Duration conversion as documented: whole microseconds, if they fit 64 bits.\<close>

definition ticks_are_micros :: "(duration \<Rightarrow> nat option) \<Rightarrow> bool" where
  "ticks_are_micros to_ticks \<longleftrightarrow> (\<forall>d. d div 1000 < 2 ^ 64 \<longrightarrow> to_ticks d = Some (d div 1000))"

context cv_store
begin

lemma boot_motor_config_cvs:
  assumes s: "wf s" and t: "ticks_are_micros to_ticks" and clk: "unat clk \<le> 652740000"
  shows "\<exists>c. boot_motor_config clk to_ticks so s = Ok c \<and> unat (pwm_max_output c) = cv_pwm_max clk (cvs s)"
proof -
  let ?v = "cvs s (cv_num MotorPwmFrequency)"
  let ?f = "ucast ?v * 100 + 10000 :: u32"
  have f: "motor_pwm_frequency so s = Ok ?f" unfolding motor_pwm_frequency_def read_cv [OF s] by simp
  have nz: "?f \<noteq> 0" using pwm_frequency_unat [of ?v] by (metis add_is_0 unat_0 zero_neq_numeral)
  have d: "to_ticks (from_micros (unat (cvs s (cv_num EmfMsrDelay)))) = Some (unat (cvs s (cv_num EmfMsrDelay)))"
    using t unat_u8_le [of "cvs s (cv_num EmfMsrDelay)"] by (auto simp: ticks_are_micros_def from_micros_def)
  have "boot_motor_config clk to_ticks so s = Ok \<lparr>pwm_max_output = ucast (clk div ?f),
      pwm_clk_divider = 16 * ucast (cvs s (cv_num MotorPwmDivider)),
      emf_measurement_delay = from_micros (unat (cvs s (cv_num EmfMsrDelay))),
      emf_samples = cvs s (cv_num EmfMsrSamples), emf_l_cutoff = cvs s (cv_num EmfMsrLowCutoff),
      emf_r_cutoff = cvs s (cv_num EmfMsrHighCutoff)\<rparr>"
    unfolding boot_motor_config_def f motor_pwm_divider_def Store.emf_measurement_delay_def Store.emf_samples_def
      emf_l_side_cutoff_def emf_r_side_cutoff_def read_cv [OF s]
    using nz d by (simp del: cv_num.simps)
  then show ?thesis using pwm_max_unat [OF clk, of "cvs s"] by (simp del: cv_num.simps)
qed

lemma boot_table_cvs:
  assumes "wf s"
  shows "\<exists>t. res_bind (boot_table_config so s) (build p) = Ok t \<and> length t = 127 \<and> t ! 0 = 0
    \<and> uint (last t) = 16 * uint (cvs s (cv_num VHigh))"
proof -
  let ?c = "\<lparr>tc_v_start = cvs s (cv_num VStart), tc_v_mid = cvs s (cv_num VMid), tc_v_high = cvs s (cv_num VHigh)\<rparr>"
  let ?t = "map (\<lambda>i. of_int (table_entry ?c i) :: u16) [0..<127]"
  have "boot_table_config so s = Ok ?c"
    unfolding boot_table_config_def v_start_def v_mid_def v_high_def read_cv [OF assms] by simp
  then have "res_bind (boot_table_config so s) (build p) = Ok ?t" using build_exact [of p ?c] by simp
  moreover have "uint (last ?t) = 16 * uint (cvs s (cv_num VHigh))"
  proof -
    have "last ?t = ?t ! 126" by (subst last_conv_nth) simp_all
    then have "uint (last ?t) = table_entry ?c 126" using build_entry [of 126 ?c] by (simp only:)
    then show ?thesis by (simp add: table_entry_ends)
  qed
  moreover have "length ?t = 127" "?t ! 0 = 0" by (simp_all add: table_entry_ends)
  ultimately show ?thesis by blast
qed

lemma boot_speed_config_cvs:
  assumes s: "wf s" and t: "t \<noteq> []" "uint (last t) \<le> 4080"
  shows "\<exists>c. boot_speed_config mx t ofs so s = Ok c \<and> cv_gains (spc_pid c) \<and> 0 \<le> pc_max_setpoint (spc_pid c)
    \<and> pc_output_max (spc_pid c) = mx \<and> sc_output_max (spc_startup c) = mx \<and> spc_adc_offset c = of_nat (unat ofs)"
proof -
  define hundredths :: "u16 \<Rightarrow> f32" where "hundredths = (\<lambda>v. f_div (f_of_nat (unat v)) 100)"
  have y: "\<exists>v. pid_kp_y0 so s = Ok (hundredths v)" "\<exists>v. pid_kp_y1 so s = Ok (hundredths v)"
    "\<exists>v. pid_kp_y2 so s = Ok (hundredths v)"
    unfolding pid_kp_y0_def pid_kp_y1_def pid_kp_y2_def hundredths_def
    using read_u16 [OF s, of "cv_num PidKpY0"] read_u16 [OF s, of "cv_num PidKpY1"] read_u16 [OF s, of "cv_num PidKpY2"]
    by auto
  then obtain a b c where y: "pid_kp_y0 so s = Ok (hundredths a)" "pid_kp_y1 so s = Ok (hundredths b)"
    "pid_kp_y2 so s = Ok (hundredths c)" by blast
  have g: "hundredths v \<in> {0..656}" "rnd (hundredths v) = hundredths v" for v
    unfolding hundredths_def by (rule gain_range_u16)+
  let ?e = "cvs s (cv_num PidKpGainRange1End)"
  have u: "unat (last t) \<le> 4080" using t(2) by (metis nat_le_iff of_nat_numeral unat_eq_nat_uint uint_nonnegative nat_mono nat_numeral)
  have last: "f_of_nat (unat (last t)) = of_nat (unat (last t))" using u by (intro f_of_nat) simp
  have "\<exists>n k. (of_nat (unat (last t)) :: rat) = of_nat n \<and> n \<le> 4080 \<and> k \<le> 255
      \<and> f_div (of_nat (unat ?e)) 255 = f_div (of_nat k) 255"
    using u unat_u8_le [of ?e] by blast
  then show ?thesis
    unfolding boot_speed_config_def pid_sample_time_def pid_filter_tc_def pid_ki_def pid_kd_def
      pid_kp_gain_range1_end_def pid_k_ff_def read_cv [OF s] y last cv_percent_range(1)
    using t(1) g of_nat_0_le_iff [of "unat (last t)"] by (simp add: cv_gains_def del: cv_num.simps)
qed

lemma boot_accel_config_cvs:
  "wf s \<Longrightarrow> \<exists>c. boot_accel_config so s = Ok c \<and> delay_ok (accel_new c)"
  unfolding boot_accel_config_def acceleration_rate_def deceleration_rate_def speed_step_period_def
  using unat_u8_le [of "cvs s (cv_num SpeedStepPeriod)"]
  by (simp add: delay_ok_def accel_new_def from_millis_def duration_max_def del: cv_num.simps)

end

section \<open>The contracts of the parts hold after the start\<close>

text \<open>What the theorems about the parts ask for: the motor at rest, a speed controller that is well
  formed and whose maximal output leaves room for the startup ramp, a gain schedule in the range
  of its accuracy bound, a corrected offset, an acceleration helper at rest with delays that fit,
  a whole speed table that begins with 0, timers before the end of time, and outputs as the CVs describe.\<close>

definition ready ::
  "u32 \<Rightarrow> ('w \<Rightarrow> direction \<Rightarrow> nat) \<Rightarrow> ('p \<Rightarrow> f32 \<times> f32) \<Rightarrow> (nat \<Rightarrow> u8) \<Rightarrow> ('s, 'p, 'w, 'v) booted \<Rightarrow> bool" where
  "ready clk duty plim cvs b \<longleftrightarrow> at_rest duty (bt_motor b)
     \<and> (\<exists>mx. unat mx = cv_pwm_max clk cvs \<and> ramp_room mx \<and> 250 \<le> unat mx \<and> speed_wf plim mx (bt_speed b))
     \<and> cv_gains (pid_params (spd_pid (bt_speed b)))
     \<and> 0 \<le> spc_adc_offset (spd_config (bt_speed b)) \<and> spc_adc_offset (spd_config (bt_speed b)) \<le> 254
     \<and> delay_ok (bt_accel b) \<and> ah_current (bt_accel b) = velocity_default
     \<and> length (bt_table b) = 127 \<and> bt_table b ! 0 = 0 \<and> bt_sample_ticks b < 2 ^ 62
     \<and> fo_config (bt_outputs b) =
         \<lparr>function_map_forward = cv_output_map cvs Forward, function_map_reverse = cv_output_map cvs Reverse\<rparr>
     \<and> fo_drivers (bt_outputs b) = cv_drivers cvs (cv_u32 cvs (cv_num EnablePwmOutputMask)) output_slices"

lemma speed_new_fields:
  assumes "pid_lib_limits lib clim plim" "speed_new lib cfg = Ok c" "0 \<le> pc_max_setpoint (spc_pid cfg)"
  shows "spd_config c = cfg" "pid_params (spd_pid c) = spc_pid cfg"
  using assms(2) pid_new_wf(2) [OF assms(1) _ assms(3)] by (auto simp: speed_new_def)

context cv_store
begin

lemma sample_ticks_cvs:
  assumes "wf s" "ticks_are_micros to_ticks"
  shows "\<exists>d. pid_sample_time so s = Ok d \<and> unwrap_default 7000 (to_ticks d) < 2 ^ 62"
proof -
  let ?v = "unat (cvs s (cv_num PidSampleTime))"
  have v: "?v \<le> 255" by (rule unat_u8_le)
  have "to_ticks (from_millis ?v) = Some (?v * 1000)"
    using assms(2) v by (auto simp: ticks_are_micros_def from_millis_def)
  then show ?thesis
    using v unfolding pid_sample_time_def read_cv [OF assms(1)] by (simp add: unwrap_default_def del: cv_num.simps)
qed

lemma boot_ready:
  fixes lib :: "('e, 'c, 'p) pid_lib" and v :: 'v and w :: 'w
  assumes s: "wf s" "accepts so wf" "snd (ensure_populated so s) = Ok ()"
    and hw: "motor_hw_ok hw duty" "off_reliable hw" and lib: "pid_lib_limits lib clim plim"
    and t: "ticks_are_micros to_ticks" and clk: "8875000 \<le> unat clk" "unat clk \<le> 652740000"
  shows "\<exists>s' r. boot p clk to_ticks lib sqrtf round64 hw phw so s w v = (s', r) \<and> wf s' \<and>
    addr_of_cvs (cvs s') = start_address (cvs s) \<and>
    (case r of Ok b \<Rightarrow> ready clk duty plim (cvs s') b \<and> bt_handler b = handler_new instant_timer_new s'
     | _ \<Rightarrow> \<exists>cfg. cv_gains (spc_pid cfg) \<and> (\<forall>c. speed_new lib cfg \<noteq> Ok c))"
proof -
  obtain s1 where e1: "ensure_populated so s = (s1, Ok ())" using s(3) by (metis prod.collapse)
  have s1: "wf s1" "addr_of_cvs (cvs s1) = start_address (cvs s)" using ensure_populated_addr [OF s(1) e1] by simp_all
  obtain mc where e2: "boot_motor_config clk to_ticks so s1 = Ok mc" "unat (pwm_max_output mc) = cv_pwm_max clk (cvs s1)"
    using boot_motor_config_cvs [OF s1(1) t clk(2)] by blast
  obtain s2 m ofs where e3: "boot_adc_offset sqrtf round64 hw so (s1, motor_new hw mc w) = ((s2, m), Ok ofs)"
    "wf s2" "at_rest duty m" "ofs \<le> 254" "\<And>a. a \<noteq> cv_num EmfAdcOffset \<Longrightarrow> cvs s2 a = cvs s1 a"
    using boot_adc_offset_keeps [OF hw motor_new_at_rest [OF hw(1)] s1(1) s(2)] by blast
  obtain tb where e4: "res_bind (boot_table_config so s2) (build p) = Ok tb" "length tb = 127"
    "uint (last tb) = 16 * uint (cvs s2 (cv_num VHigh))" "tb ! 0 = 0"
    using boot_table_cvs [OF e3(2)] by blast
  have tb: "tb \<noteq> []" "uint (last tb) \<le> 4080" using e4(2,3) uint_u8_le [of "cvs s2 (cv_num VHigh)"] by auto
  obtain sc where e5: "boot_speed_config (pwm_max_output mc) tb ofs so s2 = Ok sc" "cv_gains (spc_pid sc)"
    "0 \<le> pc_max_setpoint (spc_pid sc)" "pc_output_max (spc_pid sc) = pwm_max_output mc"
    "sc_output_max (spc_startup sc) = pwm_max_output mc" "spc_adc_offset sc = of_nat (unat ofs)"
    using boot_speed_config_cvs [OF e3(2) tb] by blast
  obtain ac where e6: "boot_accel_config so s2 = Ok ac" "delay_ok (accel_new ac)"
    using boot_accel_config_cvs [OF e3(2)] by blast
  obtain d where e7: "pid_sample_time so s2 = Ok d" "unwrap_default 7000 (to_ticks d) < 2 ^ 62"
    using sample_ticks_cvs [OF e3(2) t] by blast
  from new_handler_cvs [OF e3(2), of phw v] obtain v' where e8: "new_handler phw so s2 v = (v', Ok (outputs_new
      \<lparr>function_map_forward = cv_output_map (cvs s2) Forward, function_map_reverse = cv_output_map (cvs s2) Reverse\<rparr>
      (cv_drivers (cvs s2) (cv_u32 (cvs s2) (cv_num EnablePwmOutputMask)) output_slices) v'))" ..
  have mx: "unat (pwm_max_output mc) = cv_pwm_max clk (cvs s2)" using e2(2) e3(5) [of "cv_num MotorPwmFrequency"] by (simp add: cv_pwm_max_def)
  have "addr_of_cvs (cvs s2) = addr_of_cvs (cvs s1)" using e3(5) by (simp add: addr_of_cvs_def)
  then have addr: "addr_of_cvs (cvs s2) = start_address (cvs s)" using s1(2) by simp
  have room: "ramp_room (pwm_max_output mc)" "250 \<le> unat (pwm_max_output mc)"
    using cv_pwm_max_bounds [of clk "cvs s2"] clk by (simp_all add: ramp_room_iff mx)
  show ?thesis
  proof (cases "speed_new lib sc")
    case (Ok c)
    have c: "speed_wf plim (pwm_max_output mc) c" "spd_config c = sc" "pid_params (spd_pid c) = spc_pid sc"
      using speed_new_wf [OF lib Ok e5(3-5) room(1)] speed_new_fields [OF lib Ok e5(3)] by blast+
    define fg where "fg = outputs_new
      \<lparr>function_map_forward = cv_output_map (cvs s2) Forward, function_map_reverse = cv_output_map (cvs s2) Reverse\<rparr>
      (cv_drivers (cvs s2) (cv_u32 (cvs s2) (cv_num EnablePwmOutputMask)) output_slices) v'"
    define b where "b = \<lparr>bt_handler = handler_new instant_timer_new s2, bt_outputs = fg,
      bt_sample_ticks = unwrap_default 7000 (to_ticks d), bt_motor = m, bt_speed = c, bt_accel = accel_new ac, bt_table = tb\<rparr>"
    have "boot p clk to_ticks lib sqrtf round64 hw phw so s w v = (s2, Ok b)"
      unfolding boot_def e1 by (simp add: e2(1) e3(1) e4(1) e5(1) Ok e6(1) e7(1) e8 [folded fg_def] b_def)
    moreover have "ready clk duty plim (cvs s2) b"
    proof -
      have "of_nat (unat ofs) \<le> (254 :: rat)" unfolding cv_percent_range(2) by (rule e3(4))
      then have o: "0 \<le> spc_adc_offset (spd_config c)" "spc_adc_offset (spd_config c) \<le> 254"
        unfolding c(2) e5(6) by (simp_all only: of_nat_0_le_iff)
      have x: "\<exists>mx. unat mx = cv_pwm_max clk (cvs s2) \<and> ramp_room mx \<and> 250 \<le> unat mx \<and> speed_wf plim mx c"
        by (intro exI conjI) (rule mx room c(1))+
      show ?thesis
        unfolding ready_def b_def fg_def outputs_new_def
        using x o e3(3) e5(2) e6(2) e7(2) e4(2,4) by (simp add: c(3) accel_new_def del: cv_num.simps)
    qed
    ultimately show ?thesis using e3(2) addr by (intro exI [of _ s2] exI [of _ "Ok b"]) (simp add: b_def)
  next
    case (Err e)
    have "boot p clk to_ticks lib sqrtf round64 hw phw so s w v = (s2, Panic)"
      unfolding boot_def e1 by (simp add: e2(1) e3(1) e4(1) e5(1) Err)
    then show ?thesis using e3(2) addr e5(2) Err by (intro exI [of _ s2] exI [of _ Panic]) auto
  next
    case Panic
    have "boot p clk to_ticks lib sqrtf round64 hw phw so s w v = (s2, Panic)"
      unfolding boot_def e1 by (simp add: e2(1) e3(1) e4(1) e5(1) Panic)
    then show ?thesis using e3(2) addr e5(2) Panic by (intro exI [of _ s2] exI [of _ Panic]) auto
  qed
qed

end

text \<open>On a flash that works, the store can be populated.\<close>

lemma flash_works_populate:
  assumes "flash_works fo" "flash_wf s"
  shows "snd (ensure_populated (flash_store p fo) s) = Ok ()"
  using fls.ensure_populated_cases [OF assms(2), of p fo]
    flash_works_write [OF assms, of 1 DEFAULT_VALUES p True]
  by (simp add: store_reset_def flash_store_def CV_SIZE_def)

lemma boot_flash_ready:
  fixes lib :: "('e, 'c, 'p) pid_lib" and v :: 'v and w :: 'w
  assumes "flash_works fo" "flash_wf s" "motor_hw_ok hw duty" "off_reliable hw"
    and "pid_lib_limits lib clim plim" "ticks_are_micros to_ticks" "8875000 \<le> unat clk" "unat clk \<le> 652740000"
  shows "\<exists>s' r. boot p clk to_ticks lib sqrtf round64 hw phw (flash_store p fo) s w v = (s', r) \<and> flash_wf s' \<and>
    addr_of_cvs (flash_cvs s') = start_address (flash_cvs s) \<and>
    (case r of Ok b \<Rightarrow> ready clk duty plim (flash_cvs s') b \<and> bt_handler b = handler_new instant_timer_new s'
     | _ \<Rightarrow> \<exists>cfg. cv_gains (spc_pid cfg) \<and> (\<forall>c. speed_new lib cfg \<noteq> Ok c))"
  by (rule fls.boot_ready [OF assms(2) flash_accepts [OF assms(1)] flash_works_populate [OF assms(1,2)] assms(3-8)])


lemma micros_are_micros: "ticks_are_micros micros"
  by (simp add: ticks_are_micros_def micros_def)

lemma p_lib_accepts: "\<exists>c. speed_new p_lib cfg = Ok c"
proof -
  have "0 \<le> (of_nat (unat (pc_output_max (spc_pid cfg))) :: rat)" by (rule of_nat_0_le_iff)
  then show ?thesis by (simp add: speed_new_def pid_new_def p_lib_def Let_def)
qed

lemma sample_boot:
  "\<exists>s' b. boot Dev 125000000 micros p_lib id id (sim_hw 12500) bench_hw (flash_store Dev (mem_flash True)) blank_flash
       (\<lambda>_. 0) (\<lambda>_. Low) = (s', Ok b) \<and> flash_wf s' \<and> addr_of_cvs (flash_cvs s') = start_address (flash_cvs blank_flash)
     \<and> ready 125000000 (\<lambda>w. w) p_lim (flash_cvs s') b \<and> bt_handler b = handler_new instant_timer_new s'"
proof -
  have clk: "8875000 \<le> unat (125000000 :: u32)" "unat (125000000 :: u32) \<le> 652740000" by simp_all
  obtain s' r where b: "boot Dev 125000000 micros p_lib id id (sim_hw 12500) bench_hw (flash_store Dev (mem_flash True))
      blank_flash (\<lambda>_. 0) (\<lambda>_. Low) = (s', r)" "flash_wf s'" "addr_of_cvs (flash_cvs s') = start_address (flash_cvs blank_flash)"
    "case r of Ok b \<Rightarrow> ready 125000000 (\<lambda>w. w) p_lim (flash_cvs s') b \<and> bt_handler b = handler_new instant_timer_new s'
     | _ \<Rightarrow> \<exists>cfg. cv_gains (spc_pid cfg) \<and> (\<forall>c. speed_new p_lib cfg \<noteq> Ok c)"
    using boot_flash_ready [OF mem_flash_works blank_flash_simps(1) sim_hw_ok sim_off_reliable p_lim_limits
      micros_are_micros clk, of Dev id id 12500 bench_hw "\<lambda>_. 0" "\<lambda>_. Low"] by blast
  have "\<not> (\<exists>cfg. cv_gains (spc_pid cfg) \<and> (\<forall>c. speed_new p_lib cfg \<noteq> Ok c))" using p_lib_accepts by blast
  then show ?thesis using b by (cases r) auto
qed


end
