(* ===== verification/Build_Script.thy ===== *)
theory Build_Script
  imports Flash_Store
begin

text \<open>
  The build script (\<^verbatim>\<open>application/build.rs\<close>): it reads the line of \<^verbatim>\<open>memory.x\<close> that places the
  configuration store in flash, evaluates its two expressions and writes them as constants for
  \<^verbatim>\<open>main.rs\<close>. Modelled are the literals, the expression evaluator and the file it writes; the regular
  expression is a parameter. The theorems give the value of every expression of signed literals, and
  place the sector that the store erases inside the region that \<^verbatim>\<open>memory.x\<close> sets aside, clear of
  the program. Strings are ASCII.
\<close>

section \<open>Strings\<close>

text \<open>\<^verbatim>\<open>str::trim\<close>, \<^verbatim>\<open>strip_prefix\<close> and \<^verbatim>\<open>strip_suffix\<close> of the standard library.\<close>

definition is_whitespace :: "char \<Rightarrow> bool" where
  "is_whitespace c \<longleftrightarrow> c \<in> {CHR '' '', CHR 0x09, CHR 0x0A, CHR 0x0B, CHR 0x0C, CHR 0x0D}"

definition trim :: "string \<Rightarrow> string" where
  "trim s = rev (dropWhile is_whitespace (rev (dropWhile is_whitespace s)))"

definition strip_prefix :: "string \<Rightarrow> string \<Rightarrow> string option" where
  "strip_prefix p s = (if take (length p) s = p then Some (drop (length p) s) else None)"

definition strip_suffix :: "char \<Rightarrow> string \<Rightarrow> string option" where
  "strip_suffix c s = (if s \<noteq> [] \<and> last s = c then Some (butlast s) else None)"

section \<open>Literals\<close>

text \<open>\<^verbatim>\<open>char::to_digit\<close>, and \<^verbatim>\<open>u64::from_str_radix\<close>, which is also what \<^verbatim>\<open>parse::<u64>\<close> does with
  radix 10: an optional plus sign, at least one digit, and no overflow.\<close>

definition to_digit :: "nat \<Rightarrow> char \<Rightarrow> nat option" where
  "to_digit radix c =
     (let k = of_char c;
          d = if 48 \<le> k \<and> k \<le> 57 then k - 48 else if 97 \<le> k \<and> k \<le> 122 then k - 87
              else if 65 \<le> k \<and> k \<le> 90 then k - 55 else 36
      in if d < radix then Some d else None)"

definition checked_mul :: "'a::len word \<Rightarrow> 'a word \<Rightarrow> 'a word option" where
  "checked_mul a b = (if unat a * unat b < 2 ^ LENGTH('a) then Some (a * b) else None)"

definition checked_add :: "'a::len word \<Rightarrow> 'a word \<Rightarrow> 'a word option" where
  "checked_add a b = (if unat a + unat b < 2 ^ LENGTH('a) then Some (a + b) else None)"

fun radix_digits :: "nat \<Rightarrow> u64 \<Rightarrow> string \<Rightarrow> u64 option" where
  "radix_digits radix acc [] = Some acc"
| "radix_digits radix acc (c # s) =
     Option.bind (checked_mul acc (of_nat radix)) (\<lambda>m.
       Option.bind (to_digit radix c) (\<lambda>d.
         Option.bind (checked_add m (of_nat d)) (\<lambda>a. radix_digits radix a s)))"

definition from_str_radix :: "nat \<Rightarrow> string \<Rightarrow> u64 option" where
  "from_str_radix radix s =
     (let s = (case strip_prefix ''+'' s of Some t \<Rightarrow> t | None \<Rightarrow> s)
      in if s = [] then None else radix_digits radix 0 s)"

definition parse_number :: "string \<Rightarrow> u64 option" where
  "parse_number s =
     (let s = trim s in
      case (case strip_prefix ''0x'' s of Some hex \<Rightarrow> Some hex | None \<Rightarrow> strip_prefix ''0X'' s) of
        Some hex \<Rightarrow> from_str_radix 16 hex
      | None \<Rightarrow> from_str_radix 10 s)"

definition parse_size_literal :: "string \<Rightarrow> u64 option" where
  "parse_size_literal s =
     (let t = trim s in
      case strip_suffix (CHR ''K'') t of
        Some num \<Rightarrow> Option.bind (parse_number (trim num)) (\<lambda>v. checked_mul v 1024)
      | None \<Rightarrow>
          (case strip_suffix (CHR ''M'') t of
             Some num \<Rightarrow> Option.bind (parse_number (trim num)) (\<lambda>v. checked_mul v (1024 * 1024))
           | None \<Rightarrow> parse_number t))"

section \<open>Expressions\<close>

text \<open>The accumulator is an \<^verbatim>\<open>i128\<close>.\<close>

definition i128_checked_add :: "int \<Rightarrow> int \<Rightarrow> int option" where
  "i128_checked_add a b = (if - (2 ^ 127) \<le> a + b \<and> a + b < 2 ^ 127 then Some (a + b) else None)"

definition i128_saturating_mul :: "int \<Rightarrow> int \<Rightarrow> int" where
  "i128_saturating_mul a b = max (- (2 ^ 127)) (min (2 ^ 127 - 1) (a * b))"

text \<open>The closure \<^verbatim>\<open>flush\<close>: the token and the accumulator it leaves.\<close>

definition flush :: "string \<Rightarrow> int \<Rightarrow> int \<Rightarrow> (string \<times> int) option" where
  "flush tok acc sign =
     (let t = trim tok in
      if t \<noteq> [] then
        Option.bind (parse_size_literal t) (\<lambda>v.
          Option.bind (i128_checked_add acc (i128_saturating_mul sign (uint v))) (\<lambda>acc. Some ([], acc)))
      else Some (tok, acc))"

fun expr_loop :: "string \<Rightarrow> string \<Rightarrow> int \<Rightarrow> int \<Rightarrow> (string \<times> int \<times> int) option" where
  "expr_loop [] cur acc sign = Some (cur, acc, sign)"
| "expr_loop (ch # s) cur acc sign =
     (if ch = CHR ''+'' then Option.bind (flush cur acc sign) (\<lambda>(cur, acc). expr_loop s cur acc 1)
      else if ch = CHR ''-'' then Option.bind (flush cur acc sign) (\<lambda>(cur, acc). expr_loop s cur acc (- 1))
      else if ch = CHR ''('' \<or> ch = CHR '')'' then expr_loop s cur acc sign
      else expr_loop s (cur @ [ch]) acc sign)"

text \<open>\<^verbatim>\<open>acc as u64\<close> keeps the low 64 bits.\<close>

definition parse_add_sub_expr :: "string \<Rightarrow> u64 option" where
  "parse_add_sub_expr s =
     Option.bind (expr_loop s [] 0 1) (\<lambda>(cur, acc, sign).
       Option.bind (flush cur acc sign) (\<lambda>(_, acc).
         if acc < 0 then None else Some (word_of_int acc)))"

section \<open>The constants\<close>

text \<open>Numbers as \<^verbatim>\<open>format!\<close> prints them; the radix is 10 there.\<close>

definition digit_char :: "nat \<Rightarrow> char" where
  "digit_char d = char_of (if d < 10 then 48 + d else 87 + d)"

fun digits :: "nat \<Rightarrow> nat \<Rightarrow> string" where
  "digits radix n =
     (if n < radix \<or> radix < 2 then [digit_char n]
      else digits radix (n div radix) @ [digit_char (n mod radix)])"

declare digits.simps [simp del]

text \<open>The captures of the regular expression in the text of \<^verbatim>\<open>memory.x\<close> are a parameter: the two
  expressions, when the pattern is found. The result is the text of \<^verbatim>\<open>flash_consts.rs\<close>.\<close>

definition extract_flash_info :: "(string \<Rightarrow> (string \<times> string) option) \<Rightarrow> string \<Rightarrow> (unit, string) res" where
  "extract_flash_info captures mem =
     (case captures mem of
        None \<Rightarrow> Panic
      | Some (origin, len) \<Rightarrow>
          (case parse_add_sub_expr origin of
             None \<Rightarrow> Panic
           | Some origin \<Rightarrow>
               (case parse_add_sub_expr len of
                  None \<Rightarrow> Panic
                | Some flash_len \<Rightarrow>
                    Ok (''pub const CV_FLASH_ORIGIN: usize = '' @ digits 10 (unat origin) @ '';'' @ [CHR 0x0A]
                      @ ''pub const CV_FLASH_SIZE: usize = '' @ digits 10 (unat flash_len) @ '';'' @ [CHR 0x0A]))))"

text \<open>The regions of \<^verbatim>\<open>memory.x\<close>: name, origin and length as they are written there.\<close>

definition memory_x :: "(string \<times> string \<times> string) list" where
  "memory_x =
     [(''BOOT2'', ''0x10000000'', ''0x100''),
      (''FLASH'', ''0x10000100'', ''2048K - 0x100 - 128K''),
      (''CV_FLASH'', ''0x10000000 + 2048K - 128K'', ''128K''),
      (''RAM'', ''0x20000000'', ''264K'')]"

text \<open>How \<^verbatim>\<open>main\<close> opens the store: the offset of the region from the start of the flash.\<close>

definition FLASH_SIZE :: nat where
  "FLASH_SIZE = 2 * 1024 * 1024"

definition boot_cv_store ::
  "profile \<Rightarrow> nat \<Rightarrow> 'f rp_flash \<Rightarrow> 'f \<Rightarrow> usize \<Rightarrow> u32 \<Rightarrow> (unit, 'f flash) res" where
  "boot_cv_store p erase_size fo dev CV_FLASH_ORIGIN flash_base =
     res_bind (word_sub p (of_nat CV_FLASH_ORIGIN) flash_base) (\<lambda>offset.
       unwrap (flash_new p erase_size fo dev offset))"

text \<open>The absolute bounds of a region.\<close>

definition region_bounds :: "string \<Rightarrow> (nat \<times> nat) option" where
  "region_bounds n =
     (case map_of memory_x n of
        None \<Rightarrow> None
      | Some (origin, len) \<Rightarrow>
          Option.bind (parse_add_sub_expr origin) (\<lambda>a.
            Option.bind (parse_add_sub_expr len) (\<lambda>l. Some (unat a, unat a + unat l))))"

section \<open>Digits\<close>

lemma of_char_digit_char: "d < 16 \<Longrightarrow> of_char (digit_char d) = (if d < 10 then 48 + d else 87 + d)"
  by (simp add: digit_char_def)

lemma to_digit_digit_char [simp]:
  "d < radix \<Longrightarrow> radix \<le> 16 \<Longrightarrow> to_digit radix (digit_char d) = Some d"
  by (auto simp: to_digit_def of_char_digit_char)

definition radix_value :: "nat \<Rightarrow> nat \<Rightarrow> string \<Rightarrow> nat" where
  "radix_value radix a s = foldl (\<lambda>a c. a * radix + the (to_digit radix c)) a s"

lemma radix_value_simps [simp]:
  "radix_value radix a [] = a"
  "radix_value radix a (c # s) = radix_value radix (a * radix + the (to_digit radix c)) s"
  "radix_value radix a (s @ t) = radix_value radix (radix_value radix a s) t"
  by (simp_all add: radix_value_def)

lemma radix_value_ge: "0 < radix \<Longrightarrow> a \<le> radix_value radix a s"
proof (induction s arbitrary: a)
  case (Cons c s)
  have "a \<le> a * radix + the (to_digit radix c)" using Cons.prems by (cases radix) simp_all
  then show ?case using Cons.IH [OF Cons.prems, of "a * radix + the (to_digit radix c)"] by simp
qed simp

lemma checked_mul_cases:
  "checked_mul a b = (if unat a * unat b < 2 ^ LENGTH('a) then Some (a * b) else None)"
  "unat a * unat b < 2 ^ LENGTH('a) \<Longrightarrow> unat (a * b) = unat a * unat b"
  for a b :: "'a::len word"
  by (simp_all add: checked_mul_def unat_word_ariths)

lemma checked_add_cases:
  "checked_add a b = (if unat a + unat b < 2 ^ LENGTH('a) then Some (a + b) else None)"
  "unat a + unat b < 2 ^ LENGTH('a) \<Longrightarrow> unat (a + b) = unat a + unat b"
  for a b :: "'a::len word"
  by (simp_all add: checked_add_def unat_word_ariths)

text \<open>Reading digits: the value if it fits 64 bits.\<close>

definition u64_of :: "nat \<Rightarrow> u64 option" where
  "u64_of n = (if n < 2 ^ 64 then Some (of_nat n) else None)"

lemma u64_of_unat [simp]: "u64_of (unat w) = Some w"
  using unsigned_less [of w, where 'a = nat] by (simp add: u64_of_def)

lemma unat_u64_of_nat: "n < 2 ^ 64 \<Longrightarrow> unat (of_nat n :: u64) = n"
  by (simp add: unsigned_of_nat take_bit_nat_eq_self)

lemma radix_digits_value:
  assumes "0 < radix" "radix < 2 ^ 64" "\<forall>c \<in> set s. to_digit radix c \<noteq> None"
  shows "radix_digits radix a s = u64_of (radix_value radix (unat a) s)"
  using assms(3)
proof (induction s arbitrary: a)
  case (Cons c s)
  obtain d where d: "to_digit radix c = Some d" using Cons.prems by auto
  have dr: "d < radix" using d by (auto simp: to_digit_def Let_def split: if_splits)
  have r: "unat (of_nat radix :: u64) = radix" "unat (of_nat d :: u64) = d"
    using assms(2) dr by (simp_all add: unat_u64_of_nat)
  show ?case
  proof (cases "unat a * radix + d < 2 ^ 64")
    case True
    then have m: "unat a * radix < 2 ^ 64" by simp
    have u: "unat (a * of_nat radix :: u64) = unat a * radix" using m r by (simp add: checked_mul_cases(2))
    have "unat (a * of_nat radix + of_nat d :: u64) = unat a * radix + d"
      using True r u by (simp add: checked_add_cases(2))
    then show ?thesis
      using Cons d True m r u by (simp add: checked_mul_def checked_add_def)
  next
    case False
    then have "2 ^ 64 \<le> radix_value radix (unat a * radix + d) s"
      using radix_value_ge [OF assms(1), of "unat a * radix + d" s] by simp
    then have n: "u64_of (radix_value radix (unat a) (c # s)) = None" by (simp add: u64_of_def d)
    show ?thesis
    proof (cases "unat a * radix < 2 ^ 64")
      case True
      then have "unat (a * of_nat radix :: u64) = unat a * radix" using r by (simp add: checked_mul_cases(2))
      then show ?thesis unfolding n using False True d r by (simp add: checked_mul_def checked_add_def)
    next
      case False
      then show ?thesis unfolding n using r by (simp add: checked_mul_def)
    qed
  qed
qed simp

lemma digits_valid:
  assumes "2 \<le> radix" "radix \<le> 16" "c \<in> set (digits radix n)"
  shows "\<exists>d < radix. c = digit_char d"
  using assms
proof (induction radix n rule: digits.induct)
  case (1 radix n)
  show ?case
  proof (cases "n < radix")
    case True
    then show ?thesis using "1.prems" by (subst (asm) digits.simps) auto
  next
    case False
    then have "c \<in> set (digits radix (n div radix)) \<or> c = digit_char (n mod radix)"
      using "1.prems" by (subst (asm) digits.simps) auto
    moreover have "n mod radix < radix" using "1.prems" by simp
    ultimately show ?thesis using "1.IH" "1.prems" False by (auto intro: exI [of _ "n mod radix"])
  qed
qed

lemma radix_value_digits:
  assumes "2 \<le> radix" "radix \<le> 16"
  shows "radix_value radix 0 (digits radix n) = n"
  using assms
proof (induction radix n rule: digits.induct)
  case (1 radix n)
  show ?case
  proof (cases "n < radix")
    case True
    then show ?thesis using 1 by (subst digits.simps) simp
  next
    case False
    then show ?thesis using 1 by (subst digits.simps) (simp add: div_mult_mod_eq)
  qed
qed

lemma digits_neq_Nil [simp]: "digits radix n \<noteq> []"
  by (subst digits.simps) simp

lemma radix_digits_digits:
  assumes "2 \<le> radix" "radix \<le> 16"
  shows "radix_digits radix 0 (digits radix n) = u64_of n"
proof -
  have "\<forall>c \<in> set (digits radix n). to_digit radix c \<noteq> None"
    using digits_valid [OF assms] assms(2) by fastforce
  then show ?thesis using radix_digits_value [of radix "digits radix n" 0] radix_value_digits [OF assms] assms by simp
qed

section \<open>Literals as they are written\<close>

text \<open>A number in decimal or hexadecimal, and its unit.\<close>

datatype number = Dec nat | Hex nat

datatype size_unit = NoUnit | Kilo | Mega

primrec number_value :: "number \<Rightarrow> nat" where
  "number_value (Dec n) = n"
| "number_value (Hex n) = n"

primrec number_text :: "number \<Rightarrow> string" where
  "number_text (Dec n) = digits 10 n"
| "number_text (Hex n) = ''0x'' @ digits 16 n"

primrec unit_factor :: "size_unit \<Rightarrow> nat" where
  "unit_factor NoUnit = 1"
| "unit_factor Kilo = 1024"
| "unit_factor Mega = 1024 * 1024"

primrec unit_text :: "size_unit \<Rightarrow> string" where
  "unit_text NoUnit = []"
| "unit_text Kilo = ''K''"
| "unit_text Mega = ''M''"

text \<open>The characters that structure an expression; none occurs in a number.\<close>

definition plain_char :: "char \<Rightarrow> bool" where
  "plain_char c \<longleftrightarrow> \<not> is_whitespace c \<and> c \<notin> {CHR ''+'', CHR ''-'', CHR ''('', CHR '')'', CHR ''K'', CHR ''M''}"

lemma digit_char_eq_iff:
  "d < 16 \<Longrightarrow> digit_char d = c \<longleftrightarrow> of_char c = (if d < 10 then 48 + d else 87 + d)"
  using of_char_digit_char [of d] by (metis of_char_eq_iff)

lemma digit_char_plain:
  "d < 16 \<Longrightarrow> plain_char (digit_char d) \<and> digit_char d \<noteq> CHR ''x'' \<and> digit_char d \<noteq> CHR ''X''"
  by (auto simp: plain_char_def is_whitespace_def digit_char_eq_iff)

lemma digits_plain:
  "2 \<le> radix \<Longrightarrow> radix \<le> 16 \<Longrightarrow> c \<in> set (digits radix n) \<Longrightarrow> plain_char c \<and> c \<noteq> CHR ''x'' \<and> c \<noteq> CHR ''X''"
  using digits_valid [of radix c n] digit_char_plain by (metis le_trans less_le_trans)

lemma number_text_plain: "c \<in> set (number_text x) \<Longrightarrow> plain_char c"
  by (cases x) (auto dest: digits_plain [rotated 2] simp: plain_char_def is_whitespace_def)

lemma number_text_neq_Nil [simp]: "number_text x \<noteq> []"
  by (cases x) simp_all

lemma dropWhile_all: "\<forall>c \<in> set w. P c \<Longrightarrow> dropWhile P (w @ s) = dropWhile P s"
  by (induction w) simp_all

lemma trim_pad:
  assumes "\<forall>c \<in> set w1. is_whitespace c" "\<forall>c \<in> set w2. is_whitespace c"
    and "s \<noteq> []" "\<not> is_whitespace (hd s)" "\<not> is_whitespace (last s)"
  shows "trim (w1 @ s @ w2) = s"
proof -
  have d: "dropWhile is_whitespace t = t" if "t \<noteq> []" "\<not> is_whitespace (hd t)" for t
    using that by (cases t) simp_all
  have "dropWhile is_whitespace (w1 @ s @ w2) = s @ w2"
    using assms(1,3,4) d [of "s @ w2"] by (simp add: dropWhile_all)
  moreover have "dropWhile is_whitespace (rev (s @ w2)) = rev s"
    using assms(2,3,5) d [of "rev s"] by (simp add: dropWhile_all hd_rev)
  ultimately show ?thesis by (simp add: trim_def)
qed

lemma trim_number: "\<forall>c \<in> set w. is_whitespace c \<Longrightarrow> trim (number_text x @ w) = number_text x"
  using trim_pad [of "[]" w "number_text x"] number_text_plain [of "hd (number_text x)" x]
    number_text_plain [of "last (number_text x)" x] by (simp add: plain_char_def)

lemma strip_prefix_char_None: "c \<in> set p \<Longrightarrow> c \<notin> set s \<Longrightarrow> strip_prefix p s = None"
  unfolding strip_prefix_def by (metis in_set_takeD)

lemma from_str_radix_digits:
  assumes "2 \<le> radix" "radix \<le> 16"
  shows "from_str_radix radix (digits radix n) = u64_of n"
proof -
  have "CHR ''+'' \<notin> set (digits radix n)" using digits_plain [OF assms] by (auto simp: plain_char_def)
  then have "strip_prefix ''+'' (digits radix n) = None" by (intro strip_prefix_char_None [of "CHR ''+''"]) simp_all
  then show ?thesis by (simp add: from_str_radix_def radix_digits_digits [OF assms])
qed

lemma parse_number_text: "parse_number (number_text x) = u64_of (number_value x)"
proof (cases x)
  case (Dec n)
  have "CHR ''x'' \<notin> set (digits 10 n)" "CHR ''X'' \<notin> set (digits 10 n)"
    using digits_plain [of 10 _ n] by auto
  then have "strip_prefix ''0x'' (digits 10 n) = None" "strip_prefix ''0X'' (digits 10 n) = None"
    by (intro strip_prefix_char_None [of "CHR ''x''"] strip_prefix_char_None [of "CHR ''X''"]; simp)+
  then show ?thesis using trim_number [of "[]" x] by (simp add: parse_number_def Dec from_str_radix_digits)
next
  case (Hex n)
  then show ?thesis
    using trim_number [of "[]" x] by (simp add: parse_number_def Hex from_str_radix_digits strip_prefix_def)
qed

lemma checked_mul_u64_of:
  assumes "0 < k" "k < 2 ^ 64"
  shows "Option.bind (u64_of n) (\<lambda>v. checked_mul v (of_nat k)) = u64_of (n * k)"
proof (cases "n < 2 ^ 64")
  case True
  then show ?thesis using assms by (simp add: u64_of_def checked_mul_def unat_u64_of_nat)
next
  case False
  then have "\<not> n * k < 2 ^ 64" using assms(1) by (cases k) simp_all
  then show ?thesis using False by (simp add: u64_of_def)
qed

lemma parse_size_literal_text:
  assumes "\<forall>c \<in> set w1. is_whitespace c" "\<forall>c \<in> set w2. is_whitespace c" "\<forall>c \<in> set w3. is_whitespace c"
  shows "parse_size_literal (w1 @ number_text x @ w2 @ unit_text u @ w3) = u64_of (number_value x * unit_factor u)"
proof -
  let ?n = "number_text x"
  have p: "\<not> is_whitespace (hd ?n)" "\<not> is_whitespace (last ?n)" "last ?n \<noteq> CHR ''K''" "last ?n \<noteq> CHR ''M''"
    using number_text_plain [of "hd ?n" x] number_text_plain [of "last ?n" x] by (simp_all add: plain_char_def)
  have units: "\<not> is_whitespace (CHR ''K'')" "\<not> is_whitespace (CHR ''M'')" by (simp_all add: is_whitespace_def)
  show ?thesis
  proof (cases u)
    case NoUnit
    have "trim (w1 @ ?n @ w2 @ w3) = ?n" using trim_pad [of w1 "w2 @ w3" ?n] assms p by auto
    then show ?thesis using p by (simp add: parse_size_literal_def NoUnit strip_suffix_def parse_number_text)
  next
    case Kilo
    have "trim (w1 @ (?n @ w2 @ ''K'') @ w3) = ?n @ w2 @ ''K''"
      using assms p units by (intro trim_pad) simp_all
    then show ?thesis
      using checked_mul_u64_of [of 1024 "number_value x"] trim_number [OF assms(2)]
      by (simp add: parse_size_literal_def Kilo strip_suffix_def butlast_append parse_number_text)
  next
    case Mega
    have "trim (w1 @ (?n @ w2 @ ''M'') @ w3) = ?n @ w2 @ ''M''"
      using assms p units by (intro trim_pad) simp_all
    then show ?thesis
      using checked_mul_u64_of [of "1024 * 1024" "number_value x"] trim_number [OF assms(2)]
      by (simp add: parse_size_literal_def Mega strip_suffix_def butlast_append parse_number_text)
  qed
qed

section \<open>Expressions as they are written\<close>

text \<open>A term: whether it is subtracted, its number and unit, and the white space around them.\<close>

record expr_term =
  tm_neg :: bool
  tm_number :: number
  tm_unit :: size_unit
  tm_before :: string
  tm_between :: string
  tm_after :: string

definition term_wf :: "expr_term \<Rightarrow> bool" where
  "term_wf t \<longleftrightarrow> (\<forall>c \<in> set (tm_before t @ tm_between t @ tm_after t). is_whitespace c)"

definition term_text :: "expr_term \<Rightarrow> string" where
  "term_text t = tm_before t @ number_text (tm_number t) @ tm_between t @ unit_text (tm_unit t) @ tm_after t"

definition term_size :: "expr_term \<Rightarrow> nat" where
  "term_size t = number_value (tm_number t) * unit_factor (tm_unit t)"

definition term_sign :: "expr_term \<Rightarrow> int" where
  "term_sign t = (if tm_neg t then - 1 else 1)"

definition signed_text :: "expr_term \<Rightarrow> string" where
  "signed_text t = (if tm_neg t then ''-'' else ''+'') @ term_text t"

text \<open>The first term needs no plus sign.\<close>

fun expr_text :: "expr_term list \<Rightarrow> string" where
  "expr_text [] = []"
| "expr_text (t # ts) = (if tm_neg t then ''-'' else []) @ term_text t @ concat (map signed_text ts)"

definition expr_value :: "expr_term list \<Rightarrow> int" where
  "expr_value ts = (\<Sum>t \<leftarrow> ts. term_sign t * int (term_size t))"

definition not_paren :: "char \<Rightarrow> bool" where
  "not_paren c \<longleftrightarrow> c \<noteq> CHR ''('' \<and> c \<noteq> CHR '')''"

lemma expr_loop_filter: "expr_loop (filter not_paren s) cur acc sign = expr_loop s cur acc sign"
proof (induction s arbitrary: cur acc sign)
  case (Cons c s)
  then show ?case by (cases "flush cur acc sign") (auto simp: not_paren_def)
qed simp

lemma expr_loop_token:
  "\<forall>c \<in> set b. c \<notin> {CHR ''+'', CHR ''-'', CHR ''('', CHR '')''} \<Longrightarrow>
   expr_loop (b @ s) cur acc sign = expr_loop s (cur @ b) acc sign"
  by (induction b arbitrary: cur) simp_all

lemma term_text_token:
  assumes "term_wf t"
  shows "\<forall>c \<in> set (term_text t). c \<notin> {CHR ''+'', CHR ''-'', CHR ''('', CHR '')''}"
proof
  fix c assume "c \<in> set (term_text t)"
  then consider "is_whitespace c" | "c \<in> set (number_text (tm_number t))" | "c \<in> set (unit_text (tm_unit t))"
    using assms by (auto simp: term_text_def term_wf_def)
  then show "c \<notin> {CHR ''+'', CHR ''-'', CHR ''('', CHR '')''}"
  proof cases
    case 2
    then show ?thesis using number_text_plain by (simp add: plain_char_def)
  next
    case 3
    then show ?thesis by (cases "tm_unit t") simp_all
  qed (auto simp: is_whitespace_def)
qed

lemma trim_idem: "trim (trim s) = trim s"
proof -
  have d: "dropWhile P (dropWhile P s) = dropWhile P s" for P and s :: string
    by (induction s) simp_all
  let ?a = "dropWhile is_whitespace s"
  let ?b = "rev (dropWhile is_whitespace (rev ?a))"
  have "dropWhile is_whitespace ?b = ?b"
  proof (cases "?b = []")
    case False
    obtain w where "?a = ?b @ w" using takeWhile_dropWhile_id [of is_whitespace "rev ?a"] by (metis rev_append rev_rev_ident)
    then have "hd ?b = hd ?a" "?a \<noteq> []" using False by (metis hd_append2, metis append_is_Nil_conv)
    then have "\<not> is_whitespace (hd ?b)" using hd_dropWhile [of is_whitespace s] by metis
    then show ?thesis using False by (cases ?b) simp_all
  next
    case True
    show ?thesis unfolding True by simp
  qed
  then show ?thesis by (simp add: trim_def d)
qed

lemma parse_size_literal_trim: "parse_size_literal (trim s) = parse_size_literal s"
  by (simp add: parse_size_literal_def trim_idem)

lemma trim_eq_Nil: "trim s = [] \<longleftrightarrow> (\<forall>c \<in> set s. is_whitespace c)"
proof -
  have "(\<forall>c \<in> set (dropWhile is_whitespace s). is_whitespace c) \<longleftrightarrow> dropWhile is_whitespace s = []"
    using hd_dropWhile [of is_whitespace s] by (metis hd_in_set list.set(1) empty_iff)
  then show ?thesis by (simp add: trim_def dropWhile_eq_Nil_conv)
qed

lemma trim_term_text: "trim (term_text t) \<noteq> []"
proof -
  have "hd (number_text (tm_number t)) \<in> set (term_text t)" by (simp add: term_text_def)
  moreover have "\<not> is_whitespace (hd (number_text (tm_number t)))"
    using number_text_plain [of "hd (number_text (tm_number t))" "tm_number t"] by (simp add: plain_char_def)
  ultimately show ?thesis unfolding trim_eq_Nil by blast
qed

lemma flush_term:
  assumes "term_wf t" "\<bar>acc\<bar> < 2 ^ 126"
  shows "flush (term_text t) acc (term_sign t) =
    (if term_size t < 2 ^ 64 then Some ([], acc + term_sign t * int (term_size t)) else None)"
proof -
  have p: "parse_size_literal (trim (term_text t)) = u64_of (term_size t)"
    unfolding parse_size_literal_trim term_text_def term_size_def
    using assms(1) by (intro parse_size_literal_text) (simp_all add: term_wf_def)
  show ?thesis
  proof (cases "term_size t < 2 ^ 64")
    case True
    then have u: "uint (of_nat (term_size t) :: u64) = int (term_size t)" "int (term_size t) < 2 ^ 64"
      by (simp_all add: unat_u64_of_nat uint_nat)
    moreover have "i128_saturating_mul (term_sign t) (int (term_size t)) = term_sign t * int (term_size t)"
      using u(2) by (simp add: i128_saturating_mul_def term_sign_def)
    moreover have "i128_checked_add acc (term_sign t * int (term_size t)) = Some (acc + term_sign t * int (term_size t))"
      using u(2) assms(2) by (auto simp: i128_checked_add_def term_sign_def abs_less_iff)
    ultimately show ?thesis using True p trim_term_text [of t] by (simp add: flush_def u64_of_def)
  next
    case False
    then show ?thesis using p trim_term_text [of t] by (simp add: flush_def u64_of_def)
  qed
qed

lemma term_sign_bound: "term_size t < 2 ^ 64 \<Longrightarrow> \<bar>term_sign t * int (term_size t)\<bar> < 2 ^ 64"
  by (auto simp: term_sign_def)

lemma expr_rest:
  assumes "\<forall>t \<in> set (t # ts). term_wf t" "\<bar>acc\<bar> + 2 ^ 64 * int (length ts) < 2 ^ 126"
  shows "Option.bind (expr_loop (concat (map signed_text ts)) (term_text t) acc (term_sign t))
      (\<lambda>(cur, acc, sign). Option.bind (flush cur acc sign) (\<lambda>(_, acc). k acc)) =
    (if \<forall>t \<in> set (t # ts). term_size t < 2 ^ 64 then k (acc + expr_value (t # ts)) else None)"
  using assms
proof (induction ts arbitrary: t acc)
  case Nil
  then show ?case using flush_term [of t acc] by (simp add: expr_value_def)
next
  case (Cons u ts)
  have acc: "\<bar>acc\<bar> < 2 ^ 126" using Cons.prems(2) by simp
  have "\<bar>acc + term_sign t * int (term_size t)\<bar> + 2 ^ 64 * int (length ts) < 2 ^ 126" if "term_size t < 2 ^ 64"
    using Cons.prems(2) term_sign_bound [OF that] by (simp add: algebra_simps)
  note IH = Cons.IH [of u "acc + term_sign t * int (term_size t)", OF _ this]
  have token: "expr_loop (term_text u @ s) [] a g = expr_loop s (term_text u) a g" for s a g
    using expr_loop_token [OF term_text_token] Cons.prems(1) by simp
  have step: "expr_loop (signed_text u @ s) (term_text t) acc (term_sign t) =
      (if term_size t < 2 ^ 64 then expr_loop s (term_text u) (acc + term_sign t * int (term_size t)) (term_sign u)
       else None)" for s
  proof -
    note f = flush_term [of t acc, OF _ acc] Cons.prems(1)
    show ?thesis
    proof (cases "tm_neg u")
      case True
      then have "term_sign u = - 1" by (simp add: term_sign_def)
      then show ?thesis using f by (simp add: signed_text_def True token)
    next
      case False
      then have "term_sign u = 1" by (simp add: term_sign_def)
      then show ?thesis using f by (simp add: signed_text_def False token)
    qed
  qed
  show ?case using IH Cons.prems(1) by (auto simp: step expr_value_def algebra_simps)
qed

lemma expr_loop_first:
  assumes "term_wf t"
  shows "expr_loop (expr_text (t # ts)) [] 0 1 = expr_loop (concat (map signed_text ts)) (term_text t) 0 (term_sign t)"
  using expr_loop_token [OF term_text_token [OF assms], of _ "[]" 0]
  by (simp add: term_sign_def flush_def trim_def)

section \<open>Properties\<close>

text \<open>C38: the value of an expression. Whatever signed terms an expression spells (decimal or
  hexadecimal numbers with the units K and M, white space around them and parentheses anywhere), the
  build script refuses it when a single term does not fit 64 bits or the sum is negative. Otherwise
  the result is the sum, with every parenthesis ignored, and only the low 64 bits of it are kept.\<close>

theorem expression_value:
  assumes "filter not_paren s = expr_text (t # ts)" "\<forall>t \<in> set (t # ts). term_wf t" "length ts < 2 ^ 60"
  shows "parse_add_sub_expr s =
    (if (\<forall>t \<in> set (t # ts). term_size t < 2 ^ 64) \<and> 0 \<le> expr_value (t # ts)
     then Some (word_of_int (expr_value (t # ts))) else None)"
proof -
  have "int (length ts) < 2 ^ 60" using assms(3) by (metis of_nat_less_iff of_nat_numeral of_nat_power)
  then have "\<bar>0\<bar> + 2 ^ 64 * int (length ts) < 2 ^ 126" by simp
  note r = expr_rest [OF assms(2) this]
  have e: "expr_loop s [] 0 1 = expr_loop (concat (map signed_text ts)) (term_text t) 0 (term_sign t)"
    using expr_loop_filter [of s "[]" 0 1] expr_loop_first [of t ts] assms(1,2) by simp
  show ?thesis unfolding parse_add_sub_expr_def e r by simp
qed

text \<open>Numbers without units.\<close>

abbreviation plain_term :: "bool \<Rightarrow> number \<Rightarrow> size_unit \<Rightarrow> expr_term" where
  "plain_term neg x u \<equiv>
     \<lparr>tm_neg = neg, tm_number = x, tm_unit = u, tm_before = '' '', tm_between = [], tm_after = '' ''\<rparr>"

lemma digit_chars:
  "digit_char 0 = CHR ''0''" "digit_char 1 = CHR ''1''" "digit_char 2 = CHR ''2''" "digit_char 3 = CHR ''3''"
  "digit_char 4 = CHR ''4''" "digit_char 5 = CHR ''5''" "digit_char 6 = CHR ''6''" "digit_char 7 = CHR ''7''"
  "digit_char 8 = CHR ''8''" "digit_char 9 = CHR ''9''" "digit_char 15 = CHR ''f''"
  by (simp_all add: digit_char_eq_iff)

lemma expression_value_witness:
  "parse_add_sub_expr ''5 - (3 - 2)'' = Some 0
   \<and> parse_add_sub_expr ''0xffffffffffffffff + 1'' = Some 0
   \<and> parse_add_sub_expr ''1K - 1M'' = None"
proof -
  have wrap: "(18446744073709551616 :: u64) = 0" using word_exp_length_eq_0 [where 'a = 64] by simp
  show ?thesis
    using expression_value [of "''5 - (3 - 2)''" "plain_term False (Dec 5) NoUnit\<lparr>tm_before := []\<rparr>" "[plain_term True (Dec 3) NoUnit, plain_term True (Dec 2) NoUnit\<lparr>tm_after := []\<rparr>]"]
      expression_value [of "''0xffffffffffffffff + 1''" "plain_term False (Hex 0xffffffffffffffff) NoUnit\<lparr>tm_before := []\<rparr>" "[plain_term False (Dec 1) NoUnit\<lparr>tm_after := []\<rparr>]"]
      expression_value [of "''1K - 1M''" "plain_term False (Dec 1) Kilo\<lparr>tm_before := []\<rparr>" "[plain_term True (Dec 1) Mega\<lparr>tm_after := []\<rparr>]"]
    by (simp add: not_paren_def term_text_def signed_text_def term_wf_def is_whitespace_def digits.simps digit_chars digit_chars(2) [simplified] wrap
        expr_value_def term_sign_def term_size_def)
qed

section \<open>The regions of flash\<close>

lemmas evaluate_expr = parse_add_sub_expr_def flush_def trim_def is_whitespace_def parse_size_literal_def
  strip_suffix_def parse_number_def strip_prefix_def from_str_radix_def to_digit_def checked_mul_def
  checked_add_def i128_checked_add_def i128_saturating_mul_def Let_def

lemma memory_x_values:
  "parse_add_sub_expr ''0x10000100'' = Some 0x10000100"
  "parse_add_sub_expr ''2048K - 0x100 - 128K'' = Some 0x1DFF00"
  "parse_add_sub_expr ''0x10000000 + 2048K - 128K'' = Some 0x101E0000"
  "parse_add_sub_expr ''128K'' = Some 0x20000"
  by (simp_all add: evaluate_expr)

lemma region_bounds_memory_x:
  "region_bounds ''FLASH'' = Some (0x10000100, 0x101E0000)"
  "region_bounds ''CV_FLASH'' = Some (0x101E0000, 0x10200000)"
  by (simp_all add: region_bounds_def memory_x_def memory_x_values)

text \<open>The constants that the program is compiled with.\<close>

lemma flash_consts_text:
  assumes "captures mem = map_of memory_x ''CV_FLASH''"
  shows "extract_flash_info captures mem =
    Ok (''pub const CV_FLASH_ORIGIN: usize = 270401536;'' @ [CHR 0x0A]
      @ ''pub const CV_FLASH_SIZE: usize = 131072;'' @ [CHR 0x0A])"
  by (simp add: extract_flash_info_def assms memory_x_def memory_x_values digits.simps digit_chars digit_chars(2) [simplified])

lemma unwrap_eq_Ok: "unwrap m = Ok x \<longleftrightarrow> m = Ok x"
  by (cases m) simp_all

text \<open>C39: the sector of the configuration store. With the regions of \<^verbatim>\<open>memory.x\<close>, the flash mapped at
  \<^verbatim>\<open>0x10000000\<close> and erased in sectors of 4096 bytes, the sector that the store opened by \<^verbatim>\<open>main\<close>
  erases and writes is aligned, begins exactly where the region of the program ends, and stays
  within the region set aside for it, which ends with the flash. The program is never erased.\<close>

theorem cv_sector_clear_of_program:
  assumes "\<forall>a f d. fl_read fo dev a CV_SIZE = (f, Some d) \<longrightarrow> length d = CV_SIZE"
    and "region_bounds ''CV_FLASH'' = Some (cf, ct)"
    and "boot_cv_store p 4096 fo dev cf 0x10000000 = Ok s"
  shows "\<exists>pf. region_bounds ''FLASH'' = Some (pf, cf) \<and> ct = 0x10000000 + FLASH_SIZE
    \<and> 0x10000000 + unat (cv_data_start s) = cf \<and> cv_data_start s < cv_data_end s
    \<and> 0x10000000 + unat (cv_data_end s) \<le> ct
    \<and> 4096 dvd unat (cv_data_start s) \<and> 4096 dvd unat (cv_data_end s)"
proof -
  have c: "cf = 0x101E0000" "ct = 0x10200000" using assms(2) by (simp_all add: region_bounds_memory_x)
  obtain d f where "fl_read fo dev 0x1E0000 1024 = (f, Some d)" "flash_new p 4096 fo dev 0x1E0000 = Ok s"
    using assms(3) by (cases "fl_read fo dev 0x1E0000 1024"; cases "snd (fl_read fo dev 0x1E0000 1024)")
      (auto simp: c boot_cv_store_def word_sub_def flash_new_def read_cv_array_def read_cv_array_aligned_def
        CV_SIZE_def unwrap_eq_Ok)
  moreover from this(1) have "length d = 1024" using assms(1) by (simp add: CV_SIZE_def)
  ultimately have "cv_data_start s = 0x1E0000" "cv_data_end s = 0x1E1000"
    by (auto simp: flash_new_def read_cv_array_def read_cv_array_aligned_def CV_SIZE_def word_add_def)
  then show ?thesis by (simp add: c region_bounds_memory_x FLASH_SIZE_def)
qed

lemma cv_sector_clear_of_program_witness:
  "\<exists>s. boot_cv_store Dev 4096 (mem_flash True) (replicate 4096 0) 0x101E0000 0x10000000 = Ok s
     \<and> 0x10000000 + unat (cv_data_end s) \<le> 0x10200000"
proof -
  have r: "\<forall>a f d. fl_read (mem_flash True) (replicate 4096 0) a CV_SIZE = (f, Some d) \<longrightarrow> length d = CV_SIZE"
    by (simp add: mem_flash_def CV_SIZE_def)
  obtain s where s: "boot_cv_store Dev 4096 (mem_flash True) (replicate 4096 0) 0x101E0000 0x10000000 = Ok s"
    by (simp add: boot_cv_store_def word_sub_def flash_new_def read_cv_array_def read_cv_array_aligned_def
        mem_flash_def CV_SIZE_def word_add_def)
  then show ?thesis using cv_sector_clear_of_program [OF r region_bounds_memory_x(2) s] by auto
qed

end
