(* ===== verification/Testing.thy ===== *)
theory Testing
  imports Handler Codec
begin

text \<open>
  The test support of the crate (\<^verbatim>\<open>dcc/src/testing.rs\<close>): a store kept in an array, a timer whose
  elapsed time is set by hand, and packets from bytes. Both are instances of the dictionaries that the
  handler is generic in, so that the repository's tests can be run on the model. The theorems say how
  far the mock store can stand for a real one: it agrees on single CVs and on addresses, but its
  multi-byte writes are shifted by one against its reads.
\<close>

section \<open>The store\<close>

record mock_store =
  mock_cvs :: "u8 list"

definition mock_store_new :: mock_store where
  "mock_store_new = \<lparr>mock_cvs = replicate CV_SIZE 0\<rparr>"

definition with_cv :: "u16 \<Rightarrow> u8 \<Rightarrow> mock_store \<Rightarrow> mock_store" where
  "with_cv cv_id v s =
     (if unat cv_id < CV_SIZE then s\<lparr>mock_cvs := (mock_cvs s)[unat cv_id := v]\<rparr> else s)"

definition with_extended_address :: "u16 \<Rightarrow> mock_store \<Rightarrow> mock_store" where
  "with_extended_address address s =
     (let cv29 = mock_cvs s ! 29 OR 0b00100000;
          s = s\<lparr>mock_cvs := (mock_cvs s)[29 := cv29]\<rparr>;
          s = s\<lparr>mock_cvs := (mock_cvs s)[17 := ucast (drop_bit 8 address AND 0x3F) OR 0xC0]\<rparr>
      in s\<lparr>mock_cvs := (mock_cvs s)[18 := ucast (address AND 0xFF)]\<rparr>)"

definition mock_read_byte :: "mock_store \<Rightarrow> usize \<Rightarrow> (store_error, u8) res" where
  "mock_read_byte s cv_id = (if cv_id < CV_SIZE then Ok (mock_cvs s ! cv_id) else Ok 0)"

definition mock_read_bytes :: "mock_store \<Rightarrow> usize \<Rightarrow> usize \<Rightarrow> (store_error, u8 list) res" where
  "mock_read_bytes s start len =
     (if start < CV_SIZE \<and> start + len \<le> CV_SIZE then Ok (take len (drop start (mock_cvs s))) else Ok [])"

definition mock_write_byte :: "mock_store \<Rightarrow> usize \<Rightarrow> u8 \<Rightarrow> mock_store \<times> (store_error, unit) res" where
  "mock_write_byte s cv_id v =
     (if cv_id < CV_SIZE then (s\<lparr>mock_cvs := (mock_cvs s)[cv_id := v]\<rparr>, Ok ()) else (s, Err Io))"

text \<open>Tests are built with overflow checks, so that \<^verbatim>\<open>start - 1\<close> panics for 0.\<close>

definition mock_write_bytes ::
  "mock_store \<Rightarrow> usize \<Rightarrow> u8 list \<Rightarrow> bool \<Rightarrow> mock_store \<times> (store_error, unit) res" where
  "mock_write_bytes s start v force =
     st_bind (s, usize_sub Dev start 1) (\<lambda>s start_idx.
       if start_idx < CV_SIZE \<and> start_idx + length v \<le> CV_SIZE then
         (s\<lparr>mock_cvs := take start_idx (mock_cvs s) @ v @ drop (start_idx + length v) (mock_cvs s)\<rparr>, Ok ())
       else (s, Err Io))"

definition mock_store_ops :: "mock_store store_ops" where
  "mock_store_ops =
     \<lparr>op_read_byte = mock_read_byte, op_read_bytes = mock_read_bytes, op_write_byte = mock_write_byte,
      op_write_bytes = mock_write_bytes\<rparr>"

section \<open>The timer\<close>

record mock_timer =
  mt_running :: bool
  mt_elapsed :: "usize option"

definition mock_timer_new :: mock_timer where
  "mock_timer_new = \<lparr>mt_running = False, mt_elapsed = None\<rparr>"

definition mock_set_elapsed :: "usize \<Rightarrow> mock_timer \<Rightarrow> mock_timer" where
  "mock_set_elapsed e t = t\<lparr>mt_elapsed := Some e\<rparr>"

definition mock_timer_stop :: "mock_timer \<Rightarrow> mock_timer" where
  "mock_timer_stop t = t\<lparr>mt_running := False, mt_elapsed := None\<rparr>"

definition mock_timer_start :: "instant \<Rightarrow> mock_timer \<Rightarrow> mock_timer" where
  "mock_timer_start now t = t\<lparr>mt_running := True\<rparr>"

definition mock_timer_elapsed_ms :: "instant \<Rightarrow> mock_timer \<Rightarrow> usize option" where
  "mock_timer_elapsed_ms now t = (if mt_running t then mt_elapsed t else None)"

definition mock_timer_ops :: "mock_timer timer_ops" where
  "mock_timer_ops =
     \<lparr>tm_stop = mock_timer_stop, tm_start = mock_timer_start, tm_elapsed_ms = mock_timer_elapsed_ms\<rparr>"

section \<open>Packets\<close>

definition pkt :: "u8 list \<Rightarrow> (unit, packet) res" where
  "pkt bytes = res_bind (unwrap (vec_from_slice 6 bytes)) (\<lambda>d. Ok \<lparr>pkt_data = d\<rparr>)"

section \<open>The store against the contract\<close>

lemma mock_store_reset:
  assumes "length (mock_cvs s) = CV_SIZE"
  shows "store_reset mock_store_ops s = (s\<lparr>mock_cvs := DEFAULT_VALUES\<rparr>, Ok ())"
  using assms by (simp add: store_reset_def mock_store_ops_def mock_write_bytes_def CV_SIZE_def)

text \<open>The arms of \<^verbatim>\<open>write_byte\<close> by CV number.\<close>

lemma write_byte_by_number:
  "write_byte so p h =
     st_bind (of_packet h (cv_address p)) (\<lambda>h a.
       if a = 31 \<or> a = 32 then (h, Ok None)
       else if unat a = 1 then write_primary_address so p h
       else if unat a = 8 then write_manufacturer_id so p h
       else if unat a = 7 then write_version_number so p h
       else if unat a = 17 then write_extended_msb so p h
       else if unat a = 18 then write_extended_lsb so p h
       else st_bind (of_packet h (cv_data p)) (\<lambda>h v.
              st_bind (in_store h (\<lambda>s. op_write_byte so s (unat a) v)) (\<lambda>h _. (h, Ok (Some AcknowledgeCv)))))"
proof -
  have "cv_try_from a \<notin> {Some PrimaryAddress, Some ManufacturerId, Some ManufacturerVersionNumber,
      Some ExtendedAddressMsb, Some ExtendedAddressLsb}" if "unat a \<notin> {1, 7, 8, 17, 18}" for a
    using that by (auto simp: cv_try_from_iff)
  then show ?thesis
    unfolding write_byte_def
    by (intro arg_cong [where f = "st_bind _"] ext) (auto simp: cv_try_from_numbers split: option.split cv.split)
qed

text \<open>A packet that asks for a factory reset, as an address-only or a paged command.\<close>

definition factory_reset :: "packet \<Rightarrow> bool" where
  "factory_reset p \<longleftrightarrow> pkt_data p = [0b01111111, 0b00001000] \<or> cv_address p = Ok 8 \<and> cv_data p = Ok 8"

section \<open>Two stores that agree\<close>

text \<open>Two stores are in simulation when related states give the same single bytes and the same address,
  and stay related over single-byte writes, for every CV in a given range. A handler over one then
  answers every packet within that range like a handler over the other.\<close>

locale store_simulation =
  fixes so1 :: "'s store_ops" and so2 :: "'m store_ops" and R :: "'s \<Rightarrow> 'm \<Rightarrow> bool" and lim :: usize
  assumes sim_lim: "175 \<le> lim"
    and sim_read: "R s m \<Longrightarrow> 1 \<le> a \<Longrightarrow> a \<le> lim \<Longrightarrow> op_read_byte so1 s a = op_read_byte so2 m a"
    and sim_addr: "R s m \<Longrightarrow> store_addr so1 s = store_addr so2 m"
    and sim_write: "R s m \<Longrightarrow> 1 \<le> a \<Longrightarrow> a \<le> lim \<Longrightarrow>
      R (fst (op_write_byte so1 s a v)) (fst (op_write_byte so2 m a v))
      \<and> snd (op_write_byte so1 s a v) = snd (op_write_byte so2 m a v)"
begin

definition handlers :: "('t, 's) handler \<Rightarrow> ('t, 'm) handler \<Rightarrow> bool" where
  "handlers h k \<longleftrightarrow> hd_timer h = hd_timer k \<and> hd_pending h = hd_pending k \<and> R (hd_store h) (hd_store k)"

definition alike :: "('t, 's) handler \<times> ('e, 'a) res \<Rightarrow> ('t, 'm) handler \<times> ('e, 'a) res \<Rightarrow> bool" where
  "alike x y \<longleftrightarrow> handlers (fst x) (fst y) \<and> snd x = snd y"

lemma alike_pair [simp]: "alike (h, r) (k, q) \<longleftrightarrow> handlers h k \<and> r = q"
  by (simp add: alike_def)

lemma alike_bind:
  assumes "alike x y" "\<And>h k v. snd x = Ok v \<Longrightarrow> handlers h k \<Longrightarrow> alike (f h v) (g k v)"
  shows "alike (st_bind x f) (st_bind y g)"
  using assms by (cases x; cases y; cases "snd x") (auto simp: alike_def)

lemma alike_of_packet: "handlers h k \<Longrightarrow> alike (of_packet h r) (of_packet k r)"
  by (simp add: of_packet_def)

lemma alike_read:
  "handlers h k \<Longrightarrow> 1 \<le> a \<Longrightarrow> a \<le> lim \<Longrightarrow>
   alike (of_store h (\<lambda>s. op_read_byte so1 s a)) (of_store k (\<lambda>s. op_read_byte so2 s a))"
  using sim_read by (auto simp: of_store_def handlers_def)

lemma alike_write:
  "handlers h k \<Longrightarrow> 1 \<le> a \<Longrightarrow> a \<le> lim \<Longrightarrow>
   alike (in_store h (\<lambda>s. op_write_byte so1 s a v)) (in_store k (\<lambda>s. op_write_byte so2 s a v))"
  using sim_write [of "hd_store h" "hd_store k" a v]
  by (auto simp: in_store_def handlers_def alike_def Let_def split: prod.split)

lemma alike_if:
  "(c \<Longrightarrow> alike x y) \<Longrightarrow> (\<not> c \<Longrightarrow> alike x' y') \<Longrightarrow> alike (if c then x else x') (if c then y else y')"
  by simp

lemmas alike_intros = alike_if alike_bind alike_of_packet

lemma snd_of_packet [simp]: "snd (of_packet h r) = Ok v \<longleftrightarrow> r = Ok v"
  by (simp add: of_packet_def)

lemma in_range: "cv_address p = Ok a \<Longrightarrow> cv_address p \<noteq> Ok 0 \<Longrightarrow> 1 \<le> unat a"
  using cv_address_ge by simp

definition reachable_cv :: "packet \<Rightarrow> bool" where
  "reachable_cv p \<longleftrightarrow> (\<forall>a. cv_address p = Ok a \<longrightarrow> unat a \<le> lim)"

lemma addressed: "reachable_cv p \<Longrightarrow> snd (of_packet h (cv_address p)) = Ok a \<Longrightarrow> 1 \<le> unat a \<and> unat a \<le> lim"
  using cv_address_ge by (simp add: reachable_cv_def)

lemma alike_read_addressed:
  "handlers h k \<Longrightarrow> reachable_cv p \<Longrightarrow> snd (of_packet g (cv_address p)) = Ok a \<Longrightarrow>
   alike (of_store h (\<lambda>s. op_read_byte so1 s (unat a))) (of_store k (\<lambda>s. op_read_byte so2 s (unat a)))"
  using addressed by (blast intro: alike_read)

lemma alike_write_addressed:
  "handlers h k \<Longrightarrow> reachable_cv p \<Longrightarrow> snd (of_packet g (cv_address p)) = Ok a \<Longrightarrow>
   alike (in_store h (\<lambda>s. op_write_byte so1 s (unat a) v)) (in_store k (\<lambda>s. op_write_byte so2 s (unat a) v))"
  using addressed by (blast intro: alike_write)

lemma alike_read_cv:
  "handlers h k \<Longrightarrow> alike (of_store h (\<lambda>s. op_read_byte so1 s (cv_num c))) (of_store k (\<lambda>s. op_read_byte so2 s (cv_num c)))"
  if "cv_num c \<le> 175"
  using that sim_lim by (intro alike_read) simp_all

lemma alike_write_cv:
  "handlers h k \<Longrightarrow> alike (in_store h (\<lambda>s. op_write_byte so1 s (cv_num c) v)) (in_store k (\<lambda>s. op_write_byte so2 s (cv_num c) v))"
  if "cv_num c \<le> 175"
  using that sim_lim by (intro alike_write) simp_all

lemma alike_verify_byte:
  "handlers h k \<Longrightarrow> reachable_cv p \<Longrightarrow> alike (verify_byte so1 p h) (verify_byte so2 p k)"
  unfolding verify_byte_def
  by (rule alike_intros alike_read_addressed | assumption | simp)+

lemma alike_manipulate_bit:
  "handlers h k \<Longrightarrow> reachable_cv p \<Longrightarrow> alike (manipulate_bit so1 p h) (manipulate_bit so2 p k)"
  unfolding manipulate_bit_def Let_def
  by (rule alike_intros alike_read_addressed alike_write_addressed | assumption | simp)+

lemma alike_write_primary_address:
  "handlers h k \<Longrightarrow> alike (write_primary_address so1 p h) (write_primary_address so2 p k)"
  unfolding write_primary_address_def
  by (rule alike_intros alike_read_cv alike_write_cv | assumption | simp)+

lemma alike_write_version_number:
  "handlers h k \<Longrightarrow> alike (write_version_number so1 p h) (write_version_number so2 p k)"
  unfolding write_version_number_def emf_adc_offset_clear_def
  by (rule alike_intros alike_read_cv alike_write_cv | assumption | simp)+

lemma alike_write_extended_msb:
  "handlers h k \<Longrightarrow> alike (write_extended_msb so1 p h) (write_extended_msb so2 p k)"
  unfolding write_extended_msb_def
  by (rule alike_intros alike_read_cv alike_write_cv | assumption | simp)+

lemma alike_write_extended_lsb:
  "handlers h k \<Longrightarrow> alike (write_extended_lsb so1 p h) (write_extended_lsb so2 p k)"
  unfolding write_extended_lsb_def
  by (rule alike_intros alike_read_cv alike_write_cv | assumption | simp)+

lemma alike_write_manufacturer_id:
  "handlers h k \<Longrightarrow> cv_data p \<noteq> Ok 8 \<Longrightarrow> alike (write_manufacturer_id so1 p h) (write_manufacturer_id so2 p k)"
  unfolding write_manufacturer_id_def
  by (rule alike_bind, rule alike_of_packet) auto

lemma alike_write_byte:
  assumes "handlers h k" "reachable_cv p" "\<not> factory_reset p"
  shows "alike (write_byte so1 p h) (write_byte so2 p k)"
proof -
  have m: "cv_data p \<noteq> Ok 8" if "snd (of_packet h (cv_address p)) = Ok a" "unat a = 8" for a
  proof -
    from that(2) have "a = 8" by (simp add: word_unat_eq_iff)
    then show ?thesis using assms(3) that(1) by (simp add: factory_reset_def)
  qed
  show ?thesis
    unfolding write_byte_by_number
    by (rule alike_intros assms(1,2) alike_write_addressed alike_write_primary_address alike_write_manufacturer_id
        alike_write_version_number alike_write_extended_msb alike_write_extended_lsb m | assumption | simp)+
qed

lemma alike_service_mode:
  fixes h :: "('t, 's) handler" and k :: "('t, 'm) handler"
  assumes "handlers h k" "reachable_cv p" "\<not> factory_reset p"
  shows "alike (handle_service_mode so1 p h) (handle_service_mode so2 p k)"
proof -
  have k: "hd_pending k = hd_pending h" using assms(1) by (simp add: handlers_def)
  have n: "handlers (h\<lparr>hd_pending := q\<rparr>) (k\<lparr>hd_pending := q\<rparr>)" for q using assms(1) by (simp add: handlers_def)
  have f: "\<not> (length (pkt_data p) = 2 \<and> take 2 (pkt_data p) = [0b01111111, 0b00001000])"
    using assms(3) by (auto simp: factory_reset_def)
  show ?thesis
    unfolding handle_service_mode_def Let_def k if_not_P [OF f]
  proof (intro alike_if alike_bind alike_of_packet n)
    fix h :: "('t, 's) handler" and k :: "('t, 'm) handler" and t
    assume "handlers h k"
    then show "alike (case t of ManipulateBit \<Rightarrow> manipulate_bit so1 p h | VerifyByte \<Rightarrow> verify_byte so1 p h
        | WriteByte \<Rightarrow> write_byte so1 p h)
      (case t of ManipulateBit \<Rightarrow> manipulate_bit so2 p k | VerifyByte \<Rightarrow> verify_byte so2 p k
        | WriteByte \<Rightarrow> write_byte so2 p k)"
      using assms(2,3) by (cases t) (simp_all add: alike_manipulate_bit alike_verify_byte alike_write_byte)
  qed (simp add: n)
qed

lemma alike_handle_command: "handlers h k \<Longrightarrow> alike (handle_command p h) (handle_command p k)"
  unfolding handle_command_def
  by (rule alike_bind, rule alike_of_packet)
    (auto split: operation_mode_instruction.split advanced_operations_instruction.split)

theorem alike_handle:
  fixes tops :: "'t timer_ops" and h :: "('t, 's) handler" and k :: "('t, 'm) handler"
  assumes "handlers h k" "reachable_cv p" "\<not> factory_reset p"
  shows "alike (handle tops so1 now now' p h) (handle tops so2 now now' p k)"
proof -
  have t: "hd_timer k = hd_timer h" using assms(1) by (simp add: handlers_def)
  have u: "handlers (h\<lparr>hd_timer := x\<rparr>) (k\<lparr>hd_timer := x\<rparr>)" if "handlers h k"
    for h :: "('t, 's) handler" and k :: "('t, 'm) handler" and x
    using that by (simp add: handlers_def)
  have r: "is_recipient p so1 (hd_store h) = is_recipient p so2 (hd_store k)" if "handlers h k"
    for h :: "('t, 's) handler" and k :: "('t, 'm) handler"
  proof -
    have "store_addr so1 (hd_store h) = store_addr so2 (hd_store k)"
      using that unfolding handlers_def by (blast intro: sim_addr)
    then show ?thesis by (simp add: is_recipient_def)
  qed
  have v: "hd_timer k = hd_timer h" if "handlers h k"
    for h :: "('t, 's) handler" and k :: "('t, 'm) handler" using that by (simp add: handlers_def)
  show ?thesis
    unfolding handle_def handle_reset_def t
  proof (intro alike_if alike_bind)
    fix h :: "('t, 's) handler" and k :: "('t, 'm) handler"
    assume hk: "handlers h k"
    show "alike (handle_service_mode so1 p (h\<lparr>hd_timer := tm_start tops now' (hd_timer h)\<rparr>))
        (handle_service_mode so2 p (k\<lparr>hd_timer := tm_start tops now' (hd_timer k)\<rparr>))"
      unfolding v [OF hk] by (rule alike_service_mode [OF u [OF hk] assms(2,3)])
    show "alike (h, is_recipient p so1 (hd_store h)) (k, is_recipient p so2 (hd_store k))"
      using hk r by simp
    show "alike (handle_command p (h\<lparr>hd_timer := tm_stop tops (hd_timer h)\<rparr>))
        (handle_command p (k\<lparr>hd_timer := tm_stop tops (hd_timer k)\<rparr>))"
      unfolding v [OF hk] by (rule alike_handle_command [OF u [OF hk]])
  qed (use assms(1) u alike_handle_command in simp_all)
qed

end

section \<open>The mock store mirrors a flash\<close>

text \<open>Handling a sequence of packets keeps the simulation.\<close>

context store_simulation
begin

lemma alike_handle_all:
  fixes tops :: "'t timer_ops" and h :: "('t, 's) handler" and k :: "('t, 'm) handler"
  assumes "handlers h k" "\<forall>(t, p) \<in> set ps. reachable_cv p \<and> \<not> factory_reset p"
  shows "handlers (fst (handle_all tops so1 ps h)) (fst (handle_all tops so2 ps k))
    \<and> snd (handle_all tops so1 ps h) = snd (handle_all tops so2 ps k)"
  using assms
proof (induction ps arbitrary: h k)
  case (Cons tp ps)
  obtain t p where tp: "tp = (t, p)" by fastforce
  have "alike (handle tops so1 t t p h) (handle tops so2 t t p k)"
    using Cons.prems tp by (intro alike_handle) auto
  then obtain h' k' r where "handle tops so1 t t p h = (h', r)" "handle tops so2 t t p k = (k', r)" "handlers h' k'"
    by (cases "handle tops so1 t t p h"; cases "handle tops so2 t t p k") simp
  then show ?case using Cons.IH [of h' k'] Cons.prems(2) tp by (auto simp: Let_def split: prod.split)
qed simp

end

definition mirrors :: "'f rp_flash \<Rightarrow> 'f flash \<Rightarrow> mock_store \<Rightarrow> bool" where
  "mirrors fo s m \<longleftrightarrow> flash_works fo \<and> flash_wf s \<and> length (mock_cvs m) = CV_SIZE
     \<and> (\<forall>a. 1 \<le> a \<and> a \<le> 1023 \<longrightarrow> flash_cvs s a = mock_cvs m ! a)"

lemma mock_store_addr:
  assumes "length (mock_cvs m) = CV_SIZE"
  shows "store_addr mock_store_ops m = Ok (addr_of_cvs (\<lambda>a. mock_cvs m ! a))"
proof -
  have "take 2 (drop 17 (mock_cvs m)) = [mock_cvs m ! 17, mock_cvs m ! 18]"
    using assms by (intro nth_equalityI) (auto simp: CV_SIZE_def less_Suc_eq numeral_2_eq_2)
  then show ?thesis
    using assms by (simp add: store_addr_def mock_store_ops_def mock_read_byte_def mock_read_bytes_def
        read_extended_address_def index_def CV_SIZE_def addr_of_cvs_def and.commute)
qed

interpretation mock: store_simulation "flash_store p fo" mock_store_ops "mirrors fo" 1023
  for p :: profile and fo :: "'f rp_flash"
proof
  show "175 \<le> (1023 :: usize)" by simp
next
  fix s :: "'f flash" and m a assume "mirrors fo s m" "1 \<le> a" "a \<le> (1023 :: usize)"
  then show "op_read_byte (flash_store p fo) s a = op_read_byte mock_store_ops m a"
    using fls.read_byte [of s a p fo] by (simp add: mirrors_def mock_store_ops_def mock_read_byte_def CV_SIZE_def)
next
  fix s :: "'f flash" and m assume m: "mirrors fo s m"
  then have e: "flash_cvs s a = mock_cvs m ! a" if "a \<in> {1, 17, 18, 29}" for a
    using that by (auto simp: mirrors_def)
  have "addr_of_cvs (flash_cvs s) = addr_of_cvs (\<lambda>a. mock_cvs m ! a)"
    using e [of 1] e [of 17] e [of 18] e [of 29] by (simp add: addr_of_cvs_def)
  then show "store_addr (flash_store p fo) s = store_addr mock_store_ops m"
    using m fls.addr [of s p fo] by (simp add: mirrors_def mock_store_addr)
next
  fix s :: "'f flash" and m a v assume m: "mirrors fo s m" and a: "1 \<le> a" "a \<le> (1023 :: usize)"
  obtain s' r where w: "op_write_byte (flash_store p fo) s a v = (s', r)" by fastforce
  have "accepts (flash_store p fo) flash_wf" "flash_wf s" using m by (simp_all add: mirrors_def flash_accepts)
  then have "snd (op_write_byte (flash_store p fo) s a v) = Ok ()" using a unfolding accepts_def by simp
  then have r: "r = Ok ()" by (simp add: w)
  have "flash_wf s'" "flash_cvs s' = (flash_cvs s)(a := v)"
    using fls.write_byte [OF _ a(1) _ w] a m by (simp_all add: mirrors_def r write_outcome_def)
  then show "mirrors fo (fst (op_write_byte (flash_store p fo) s a v)) (fst (op_write_byte mock_store_ops m a v))
      \<and> snd (op_write_byte (flash_store p fo) s a v) = snd (op_write_byte mock_store_ops m a v)"
    using m a by (simp add: mirrors_def w r mock_store_ops_def mock_write_byte_def CV_SIZE_def nth_list_update)
qed

text \<open>The mock store does not keep the contract of a store: reading all CVs gives none.\<close>

lemma mock_not_cv_store:
  assumes "ok s"
  shows "\<not> cv_store mock_store_ops cvs ok"
proof
  assume "cv_store mock_store_ops cvs ok"
  then have "op_read_bytes mock_store_ops s 1 1024 = Ok (map (cvs s) [1..<1025])"
    using cv_store.read_bytes [of mock_store_ops cvs ok s 1 1024] assms by simp
  then have "map (cvs s) [1..<1025] = []" by (simp add: mock_store_ops_def mock_read_bytes_def CV_SIZE_def)
  then show False by (simp only: map_is_Nil_conv upt_eq_Nil_conv) simp
qed

section \<open>Properties\<close>

text \<open>C37: what passes on the mock store holds on the flash. Start a handler over a flash that works and
  one over a mock store with the same CVs 1 to 1023, and send both the same packets, at the same times
  and over any timer: as long as none is a factory reset or names CV 1024, every answer is the same, and
  the two stores still agree.\<close>

theorem mock_store_mirrors_flash:
  assumes "mirrors fo (hd_store h) (hd_store k)" "hd_timer k = hd_timer h" "hd_pending k = hd_pending h"
    and "\<forall>(t, q) \<in> set ps. \<not> factory_reset q \<and> cv_address q \<noteq> Ok 1024"
  shows "\<exists>h' k' rs. handle_all tops (flash_store p fo) ps h = (h', rs) \<and> handle_all tops mock_store_ops ps k = (k', rs)
    \<and> mirrors fo (hd_store h') (hd_store k')"
proof -
  have r: "mock.reachable_cv q" if "cv_address q \<noteq> Ok 1024" for q
  proof -
    have "unat a \<noteq> 1024" if "cv_address q = Ok a" for a
      using that \<open>cv_address q \<noteq> Ok 1024\<close> by (auto simp: word_unat_eq_iff)
    then show ?thesis unfolding mock.reachable_cv_def using cv_address_le [of q] by fastforce
  qed
  have "mock.handlers fo h k" using assms(1-3) by (simp add: mock.handlers_def)
  from mock.alike_handle_all [OF this, of ps tops p] show ?thesis
    using assms(4) r by (cases "handle_all tops (flash_store p fo) ps h"; cases "handle_all tops mock_store_ops ps k")
      (fastforce simp: mock.handlers_def)
qed

lemma mock_store_mirrors_flash_witness:
  "\<exists>h' k' rs. handle_all instant_timer_ops (flash_store Dev (mem_flash True))
       [(0, \<lparr>pkt_data = [0, 0]\<rparr>), (5, service_write_packet 20 7)] (handler_new instant_timer_new blank_flash) = (h', rs)
     \<and> handle_all instant_timer_ops mock_store_ops
       [(0, \<lparr>pkt_data = [0, 0]\<rparr>), (5, service_write_packet 20 7)] (handler_new instant_timer_new mock_store_new) = (k', rs)
     \<and> mirrors (mem_flash True) (hd_store h') (hd_store k')"
proof -
  have "mirrors (mem_flash True) blank_flash mock_store_new"
    by (simp add: mirrors_def mem_flash_works mock_store_new_def CV_SIZE_def)
  then show ?thesis
    by (intro mock_store_mirrors_flash)
      (simp_all add: handler_new_def factory_reset_def service_write_packet_def service_packet_def
        cv_address_def cv_data_def index_def)
qed

text \<open>A factory reset of the mock store is off by one. Its multi-byte write starts one place lower
  than its reads, so after a reset that reports success every CV reads as the default of the next CV,
  and the address as 8 instead of the default 3.\<close>

theorem mock_reset_shifted:
  assumes "length (mock_cvs s) = CV_SIZE" "1 \<le> a" "a < CV_SIZE"
  shows "\<exists>s'. store_reset mock_store_ops s = (s', Ok ()) \<and> op_read_byte mock_store_ops s' a = Ok (default_cvs (a + 1))
    \<and> store_addr mock_store_ops s' = Ok 8"
proof -
  let ?s = "s\<lparr>mock_cvs := DEFAULT_VALUES\<rparr>"
  have "DEFAULT_VALUES ! 29 = 0" "DEFAULT_VALUES ! 1 = 8"
    by (simp_all add: default_1_111 DEFAULT_CV_1_111_def)
  then have "store_addr mock_store_ops ?s = Ok 8" by (simp add: mock_store_addr addr_of_cvs_def)
  moreover have "op_read_byte mock_store_ops ?s a = Ok (default_cvs (a + 1))"
    using assms(3) by (simp add: mock_store_ops_def mock_read_byte_def default_cvs_def)
  ultimately show ?thesis using mock_store_reset [OF assms(1)] by simp
qed

lemma mock_reset_shifted_witness:
  "\<exists>s'. store_reset mock_store_ops mock_store_new = (s', Ok ())
     \<and> op_read_byte mock_store_ops s' 17 = Ok (default_cvs 18) \<and> store_addr mock_store_ops s' = Ok 8"
  using mock_reset_shifted [of mock_store_new 17] by (simp add: mock_store_new_def CV_SIZE_def)

end
