(* ===== verification/Handler_Tests.thy ===== *)
theory Handler_Tests
  imports Testing
begin

text \<open>
  The unit tests of the packet handler (\<^verbatim>\<open>dcc/src/handler.rs\<close>, module \<^verbatim>\<open>tests\<close>) as
  computations over the model of the handler, the mock store and the mock timer. That each of them
  passes confirms that the model behaves like the code on every case its authors wrote down.
\<close>

section \<open>The harness\<close>

type_synonym harness = "(mock_timer, mock_store) handler"

definition reset_packet :: packet where
  "reset_packet = \<lparr>pkt_data = [0x00, 0x00, 0x00]\<rparr>"

definition advanced_speed_step_packet :: "u16 \<Rightarrow> speed_step \<Rightarrow> packet" where
  "advanced_speed_step_packet addr s =
     (let instruction = (case s of Stop \<Rightarrow> 0b00000000 | EmergencyStop \<Rightarrow> 0b00000001 | Num n \<Rightarrow> n + 1)
      in operation_packet addr [0b00111111, instruction])"

definition harness_with_store :: "mock_store \<Rightarrow> harness" where
  "harness_with_store store = handler_new mock_timer_new store"

definition harness_new :: harness where
  "harness_new = handler_new mock_timer_new mock_store_new"

definition harness_with_address :: "u8 \<Rightarrow> harness" where
  "harness_with_address addr =
     handler_new mock_timer_new (with_cv (of_nat (cv_num PrimaryAddress)) addr mock_store_new)"

definition harness_with_extended_address :: "u16 \<Rightarrow> harness" where
  "harness_with_extended_address addr =
     (let cv_base = of_nat (cv_num ExtendedAddressMsb) in
      handler_new mock_timer_new
        (with_cv (of_nat (cv_num DecoderConfiguration)) 0b00100000
          (with_cv (cv_base + 1) (ucast addr) (with_cv cv_base (ucast (drop_bit 8 addr)) mock_store_new))))"

definition harness_handle :: "packet \<Rightarrow> harness \<Rightarrow> harness \<times> (handler_error, dcc_op option) res" where
  "harness_handle p h = handle mock_timer_ops mock_store_ops 0 0 p h"

definition set_timer_elapsed :: "usize \<Rightarrow> harness \<Rightarrow> harness" where
  "set_timer_elapsed e h = h\<lparr>hd_timer := mock_set_elapsed e (hd_timer h)\<rparr>"

definition start_timer :: "harness \<Rightarrow> harness" where
  "start_timer h = h\<lparr>hd_timer := mock_timer_start 0 (hd_timer h)\<rparr>"

definition enter_service_mode :: "harness \<Rightarrow> harness" where
  "enter_service_mode h = set_timer_elapsed 10 (start_timer h)"

definition harness_read_cv :: "usize \<Rightarrow> harness \<Rightarrow> (unit, u8) res" where
  "harness_read_cv a h = unwrap (mock_read_byte (hd_store h) a)"

definition send_two_packets :: "packet \<Rightarrow> harness \<Rightarrow> harness \<times> (handler_error, dcc_op option) res" where
  "send_two_packets p h =
     (let (h, r) = harness_handle p h in if r = Ok None then harness_handle p h else (h, Panic))"

section \<open>The tests\<close>

definition test_reset_packet_starts_timer :: "(unit, unit) res" where
  "test_reset_packet_starts_timer =
     (let (h, result) = harness_handle reset_packet harness_new
      in assert (result = Ok (Some ResetOp) \<and> mt_running (hd_timer h)))"

definition test_service_verify_byte_match :: "(unit, unit) res" where
  "test_service_verify_byte_match =
     (let h = enter_service_mode (harness_with_store (with_cv 10 0x42 mock_store_new));
          (h, result) = send_two_packets (service_verify_packet 10 0x42) h
      in assert (result = Ok (Some AcknowledgeCv)))"

definition test_service_verify_byte_mismatch :: "(unit, unit) res" where
  "test_service_verify_byte_mismatch =
     (let h = enter_service_mode (harness_with_store (with_cv 10 0x42 mock_store_new));
          (h, result) = harness_handle (service_verify_packet 10 0x99) h
      in assert (result = Ok None))"

definition test_service_write_byte :: "(unit, unit) res" where
  "test_service_write_byte =
     (let h = enter_service_mode harness_new;
          (h, result) = send_two_packets (service_write_packet 20 0xAB) h
      in assert (result = Ok (Some AcknowledgeCv) \<and> harness_read_cv 20 h = Ok 0xAB))"

definition test_service_bit_verify_match :: "(unit, unit) res" where
  "test_service_bit_verify_match =
     (let h = enter_service_mode (harness_with_store (with_cv 15 0b00001000 mock_store_new));
          (h, result) = send_two_packets (service_bit_verify_packet 15 3 1) h
      in assert (result = Ok (Some AcknowledgeCv)))"

definition test_service_bit_verify_mismatch :: "(unit, unit) res" where
  "test_service_bit_verify_mismatch =
     (let h = enter_service_mode (harness_with_store (with_cv 15 0b00001000 mock_store_new));
          (h, result) = harness_handle (service_bit_verify_packet 15 3 0) h
      in assert (result = Ok None))"

definition test_service_bit_write_set :: "(unit, unit) res" where
  "test_service_bit_write_set =
     (let h = enter_service_mode (harness_with_store (with_cv 25 0b00000000 mock_store_new));
          (h, result) = send_two_packets (service_bit_write_packet 25 5 1) h
      in assert (result = Ok (Some AcknowledgeCv) \<and> harness_read_cv 25 h = Ok 0b00100000))"

definition test_service_bit_write_clear :: "(unit, unit) res" where
  "test_service_bit_write_clear =
     (let h = enter_service_mode (harness_with_store (with_cv 25 0xFF mock_store_new));
          (h, result) = send_two_packets (service_bit_write_packet 25 2 0) h
      in assert (result = Ok (Some AcknowledgeCv) \<and> harness_read_cv 25 h = Ok 0b11111011))"

definition test_service_mode_timeout :: "(unit, unit) res" where
  "test_service_mode_timeout =
     (let h = set_timer_elapsed (SERVICE_MODE_TIMEOUT_MS + 1) (start_timer harness_new);
          (h, result) = harness_handle (service_verify_packet 10 0x42) h
      in assert (result = Ok None))"

definition test_operation_mode_basic_address :: "(unit, unit) res" where
  "test_operation_mode_basic_address =
     (let (h, result) = harness_handle (advanced_speed_step_packet 3 (Num 50)) (harness_with_address 3)
      in assert (result = Ok (Some (Velocity128 \<lparr>vs_speed_step = Num 50, vs_direction = Reverse\<rparr>))))"

definition test_operation_mode_extended_address :: "(unit, unit) res" where
  "test_operation_mode_extended_address =
     (let (h, result) = harness_handle (advanced_speed_step_packet 5000 (Num 100)) (harness_with_extended_address 5000)
      in assert (result = Ok (Some (Velocity128 \<lparr>vs_speed_step = Num 100, vs_direction = Reverse\<rparr>))))"

definition test_operation_mode_stop :: "(unit, unit) res" where
  "test_operation_mode_stop =
     (let (h, result) = harness_handle (advanced_speed_step_packet 10 Stop) (harness_with_address 10)
      in assert (result = Ok (Some (Velocity128 \<lparr>vs_speed_step = Stop, vs_direction = Reverse\<rparr>))))"

definition test_operation_mode_emergency_stop :: "(unit, unit) res" where
  "test_operation_mode_emergency_stop =
     (let (h, result) = harness_handle (advanced_speed_step_packet 10 EmergencyStop) (harness_with_address 10)
      in assert (result = Ok (Some (Velocity128 \<lparr>vs_speed_step = EmergencyStop, vs_direction = Reverse\<rparr>))))"

definition test_packet_not_for_us :: "(unit, unit) res" where
  "test_packet_not_for_us =
     (let (h, result) = harness_handle (advanced_speed_step_packet 99 (Num 50)) (harness_with_address 3)
      in assert (result = Ok None))"

definition test_service_mode_sequence :: "(unit, unit) res" where
  "test_service_mode_sequence =
     (let (h, reset) = harness_handle reset_packet (harness_with_address 3);
          h = set_timer_elapsed 5 h;
          (h, written) = send_two_packets (service_write_packet 100 0x55) h;
          cv = harness_read_cv 100 h;
          (h, verified) = send_two_packets (service_verify_packet 100 0x55) h
      in assert (reset = Ok (Some ResetOp) \<and> written = Ok (Some AcknowledgeCv) \<and> cv = Ok 0x55
           \<and> verified = Ok (Some AcknowledgeCv)))"

definition test_service_write_address_only :: "(unit, unit) res" where
  "test_service_write_address_only =
     (let store = with_cv 19 0x42 (with_cv (of_nat (cv_num DecoderConfiguration)) 0b00100000 mock_store_new);
          h = enter_service_mode (harness_with_store store);
          (h, result) = send_two_packets (service_write_packet 1 5) h
      in assert (result = Ok (Some AcknowledgeCv) \<and> harness_read_cv 1 h = Ok 5
           \<and> res_bind (harness_read_cv 29 h) (\<lambda>c. Ok (c AND 0b00100000)) = Ok 0
           \<and> harness_read_cv 19 h = Ok 0))"

definition test_service_write_address_only_invalid_range :: "(unit, unit) res" where
  "test_service_write_address_only_invalid_range =
     (let h = enter_service_mode harness_new;
          invalid_err = Err (PacketError InvalidInstruction);
          (h, a) = harness_handle (service_write_packet 1 0) h;
          (h, b) = harness_handle (service_write_packet 1 0) h;
          (h, c) = harness_handle (service_write_packet 1 128) h;
          (h, d) = harness_handle (service_write_packet 1 128) h
      in assert (a = Ok None \<and> b = invalid_err \<and> c = Ok None \<and> d = invalid_err))"

definition test_service_write_cv17_valid :: "(unit, unit) res" where
  "test_service_write_cv17_valid =
     (let h = enter_service_mode (harness_with_store (with_cv 18 0x01 mock_store_new));
          (h, result) = send_two_packets (service_write_packet 17 200) h
      in assert (result = Ok (Some AcknowledgeCv) \<and> harness_read_cv 17 h = Ok 200))"

definition test_service_write_cv17_out_of_range :: "(unit, unit) res" where
  "test_service_write_cv17_out_of_range =
     (let h = enter_service_mode harness_new;
          invalid_err = Err (PacketError InvalidInstruction);
          (h, below) = send_two_packets (service_write_packet 17 100) h;
          cv = harness_read_cv 17 h;
          (h, above) = send_two_packets (service_write_packet 17 240) h
      in assert (below = invalid_err \<and> cv = Ok 0 \<and> above = invalid_err \<and> harness_read_cv 17 h = Ok 0))"

definition test_service_write_cv17_rejects_address_zero :: "(unit, unit) res" where
  "test_service_write_cv17_rejects_address_zero =
     (let h = enter_service_mode harness_new;
          (h, result) = send_two_packets (service_write_packet 17 192) h
      in assert (result = Err (PacketError InvalidInstruction) \<and> harness_read_cv 17 h = Ok 0))"

definition test_service_write_cv18_rejects_address_zero :: "(unit, unit) res" where
  "test_service_write_cv18_rejects_address_zero =
     (let h = enter_service_mode (harness_with_store (with_cv 17 192 mock_store_new));
          (h, result) = send_two_packets (service_write_packet 18 0) h
      in assert (result = Err (PacketError InvalidInstruction) \<and> harness_read_cv 18 h = Ok 0))"

definition test_service_write_cv18_valid :: "(unit, unit) res" where
  "test_service_write_cv18_valid =
     (let h = enter_service_mode (harness_with_store (with_cv 17 200 mock_store_new));
          (h, result) = send_two_packets (service_write_packet 18 5) h
      in assert (result = Ok (Some AcknowledgeCv) \<and> harness_read_cv 18 h = Ok 5))"

definition test_service_write_cv31_cv32_ignored :: "(unit, unit) res" where
  "test_service_write_cv31_cv32_ignored =
     (let h = enter_service_mode harness_new;
          (h, a) = send_two_packets (service_write_packet 31 0xAB) h;
          cv31 = harness_read_cv 31 h;
          (h, b) = send_two_packets (service_write_packet 32 0xCD) h
      in assert (a = Ok None \<and> cv31 = Ok 0 \<and> b = Ok None \<and> harness_read_cv 32 h = Ok 0))"

definition test_service_write_latch_first_packet_returns_none :: "(unit, unit) res" where
  "test_service_write_latch_first_packet_returns_none =
     (let h = enter_service_mode harness_new;
          (h, result) = harness_handle (service_write_packet 20 0xAB) h
      in assert (result = Ok None \<and> harness_read_cv 20 h = Ok 0x00))"

definition test_service_write_latch_different_second_packet_does_not_execute :: "(unit, unit) res" where
  "test_service_write_latch_different_second_packet_does_not_execute =
     (let h = enter_service_mode harness_new;
          (h, a) = harness_handle (service_write_packet 20 0xAB) h;
          (h, b) = harness_handle (service_write_packet 20 0xFF) h
      in assert (a = Ok None \<and> b = Ok None \<and> harness_read_cv 20 h = Ok 0x00))"

definition test_service_factory_defaults :: "(unit, unit) res" where
  "test_service_factory_defaults =
     res_bind (pkt [0b01111111, 0b00001000]) (\<lambda>packet.
       let h = enter_service_mode harness_new;
           (h, result) = send_two_packets packet h
       in assert (result = Ok (Some Reboot)))"

text \<open>\<^verbatim>\<open>for bit_pos in 0..8\<close> with the assertion in the body.\<close>

primrec write_bits :: "u8 \<Rightarrow> u8 list \<Rightarrow> harness \<Rightarrow> harness \<times> (unit, unit) res" where
  "write_bits bit_val [] h = (h, Ok ())"
| "write_bits bit_val (bit_pos # ps) h =
     (let (h, result) = send_two_packets (service_bit_write_packet 50 bit_pos bit_val) h
      in st_bind (h, assert (result = Ok (Some AcknowledgeCv))) (\<lambda>h _. write_bits bit_val ps h))"

definition test_bit_manipulation_all_positions :: "(unit, unit) res" where
  "test_bit_manipulation_all_positions =
     (let h = enter_service_mode harness_new in
      snd (st_bind (write_bits 1 [0, 1, 2, 3, 4, 5, 6, 7] h) (\<lambda>h _.
           st_bind (h, assert (harness_read_cv 50 h = Ok 0xFF)) (\<lambda>h _.
           st_bind (write_bits 0 [0, 1, 2, 3, 4, 5, 6, 7] h) (\<lambda>h _.
             (h, assert (harness_read_cv 50 h = Ok 0x00)))))))"

section \<open>They pass\<close>

lemmas operation_eval = advanced_speed_step_packet_def operation_packet_def is_recipient_def packet_addr_def
  store_addr_def read_extended_address_def is_broadcast_def BROADCAST_ADDRESS_def handle_command_def
  parse_operation_def address_length_def slice_from_def elem_get_def operation_instruction_type_of_def
  parse_speed_step_def is_mf_extended_address_def is_basic_address_def

lemmas mock_eval = harness_new_def harness_with_store_def harness_with_address_def harness_with_extended_address_def
  handler_new_def mock_timer_new_def mock_store_new_def with_cv_def CV_SIZE_def enter_service_mode_def
  set_timer_elapsed_def start_timer_def mock_timer_start_def mock_set_elapsed_def send_two_packets_def
  harness_handle_def handle_def mock_timer_ops_def mock_store_ops_def mock_timer_elapsed_ms_def
  mock_timer_stop_def handle_service_mode_def mock_read_byte_def mock_write_byte_def mock_read_bytes_def
  harness_read_cv_def assert_def is_reset_def handle_reset_def SERVICE_MODE_TIMEOUT_MS_def

lemmas packet_eval = service_verify_packet_def service_write_packet_def service_bit_verify_packet_def
  service_bit_write_packet_def service_packet_def reset_packet_def service_mode_candidate_def
  instruction_type_def cv_address_def cv_data_def index_def service_instruction_type_of_def

lemmas arm_eval = verify_byte_def write_byte_def manipulate_bit_def of_packet_def of_store_def in_store_def
  write_primary_address_def write_extended_msb_def
  write_extended_lsb_def write_manufacturer_id_def write_version_number_def reset_to_factory_defaults_def cv_try_from_def
  all_cvs_def

lemma test_reset_packet_starts_timer_passes: "test_reset_packet_starts_timer = Ok ()"
  by (simp add: test_reset_packet_starts_timer_def mock_eval packet_eval arm_eval operation_eval Let_def)

lemma test_service_verify_byte_match_passes: "test_service_verify_byte_match = Ok ()"
  by (simp add: test_service_verify_byte_match_def mock_eval packet_eval arm_eval operation_eval Let_def)

lemma test_service_verify_byte_mismatch_passes: "test_service_verify_byte_mismatch = Ok ()"
  by (simp add: test_service_verify_byte_mismatch_def mock_eval packet_eval arm_eval operation_eval Let_def)

lemma test_service_write_byte_passes: "test_service_write_byte = Ok ()"
  by (simp add: test_service_write_byte_def mock_eval packet_eval arm_eval operation_eval Let_def)

lemma test_service_bit_verify_match_passes: "test_service_bit_verify_match = Ok ()"
  by (simp add: test_service_bit_verify_match_def mock_eval packet_eval arm_eval operation_eval Let_def)

lemma test_service_bit_verify_mismatch_passes: "test_service_bit_verify_mismatch = Ok ()"
  by (simp add: test_service_bit_verify_mismatch_def mock_eval packet_eval arm_eval operation_eval Let_def)

lemma test_service_bit_write_set_passes: "test_service_bit_write_set = Ok ()"
  by (simp add: test_service_bit_write_set_def mock_eval packet_eval arm_eval operation_eval Let_def)

lemma test_service_bit_write_clear_passes: "test_service_bit_write_clear = Ok ()"
  by (simp add: test_service_bit_write_clear_def mock_eval packet_eval arm_eval operation_eval Let_def)

lemma test_service_mode_timeout_passes: "test_service_mode_timeout = Ok ()"
  by (simp add: test_service_mode_timeout_def mock_eval packet_eval arm_eval operation_eval Let_def)

lemma test_operation_mode_basic_address_passes: "test_operation_mode_basic_address = Ok ()"
  by (simp add: test_operation_mode_basic_address_def mock_eval packet_eval arm_eval operation_eval Let_def)

lemma test_operation_mode_extended_address_passes: "test_operation_mode_extended_address = Ok ()"
  by (simp add: test_operation_mode_extended_address_def mock_eval packet_eval arm_eval operation_eval Let_def)

lemma test_operation_mode_stop_passes: "test_operation_mode_stop = Ok ()"
  by (simp add: test_operation_mode_stop_def mock_eval packet_eval arm_eval operation_eval Let_def)

lemma test_operation_mode_emergency_stop_passes: "test_operation_mode_emergency_stop = Ok ()"
  by (simp add: test_operation_mode_emergency_stop_def mock_eval packet_eval arm_eval operation_eval Let_def)

lemma test_packet_not_for_us_passes: "test_packet_not_for_us = Ok ()"
  by (simp add: test_packet_not_for_us_def mock_eval packet_eval arm_eval operation_eval Let_def)

lemma test_service_mode_sequence_passes: "test_service_mode_sequence = Ok ()"
  by (simp add: test_service_mode_sequence_def mock_eval packet_eval arm_eval operation_eval Let_def)

lemma test_service_write_address_only_passes: "test_service_write_address_only = Ok ()"
  by (simp add: test_service_write_address_only_def mock_eval packet_eval arm_eval operation_eval Let_def)

lemma test_service_write_address_only_invalid_range_passes: "test_service_write_address_only_invalid_range = Ok ()"
  by (simp add: test_service_write_address_only_invalid_range_def mock_eval packet_eval arm_eval operation_eval Let_def)

lemma test_service_write_cv17_valid_passes: "test_service_write_cv17_valid = Ok ()"
  by (simp add: test_service_write_cv17_valid_def mock_eval packet_eval arm_eval operation_eval Let_def)

lemma test_service_write_cv17_out_of_range_passes: "test_service_write_cv17_out_of_range = Ok ()"
  by (simp add: test_service_write_cv17_out_of_range_def mock_eval packet_eval arm_eval operation_eval Let_def)

lemma test_service_write_cv17_rejects_address_zero_passes: "test_service_write_cv17_rejects_address_zero = Ok ()"
  by (simp add: test_service_write_cv17_rejects_address_zero_def mock_eval packet_eval arm_eval operation_eval Let_def)

lemma test_service_write_cv18_rejects_address_zero_passes: "test_service_write_cv18_rejects_address_zero = Ok ()"
  by (simp add: test_service_write_cv18_rejects_address_zero_def mock_eval packet_eval arm_eval operation_eval Let_def)

lemma test_service_write_cv18_valid_passes: "test_service_write_cv18_valid = Ok ()"
  by (simp add: test_service_write_cv18_valid_def mock_eval packet_eval arm_eval operation_eval Let_def)

lemma test_service_write_cv31_cv32_ignored_passes: "test_service_write_cv31_cv32_ignored = Ok ()"
  by (simp add: test_service_write_cv31_cv32_ignored_def mock_eval packet_eval arm_eval operation_eval Let_def)

lemma test_service_write_latch_first_packet_returns_none_passes: "test_service_write_latch_first_packet_returns_none = Ok ()"
  by (simp add: test_service_write_latch_first_packet_returns_none_def mock_eval packet_eval arm_eval operation_eval Let_def)

lemma test_service_write_latch_different_second_packet_does_not_execute_passes: "test_service_write_latch_different_second_packet_does_not_execute = Ok ()"
  by (simp add: test_service_write_latch_different_second_packet_does_not_execute_def mock_eval packet_eval arm_eval operation_eval Let_def)

lemma test_service_factory_defaults_passes: "test_service_factory_defaults = Ok ()"
proof -
  note r = mock_store_reset [of mock_store_new, unfolded mock_store_ops_def mock_store_new_def CV_SIZE_def]
  show ?thesis
    by (simp add: test_service_factory_defaults_def pkt_def vec_from_slice_def mock_eval packet_eval
        reset_to_factory_defaults_def in_store_def Let_def r CV_SIZE_def)
qed

lemma test_bit_manipulation_all_positions_passes: "test_bit_manipulation_all_positions = Ok ()"
  by (simp add: test_bit_manipulation_all_positions_def mock_eval packet_eval arm_eval Let_def)

text \<open>All of them.\<close>

lemmas handler_tests_pass =
  test_reset_packet_starts_timer_passes test_service_verify_byte_match_passes
  test_service_verify_byte_mismatch_passes test_service_write_byte_passes test_service_bit_verify_match_passes
  test_service_bit_verify_mismatch_passes test_service_bit_write_set_passes
  test_service_bit_write_clear_passes test_service_mode_timeout_passes
  test_operation_mode_basic_address_passes test_operation_mode_extended_address_passes
  test_operation_mode_stop_passes test_operation_mode_emergency_stop_passes test_packet_not_for_us_passes
  test_service_mode_sequence_passes test_service_write_address_only_passes
  test_service_write_address_only_invalid_range_passes test_service_write_cv17_valid_passes
  test_service_write_cv17_out_of_range_passes test_service_write_cv17_rejects_address_zero_passes
  test_service_write_cv18_rejects_address_zero_passes test_service_write_cv18_valid_passes
  test_service_write_cv31_cv32_ignored_passes test_service_write_latch_first_packet_returns_none_passes
  test_service_write_latch_different_second_packet_does_not_execute_passes
  test_service_factory_defaults_passes test_bit_manipulation_all_positions_passes

end
