(* ===== verification/Packet_Tests.thy ===== *)
theory Packet_Tests
  imports Testing
begin

text \<open>
  The unit tests of the packets (\<^verbatim>\<open>dcc/src/transport/packet.rs\<close>), of the addresses
  (\<^verbatim>\<open>dcc/src/transport/mod.rs\<close>) and of the store's address (\<^verbatim>\<open>dcc/src/cv/store.rs\<close>) as computations over
  the model, each with the lemma that it passes.
\<close>

section \<open>Function groups\<close>

text \<open>\<^verbatim>\<open>bitflags\<close>' \<^verbatim>\<open>contains\<close>, and the \<^verbatim>\<open>if let\<close> of the tests: anything but a function group panics.\<close>

definition contains :: "function_group_flags \<Rightarrow> function_group_flags \<Rightarrow> bool" where
  "contains flags f \<longleftrightarrow> flags AND f = f"

definition expect_group :: "u8 list \<Rightarrow> (function_group \<Rightarrow> bool) \<Rightarrow> (unit, unit) res" where
  "expect_group bytes check =
     res_bind (pkt bytes) (\<lambda>p.
     res_bind (unwrap (parse_operation p)) (\<lambda>i.
       case i of FunctionGroupInstr fg \<Rightarrow> assert (check fg) | _ \<Rightarrow> Panic))"

definition function_group_1_instruction :: "(unit, unit) res" where
  "function_group_1_instruction =
     expect_group [3, 0x93, 0x90] (\<lambda>fg. contains (fg_flags fg) (func_flag 1) \<and> contains (fg_flags fg) (func_flag 2) \<and> \<not> contains (fg_flags fg) (func_flag 3) \<and> \<not> contains (fg_flags fg) (func_flag 4) \<and> contains (fg_flags fg) (func_flag 0)
       \<and> group_mask fg = FG_1 \<and> fg_flags fg = func_flag 1 OR func_flag 2 OR func_flag 0)"

definition function_group_2_instruction_s1 :: "(unit, unit) res" where
  "function_group_2_instruction_s1 =
     expect_group [3, 0xB5, 0xB6] (\<lambda>fg. contains (fg_flags fg) (func_flag 5) \<and> \<not> contains (fg_flags fg) (func_flag 6) \<and> contains (fg_flags fg) (func_flag 7) \<and> \<not> contains (fg_flags fg) (func_flag 8)
       \<and> group_mask fg = FG_2_1 \<and> fg_flags fg = func_flag 5 OR func_flag 7)"

definition function_group_2_instruction_s0 :: "(unit, unit) res" where
  "function_group_2_instruction_s0 =
     expect_group [3, 0xAC, 0xAF] (\<lambda>fg. \<not> contains (fg_flags fg) (func_flag 9) \<and> \<not> contains (fg_flags fg) (func_flag 10) \<and> contains (fg_flags fg) (func_flag 11) \<and> contains (fg_flags fg) (func_flag 12)
       \<and> group_mask fg = FG_2_0 \<and> fg_flags fg = func_flag 11 OR func_flag 12)"

definition function_flag_bit_positions_match_function_index :: "(unit, unit) res" where
  "function_flag_bit_positions_match_function_index =
     assert (func_flag 0 = push_bit 0 1 \<and> func_flag 1 = push_bit 1 1 \<and> func_flag 4 = push_bit 4 1
       \<and> func_flag 5 = push_bit 5 1 \<and> func_flag 12 = push_bit 12 1 \<and> func_flag 13 = push_bit 13 1
       \<and> func_flag 28 = push_bit 28 1 \<and> func_flag 31 = push_bit 31 1)"

definition feature_expansion_f13_f20 :: "(unit, unit) res" where
  "feature_expansion_f13_f20 =
     expect_group [3, 0xDE, 0b10000001] (\<lambda>fg. group_mask fg = FG_FEATURE_13_20 \<and> fg_flags fg = func_flag 13 OR func_flag 20)"

definition feature_expansion_f21_f28 :: "(unit, unit) res" where
  "feature_expansion_f21_f28 =
     expect_group [3, 0xDF, 0b10000001] (\<lambda>fg. group_mask fg = FG_FEATURE_21_28 \<and> fg_flags fg = func_flag 21 OR func_flag 28)"

definition feature_expansion_f29_f31 :: "(unit, unit) res" where
  "feature_expansion_f29_f31 =
     expect_group [3, 0xD8, 0b11111101] (\<lambda>fg. group_mask fg = FG_FEATURE_29_31 \<and> fg_flags fg = func_flag 29 OR func_flag 31)"

section \<open>Instructions\<close>

definition feature_expansion_unknown_subcode_is_invalid :: "(unit, unit) res" where
  "feature_expansion_unknown_subcode_is_invalid =
     res_bind (pkt [3, 0b11000000, 0x00]) (\<lambda>p. assert (parse_operation p = Err InvalidInstruction))"

definition feature_expansion_missing_data_byte_is_undersize :: "(unit, unit) res" where
  "feature_expansion_missing_data_byte_is_undersize =
     res_bind (pkt [3, 0xDE]) (\<lambda>p. assert (parse_operation p = Err Undersize))"

definition service_mode_candidate_range :: "(unit, unit) res" where
  "service_mode_candidate_range =
     (let candidate = (\<lambda>b. res_bind (pkt [b]) (\<lambda>p. unwrap (service_mode_candidate p)))
      in assert (list_all (\<lambda>b. candidate b = Ok True)
             [0x70, 0x71, 0x72, 0x73, 0x74, 0x75, 0x76, 0x77, 0x78, 0x79, 0x7A, 0x7B, 0x7C, 0x7D, 0x7E, 0x7F]
           \<and> list_all (\<lambda>b. candidate b = Ok False) [0x00, 0x10, 0x6F, 0x80, 0xFF]))"

definition service_instruction_type_decode :: "(unit, unit) res" where
  "service_instruction_type_decode =
     res_bind (pkt [0b0100, 0x00, 0x00]) (\<lambda>verify.
     res_bind (pkt [0b1000, 0x00, 0x00]) (\<lambda>manipulate.
     res_bind (pkt [0b1100, 0x00, 0x00]) (\<lambda>write.
       assert (unwrap (instruction_type verify) = (Ok VerifyByte :: (unit, service_instruction_type) res)
         \<and> unwrap (instruction_type manipulate) = (Ok ManipulateBit :: (unit, service_instruction_type) res)
         \<and> unwrap (instruction_type write) = (Ok WriteByte :: (unit, service_instruction_type) res)))))"

definition service_mode_cv_address_and_data :: "(unit, unit) res" where
  "service_mode_cv_address_and_data =
     res_bind (pkt [0b01110100, 0x24, 0x99]) (\<lambda>p1.
     res_bind (pkt [0b01110011, 0xFE, 0x55]) (\<lambda>p2.
       assert (cv_address p1 = Ok 0x025 \<and> cv_data p1 = Ok 0x99 \<and> cv_address p2 = Ok 0x3FF \<and> cv_data p2 = Ok 0x55)))"

definition service_packet_undersize_errors :: "(unit, unit) res" where
  "service_packet_undersize_errors =
     res_bind (pkt []) (\<lambda>p0. res_bind (pkt [0x70]) (\<lambda>p1. res_bind (pkt [0x70, 0x00]) (\<lambda>p2.
       assert (instruction_type p0 = Err Undersize \<and> cv_address p1 = Err Undersize \<and> cv_data p2 = Err Undersize))))"

definition reset_packet_detection :: "(unit, unit) res" where
  "reset_packet_detection =
     res_bind (pkt [0x00, 0x00]) (\<lambda>p0. res_bind (pkt [0x00]) (\<lambda>p1. res_bind (pkt [0x00, 0x01]) (\<lambda>p2.
       assert (is_reset p0 \<and> \<not> is_reset p1 \<and> \<not> is_reset p2))))"

text \<open>The body of the loop over both directions.\<close>

definition speed_control_in :: "direction \<Rightarrow> (unit, unit) res" where
  "speed_control_in direction =
     (let dir = push_bit 7 (case direction of Forward \<Rightarrow> 1 | Reverse \<Rightarrow> 0) :: u8;
          speed = (\<lambda>b s. res_bind (pkt [3, 0b00111111, b + dir]) (\<lambda>p.
            assert (parse_operation p = Ok (AdvancedOperations (SpeedStepControl (velocity_new s direction))))))
      in res_bind (speed 0b00000000 Stop) (\<lambda>_. res_bind (speed 0b00000001 EmergencyStop) (\<lambda>_.
         res_bind (speed 0b00000010 (Num 1)) (\<lambda>_. speed 0b01111111 (Num 126)))))"

definition operation_mode_instruction_128_speed_control :: "(unit, unit) res" where
  "operation_mode_instruction_128_speed_control =
     res_bind (speed_control_in Forward) (\<lambda>_. speed_control_in Reverse)"

section \<open>Addresses\<close>

definition test_standard_addresses :: "(unit, unit) res" where
  "test_standard_addresses =
     assert (packet_addr \<lparr>pkt_data = [0x00, 0x60, 0x60]\<rparr> = Ok 0
       \<and> packet_addr \<lparr>pkt_data = [0x01, 0x60, 0x61]\<rparr> = Ok 1
       \<and> packet_addr \<lparr>pkt_data = [0x03, 0x60, 0x63]\<rparr> = Ok 3
       \<and> packet_addr \<lparr>pkt_data = [0x40, 0x60, 0x20]\<rparr> = Ok 64
       \<and> packet_addr \<lparr>pkt_data = [0x7F, 0x60, 0x1F]\<rparr> = Ok 127)"

definition test_basic_accessory_decoder_addresses :: "(unit, unit) res" where
  "test_basic_accessory_decoder_addresses =
     assert (packet_addr \<lparr>pkt_data = [128, 0x80, 0x00]\<rparr> = Err InvalidAddress
       \<and> packet_addr \<lparr>pkt_data = [150, 0x80, 0x96]\<rparr> = Err InvalidAddress
       \<and> packet_addr \<lparr>pkt_data = [191, 0x80, 0x31]\<rparr> = Err InvalidAddress)"

definition test_extended_accessory_decoder_addresses :: "(unit, unit) res" where
  "test_extended_accessory_decoder_addresses =
     assert (packet_addr \<lparr>pkt_data = [128, 0x01, 0x80, 0x49]\<rparr> = Err InvalidAddress
       \<and> packet_addr \<lparr>pkt_data = [160, 0x02, 0x80, 0x22]\<rparr> = Err InvalidAddress)"

definition test_multifunction_decoder_extended_addresses :: "(unit, unit) res" where
  "test_multifunction_decoder_extended_addresses =
     assert (packet_addr \<lparr>pkt_data = [192, 0x00, 0x60, 0xF2]\<rparr> = Ok 0
       \<and> packet_addr \<lparr>pkt_data = [192, 0x01, 0x60, 0xF3]\<rparr> = Ok 1
       \<and> packet_addr \<lparr>pkt_data = [192, 0xFF, 0x60, 0x0D]\<rparr> = Ok 255
       \<and> packet_addr \<lparr>pkt_data = [193, 0x00, 0x60, 0xF1]\<rparr> = Ok 256
       \<and> packet_addr \<lparr>pkt_data = [195, 0x2C, 0x60, 0xDF]\<rparr> = Ok 812
       \<and> packet_addr \<lparr>pkt_data = [200, 0x00, 0x60, 0xE8]\<rparr> = Ok 2048
       \<and> packet_addr \<lparr>pkt_data = [231, 0xFF, 0x60, 0x76]\<rparr> = Ok 10239)"

definition test_address_boundary_conditions :: "(unit, unit) res" where
  "test_address_boundary_conditions =
     assert (packet_addr \<lparr>pkt_data = [191, 0x80, 0x31]\<rparr> = Err InvalidAddress
       \<and> packet_addr \<lparr>pkt_data = [192, 0x80, 0x60, 0x72]\<rparr> = Ok 128
       \<and> packet_addr \<lparr>pkt_data = [224, 0x00, 0x60, 0xC4]\<rparr> = Ok 8192)"

definition test_extended_address_detection :: "(unit, unit) res" where
  "test_extended_address_detection =
     assert (is_mf_extended_address [127] = Ok False
       \<and> is_mf_extended_address [191] = Ok False
       \<and> is_mf_extended_address [192, 0] = Ok True
       \<and> is_mf_extended_address [200, 0] = Ok True
       \<and> is_mf_extended_address [231, 0] = Ok True
       \<and> is_mf_extended_address [232] = Ok False
       \<and> is_mf_extended_address [] = Ok False
       \<and> is_mf_extended_address [192] = Ok False)"

section \<open>The address in the store\<close>

definition test_addr_primary_address :: "(unit, unit) res" where
  "test_addr_primary_address =
     assert (store_addr mock_store_ops (with_cv (of_nat (cv_num DecoderConfiguration)) 0b00000000 (with_cv (of_nat (cv_num PrimaryAddress)) 42 mock_store_new)) = Ok 42)"

definition test_addr_extended_address :: "(unit, unit) res" where
  "test_addr_extended_address =
     assert (store_addr mock_store_ops (with_extended_address 1234 (with_cv (of_nat (cv_num PrimaryAddress)) 42 mock_store_new)) = Ok 1234)"

definition test_addr_extended_address_min :: "(unit, unit) res" where
  "test_addr_extended_address_min =
     assert (store_addr mock_store_ops (with_extended_address 128 mock_store_new) = Ok 128)"

definition test_addr_extended_address_max :: "(unit, unit) res" where
  "test_addr_extended_address_max =
     assert (store_addr mock_store_ops (with_extended_address 16383 mock_store_new) = Ok 16383)"

definition test_addr_primary_address_boundaries :: "(unit, unit) res" where
  "test_addr_primary_address_boundaries =
     assert (store_addr mock_store_ops (with_cv (of_nat (cv_num DecoderConfiguration)) 0b00000000 (with_cv (of_nat (cv_num PrimaryAddress)) 1 mock_store_new)) = Ok 1
       \<and> store_addr mock_store_ops (with_cv (of_nat (cv_num DecoderConfiguration)) 0b00000000 (with_cv (of_nat (cv_num PrimaryAddress)) 127 mock_store_new)) = Ok 127)"

definition test_addr_extended_bit_masking :: "(unit, unit) res" where
  "test_addr_extended_bit_masking =
     assert (store_addr mock_store_ops (with_cv (of_nat (cv_num DecoderConfiguration)) 0b11011111 (with_cv (of_nat (cv_num PrimaryAddress)) 42 mock_store_new)) = Ok 42
       \<and> store_addr mock_store_ops (with_extended_address 1000 (with_cv (of_nat (cv_num DecoderConfiguration)) 0b00100000 (with_cv (of_nat (cv_num PrimaryAddress)) 42 mock_store_new))) = Ok 1000)"

section \<open>They pass\<close>

lemmas packet_test_eval = assert_def pkt_def vec_from_slice_def parse_operation_def address_length_def slice_from_def
  elem_get_def operation_instruction_type_of_def parse_speed_step_def is_mf_extended_address_def
  is_basic_address_def service_mode_candidate_def instruction_type_def service_instruction_type_of_def
  cv_address_def cv_data_def index_def is_reset_def packet_addr_def read_extended_address_def velocity_new_def

lemmas group_eval = expect_group_def contains_def parse_fg1_def parse_fg2_def parse_feature_expansion_def
  flag_if_def bit_set_def fg_new_def from_bits_truncate_def all_flags_def FG_1_def FG_2_0_def FG_2_1_def
  FG_FEATURE_13_20_def FG_FEATURE_21_28_def FG_FEATURE_29_31_def func_flag_def

lemmas store_eval = mock_store_addr addr_of_cvs_def mock_store_new_def with_cv_def with_extended_address_def
  CV_SIZE_def

lemma function_group_1_instruction_passes: "function_group_1_instruction = Ok ()"
  by (simp add: function_group_1_instruction_def packet_test_eval group_eval Let_def)

lemma function_group_2_instruction_s1_passes: "function_group_2_instruction_s1 = Ok ()"
  by (simp add: function_group_2_instruction_s1_def packet_test_eval group_eval Let_def)

lemma function_group_2_instruction_s0_passes: "function_group_2_instruction_s0 = Ok ()"
  by (simp add: function_group_2_instruction_s0_def packet_test_eval group_eval Let_def)

lemma function_flag_bit_positions_match_function_index_passes: "function_flag_bit_positions_match_function_index = Ok ()"
  by (simp add: function_flag_bit_positions_match_function_index_def packet_test_eval group_eval Let_def)

lemma feature_expansion_f13_f20_passes: "feature_expansion_f13_f20 = Ok ()"
  by (simp add: feature_expansion_f13_f20_def packet_test_eval group_eval Let_def)

lemma feature_expansion_f21_f28_passes: "feature_expansion_f21_f28 = Ok ()"
  by (simp add: feature_expansion_f21_f28_def packet_test_eval group_eval Let_def)

lemma feature_expansion_f29_f31_passes: "feature_expansion_f29_f31 = Ok ()"
  by (simp add: feature_expansion_f29_f31_def packet_test_eval group_eval Let_def)

lemma feature_expansion_unknown_subcode_is_invalid_passes: "feature_expansion_unknown_subcode_is_invalid = Ok ()"
  by (simp add: feature_expansion_unknown_subcode_is_invalid_def packet_test_eval group_eval Let_def)

lemma feature_expansion_missing_data_byte_is_undersize_passes: "feature_expansion_missing_data_byte_is_undersize = Ok ()"
  by (simp add: feature_expansion_missing_data_byte_is_undersize_def packet_test_eval group_eval Let_def)

lemma service_mode_candidate_range_passes: "service_mode_candidate_range = Ok ()"
  by (simp add: service_mode_candidate_range_def packet_test_eval group_eval Let_def)

lemma service_instruction_type_decode_passes: "service_instruction_type_decode = Ok ()"
  by (simp add: service_instruction_type_decode_def packet_test_eval group_eval Let_def)

lemma service_mode_cv_address_and_data_passes: "service_mode_cv_address_and_data = Ok ()"
  by (simp add: service_mode_cv_address_and_data_def packet_test_eval group_eval Let_def)

lemma service_packet_undersize_errors_passes: "service_packet_undersize_errors = Ok ()"
  by (simp add: service_packet_undersize_errors_def packet_test_eval group_eval Let_def)

lemma reset_packet_detection_passes: "reset_packet_detection = Ok ()"
  by (simp add: reset_packet_detection_def packet_test_eval group_eval Let_def)

lemma operation_mode_instruction_128_speed_control_passes: "operation_mode_instruction_128_speed_control = Ok ()"
proof -
  have "speed_control_in Forward = Ok ()" "speed_control_in Reverse = Ok ()"
    by (simp_all add: speed_control_in_def packet_test_eval Let_def del: res_bind_eq_Ok)
  then show ?thesis by (simp add: operation_mode_instruction_128_speed_control_def)
qed

lemma test_standard_addresses_passes: "test_standard_addresses = Ok ()"
  by (simp add: test_standard_addresses_def packet_test_eval)

lemma test_basic_accessory_decoder_addresses_passes: "test_basic_accessory_decoder_addresses = Ok ()"
  by (simp add: test_basic_accessory_decoder_addresses_def packet_test_eval)

lemma test_extended_accessory_decoder_addresses_passes: "test_extended_accessory_decoder_addresses = Ok ()"
  by (simp add: test_extended_accessory_decoder_addresses_def packet_test_eval)

lemma test_multifunction_decoder_extended_addresses_passes: "test_multifunction_decoder_extended_addresses = Ok ()"
  by (simp add: test_multifunction_decoder_extended_addresses_def packet_test_eval)

lemma test_address_boundary_conditions_passes: "test_address_boundary_conditions = Ok ()"
  by (simp add: test_address_boundary_conditions_def packet_test_eval)

lemma test_extended_address_detection_passes: "test_extended_address_detection = Ok ()"
  by (simp add: test_extended_address_detection_def packet_test_eval)

lemma test_addr_primary_address_passes: "test_addr_primary_address = Ok ()"
  by (simp add: test_addr_primary_address_def assert_def store_eval Let_def)

lemma test_addr_extended_address_passes: "test_addr_extended_address = Ok ()"
  by (simp add: test_addr_extended_address_def assert_def store_eval Let_def)

lemma test_addr_extended_address_min_passes: "test_addr_extended_address_min = Ok ()"
  by (simp add: test_addr_extended_address_min_def assert_def store_eval Let_def)

lemma test_addr_extended_address_max_passes: "test_addr_extended_address_max = Ok ()"
  by (simp add: test_addr_extended_address_max_def assert_def store_eval Let_def)

lemma test_addr_primary_address_boundaries_passes: "test_addr_primary_address_boundaries = Ok ()"
  by (simp add: test_addr_primary_address_boundaries_def assert_def store_eval Let_def)

lemma test_addr_extended_bit_masking_passes: "test_addr_extended_bit_masking = Ok ()"
  by (simp add: test_addr_extended_bit_masking_def assert_def store_eval Let_def)

text \<open>All of them.\<close>

lemmas packet_tests_pass =
  function_group_1_instruction_passes function_group_2_instruction_s1_passes
  function_group_2_instruction_s0_passes function_flag_bit_positions_match_function_index_passes
  feature_expansion_f13_f20_passes feature_expansion_f21_f28_passes feature_expansion_f29_f31_passes
  feature_expansion_unknown_subcode_is_invalid_passes feature_expansion_missing_data_byte_is_undersize_passes
  service_mode_candidate_range_passes service_instruction_type_decode_passes
  service_mode_cv_address_and_data_passes service_packet_undersize_errors_passes reset_packet_detection_passes
  operation_mode_instruction_128_speed_control_passes test_standard_addresses_passes
  test_basic_accessory_decoder_addresses_passes test_extended_accessory_decoder_addresses_passes
  test_multifunction_decoder_extended_addresses_passes test_address_boundary_conditions_passes
  test_extended_address_detection_passes test_addr_primary_address_passes test_addr_extended_address_passes
  test_addr_extended_address_min_passes test_addr_extended_address_max_passes
  test_addr_primary_address_boundaries_passes test_addr_extended_bit_masking_passes

end
