(* ===== verification/Accel_Tests.thy ===== *)
theory Accel_Tests
  imports Accel
begin

text \<open>
  The unit tests of the acceleration helper (\<^verbatim>\<open>motor/src/speed/accel.rs\<close>) as computations over the
  model, in the development profile that tests are built in, each with the lemma that it passes.
\<close>

section \<open>Fixtures\<close>

definition default_config :: accel_config where
  "default_config = \<lparr>accel_rate = 10, decel_rate = 10, loop_delay = from_millis 7\<rparr>"

definition config_no_ramp :: accel_config where
  "config_no_ramp = \<lparr>accel_rate = 0, decel_rate = 0, loop_delay = from_millis 7\<rparr>"

text \<open>A helper that moves at a given velocity, with that velocity as its target.\<close>

definition moving :: "accel_config \<Rightarrow> speed_step \<Rightarrow> accel_helper" where
  "moving c s =
     (let control = accel_new c;
          control = control\<lparr>ah_current := \<lparr>vs_speed_step = s, vs_direction = Forward\<rparr>\<rparr>
      in control\<lparr>ah_target := ah_current control\<rparr>)"

abbreviation target :: "speed_step \<Rightarrow> direction \<Rightarrow> accel_helper \<Rightarrow> accel_helper" where
  "target s d \<equiv> accel_set_target \<lparr>vs_speed_step = s, vs_direction = d\<rparr>"

text \<open>A loop over \<^verbatim>\<open>step\<close> until the delay is infinite: the results in order. A bounded loop
  (\<^verbatim>\<open>for _ in 0..10\<close>) ends after its last round; for \<^verbatim>\<open>loop\<close> the number is fuel, and needing more is
  no result, as is a panic.\<close>

fun run_steps :: "bool \<Rightarrow> nat \<Rightarrow> accel_helper \<Rightarrow> (accel_helper \<times> (velocity_setpoint \<times> duration) list) option" where
  "run_steps bounded 0 h = (if bounded then Some (h, []) else None)"
| "run_steps bounded (Suc n) h =
     (case accel_step Dev h of
        (h, Ok (current, delay)) \<Rightarrow>
          if delay = duration_max then Some (h, [(current, delay)])
          else map_option (\<lambda>(h, l). (h, (current, delay) # l)) (run_steps bounded n h)
      | _ \<Rightarrow> None)"

definition speeds :: "(velocity_setpoint \<times> duration) list \<Rightarrow> u8 list" where
  "speeds l = map (\<lambda>(v, d). idx (vs_speed_step v)) l"

definition total_time :: "(velocity_setpoint \<times> duration) list \<Rightarrow> duration" where
  "total_time l = sum_list (map snd (butlast l))"

definition expect_run :: "bool \<Rightarrow> accel_helper \<Rightarrow> (accel_helper \<Rightarrow> (velocity_setpoint \<times> duration) list \<Rightarrow> bool) \<Rightarrow> (unit, unit) res" where
  "expect_run bounded h check = (case run_steps bounded 10 h of Some (h, l) \<Rightarrow> assert (check h l) | None \<Rightarrow> Panic)"

definition expect_step :: "accel_helper \<Rightarrow> (velocity_setpoint \<Rightarrow> duration \<Rightarrow> bool) \<Rightarrow> (unit, accel_helper) res" where
  "expect_step h check =
     (case accel_step Dev h of (h, Ok (current, delay)) \<Rightarrow> if check current delay then Ok h else Panic | _ \<Rightarrow> Panic)"

definition passes :: "(unit, accel_helper) res \<Rightarrow> (unit, unit) res" where
  "passes r = res_bind r (\<lambda>_. Ok ())"

section \<open>The tests\<close>

definition test_speed_step_idx :: "(unit, unit) res" where
  "test_speed_step_idx =
     assert (idx Stop = 0 \<and> idx EmergencyStop = 0 \<and> idx (Num 5) = 5 \<and> idx (Num 126) = 126)"

definition test_speed_target_default :: "(unit, unit) res" where
  "test_speed_target_default =
     assert (vs_speed_step velocity_default = Stop \<and> vs_direction velocity_default = Forward)"

definition test_new_speed_control :: "(unit, unit) res" where
  "test_new_speed_control =
     (let control = accel_new default_config
      in assert (ah_current control = velocity_default \<and> ah_target control = velocity_default))"

definition test_set_target :: "(unit, unit) res" where
  "test_set_target =
     (let new_target = \<lparr>vs_speed_step = Num 50, vs_direction = Forward\<rparr>
      in assert (ah_target (accel_set_target new_target (accel_new default_config)) = new_target))"

definition test_step_when_at_target_returns_max_delay :: "(unit, unit) res" where
  "test_step_when_at_target_returns_max_delay =
     passes (expect_step (accel_new default_config) (\<lambda>current delay. current = velocity_default \<and> delay = duration_max))"

definition test_acceleration_with_rate :: "(unit, unit) res" where
  "test_acceleration_with_rate =
     passes (expect_step (target (Num 10) Forward (accel_new default_config)) (\<lambda>current delay.
       idx (vs_speed_step current) = 1 \<and> vs_direction current = Forward \<and> delay = from_millis (7 * 10)))"

definition test_acceleration_steps_gradually :: "(unit, unit) res" where
  "test_acceleration_steps_gradually =
     expect_run True (target (Num 5) Forward (accel_new default_config)) (\<lambda>_ l. speeds l = [1, 2, 3, 4, 5])"

definition test_acceleration_without_rate_jumps_immediately :: "(unit, unit) res" where
  "test_acceleration_without_rate_jumps_immediately =
     passes (expect_step (target (Num 50) Forward (accel_new config_no_ramp)) (\<lambda>current _. idx (vs_speed_step current) = 50))"

definition test_deceleration_with_rate :: "(unit, unit) res" where
  "test_deceleration_with_rate =
     passes (expect_step (target (Num 5) Forward (moving default_config (Num 10))) (\<lambda>current delay.
       idx (vs_speed_step current) = 9 \<and> delay = from_millis (7 * 10)))"

definition test_deceleration_steps_gradually :: "(unit, unit) res" where
  "test_deceleration_steps_gradually =
     expect_run False (target Stop Forward (moving default_config (Num 5))) (\<lambda>_ l. speeds l = [4, 3, 2, 1, 0])"

definition test_deceleration_without_rate_jumps_immediately :: "(unit, unit) res" where
  "test_deceleration_without_rate_jumps_immediately =
     passes (expect_step (target Stop Forward (moving config_no_ramp (Num 50))) (\<lambda>current _. idx (vs_speed_step current) = 0))"

definition test_emergency_stop_immediate :: "(unit, unit) res" where
  "test_emergency_stop_immediate =
     passes (expect_step (target EmergencyStop Forward (moving default_config (Num 50)))
       (\<lambda>current _. vs_speed_step current = EmergencyStop))"

definition test_direction_change_decelerates_to_stop_first :: "(unit, unit) res" where
  "test_direction_change_decelerates_to_stop_first =
     passes (
       res_bind (expect_step (target (Num 3) Reverse (moving default_config (Num 3)))
         (\<lambda>current _. idx (vs_speed_step current) = 2 \<and> vs_direction current = Forward)) (\<lambda>h.
       res_bind (expect_step h (\<lambda>current _. idx (vs_speed_step current) = 1 \<and> vs_direction current = Forward)) (\<lambda>h.
       res_bind (expect_step h (\<lambda>current _. idx (vs_speed_step current) = idx Stop \<and> vs_direction current = Forward)) (\<lambda>h.
         expect_step h (\<lambda>current _. idx (vs_speed_step current) = 1 \<and> vs_direction current = Reverse)))))"

definition test_direction_change_without_decel_rate_switches_immediately :: "(unit, unit) res" where
  "test_direction_change_without_decel_rate_switches_immediately =
     passes (expect_step (target (Num 30) Reverse (moving config_no_ramp (Num 50)))
       (\<lambda>current _. vs_speed_step current = Num 30 \<and> vs_direction current = Reverse))"

definition test_direction_change_from_stop :: "(unit, unit) res" where
  "test_direction_change_from_stop =
     expect_run False (target (Num 5) Reverse (moving default_config Stop))
       (\<lambda>h l. speeds l = [1, 2, 3, 4, 5] \<and> vs_direction (ah_current h) = Reverse)"

definition test_full_acceleration_cycle :: "(unit, unit) res" where
  "test_full_acceleration_cycle =
     expect_run False (target (Num 3) Forward (accel_new \<lparr>accel_rate = 5, decel_rate = 5, loop_delay = from_millis 10\<rparr>))
       (\<lambda>_ l. total_time l = from_millis 100)"

definition test_full_deceleration_cycle :: "(unit, unit) res" where
  "test_full_deceleration_cycle =
     expect_run False (target Stop Forward (moving \<lparr>accel_rate = 5, decel_rate = 5, loop_delay = from_millis 10\<rparr> (Num 3)))
       (\<lambda>_ l. total_time l = from_millis 100)"

section \<open>They pass\<close>

lemma run_steps_numeral:
  "run_steps bounded (numeral n) h =
     (case accel_step Dev h of
        (h, Ok (current, delay)) \<Rightarrow>
          if delay = duration_max then Some (h, [(current, delay)])
          else map_option (\<lambda>(h, l). (h, (current, delay) # l)) (run_steps bounded (pred_numeral n) h)
      | _ \<Rightarrow> None)"
  by (simp add: numeral_eq_Suc)

lemmas accel_eval = assert_def default_config_def config_no_ramp_def moving_def expect_run_def expect_step_def
  passes_def speeds_def total_time_def accel_new_def accel_set_target_def accel_step_def accel_switch_def
  accelerating_def next_speed_step_def accel_delay_def equivalent_def velocity_default_def
  duration_mul_def duration_max_def from_millis_def word_add_def word_sub_def
  run_steps_numeral

lemma test_speed_step_idx_passes: "test_speed_step_idx = Ok ()"
  by (simp add: test_speed_step_idx_def accel_eval Let_def)

lemma test_speed_target_default_passes: "test_speed_target_default = Ok ()"
  by (simp add: test_speed_target_default_def accel_eval Let_def)

lemma test_new_speed_control_passes: "test_new_speed_control = Ok ()"
  by (simp add: test_new_speed_control_def accel_eval Let_def)

lemma test_set_target_passes: "test_set_target = Ok ()"
  by (simp add: test_set_target_def accel_eval Let_def)

lemma test_step_when_at_target_returns_max_delay_passes: "test_step_when_at_target_returns_max_delay = Ok ()"
  by (simp add: test_step_when_at_target_returns_max_delay_def accel_eval Let_def)

lemma test_acceleration_with_rate_passes: "test_acceleration_with_rate = Ok ()"
  by (simp add: test_acceleration_with_rate_def accel_eval Let_def)

lemma test_acceleration_steps_gradually_passes: "test_acceleration_steps_gradually = Ok ()"
  by (simp add: test_acceleration_steps_gradually_def accel_eval Let_def)

lemma test_acceleration_without_rate_jumps_immediately_passes: "test_acceleration_without_rate_jumps_immediately = Ok ()"
  by (simp add: test_acceleration_without_rate_jumps_immediately_def accel_eval Let_def)

lemma test_deceleration_with_rate_passes: "test_deceleration_with_rate = Ok ()"
  by (simp add: test_deceleration_with_rate_def accel_eval Let_def)

lemma test_deceleration_steps_gradually_passes: "test_deceleration_steps_gradually = Ok ()"
  by (simp add: test_deceleration_steps_gradually_def accel_eval Let_def)

lemma test_deceleration_without_rate_jumps_immediately_passes: "test_deceleration_without_rate_jumps_immediately = Ok ()"
  by (simp add: test_deceleration_without_rate_jumps_immediately_def accel_eval Let_def)

lemma test_emergency_stop_immediate_passes: "test_emergency_stop_immediate = Ok ()"
  by (simp add: test_emergency_stop_immediate_def accel_eval Let_def)

lemma test_direction_change_decelerates_to_stop_first_passes: "test_direction_change_decelerates_to_stop_first = Ok ()"
  by (simp add: test_direction_change_decelerates_to_stop_first_def accel_eval Let_def)

lemma test_direction_change_without_decel_rate_switches_immediately_passes: "test_direction_change_without_decel_rate_switches_immediately = Ok ()"
  by (simp add: test_direction_change_without_decel_rate_switches_immediately_def accel_eval Let_def)

lemma test_direction_change_from_stop_passes: "test_direction_change_from_stop = Ok ()"
  by (simp add: test_direction_change_from_stop_def accel_eval Let_def)

lemma test_full_acceleration_cycle_passes: "test_full_acceleration_cycle = Ok ()"
  by (simp add: test_full_acceleration_cycle_def accel_eval Let_def)

lemma test_full_deceleration_cycle_passes: "test_full_deceleration_cycle = Ok ()"
  by (simp add: test_full_deceleration_cycle_def accel_eval Let_def)

text \<open>All of them.\<close>

lemmas accel_tests_pass =
  test_speed_step_idx_passes test_speed_target_default_passes test_new_speed_control_passes
  test_set_target_passes test_step_when_at_target_returns_max_delay_passes test_acceleration_with_rate_passes
  test_acceleration_steps_gradually_passes test_acceleration_without_rate_jumps_immediately_passes
  test_deceleration_with_rate_passes test_deceleration_steps_gradually_passes
  test_deceleration_without_rate_jumps_immediately_passes test_emergency_stop_immediate_passes
  test_direction_change_decelerates_to_stop_first_passes
  test_direction_change_without_decel_rate_switches_immediately_passes test_direction_change_from_stop_passes
  test_full_acceleration_cycle_passes test_full_deceleration_cycle_passes

end
