(* ===== verification/Pid_Tests.thy ===== *)
theory Pid_Tests
  imports Pid
begin

text \<open>
  The unit tests of the PID controller (\<^verbatim>\<open>motor/src/speed/pid.rs\<close>) as computations over the model.
  The PID crate is the parameter \<^verbatim>\<open>lib\<close> of the model, and the comparison of the crate
  \<^verbatim>\<open>assert_float_eq\<close> is a parameter \<^verbatim>\<open>near\<close>, of which only that a number is near itself is used:
  in the rounding model every result that the tests compare is exact.
\<close>

section \<open>The controller with the default CVs\<close>

definition default_cv_config :: pid_config where
  "default_cv_config =
     (let max_setpoint = 1600 in
      \<lparr>pc_sample_time = from_millis 5, pc_filter_tc = from_millis 10, pc_ki = rnd (5 / 2), pc_kd = rnd (5 / 1000),
       pc_output_max = f_to_u16 (f_div 125000000 (f_of_nat (150 * 100 + 10000))),
       pc_kp_gain_range1_end = f_div 13 255, pc_kp_y0 = 20, pc_kp_y1 = rnd (5 / 2), pc_kp_y2 = rnd (3 / 2),
       pc_max_setpoint = max_setpoint\<rparr>)"

definition build_default_pid :: "('e, 'c, 'p) pid_lib \<Rightarrow> (unit, 'p pid_controller) res" where
  "build_default_pid lib = unwrap (pid_new lib default_cv_config)"

definition test_pid_kp_schedule_matches_cv_defaults ::
  "(f32 \<Rightarrow> f32 \<Rightarrow> bool) \<Rightarrow> ('e, 'c, 'p) pid_lib \<Rightarrow> (unit, unit) res" where
  "test_pid_kp_schedule_matches_cv_defaults near lib =
     res_bind (build_default_pid lib) (\<lambda>pid.
       let cfg = pid_params pid;
           x1 = f_mul (pc_max_setpoint cfg) (pc_kp_gain_range1_end cfg);
           kp_at = (\<lambda>sp expected. res_bind (kp_for_setpoint pid sp) (\<lambda>kp. assert (near kp expected)))
       in res_bind (kp_at x1 (pc_kp_y1 cfg)) (\<lambda>_.
          res_bind (kp_at (pc_max_setpoint cfg) (pc_kp_y2 cfg)) (\<lambda>_.
          res_bind (kp_at (- 100) (pc_kp_y0 cfg)) (\<lambda>_.
            kp_at (f_add (pc_max_setpoint cfg) 1000) (pc_kp_y2 cfg)))))"

definition test_pid_compute_respects_output_limits_with_cv_defaults :: "('e, 'c, 'p) pid_lib \<Rightarrow> (unit, unit) res" where
  "test_pid_compute_respects_output_limits_with_cv_defaults lib =
     res_bind (build_default_pid lib) (\<lambda>pid.
       let cfg = pid_params pid;
           setpoint = f_mul (pc_max_setpoint cfg) 10;
           ff = f_of_nat (unat (pc_output_max cfg));
           (pid, r) = pid_compute lib 0 setpoint 0 ff pid
       in res_bind (unwrap r) (\<lambda>out. assert (0 \<le> out \<and> out \<le> pc_output_max cfg)))"

section \<open>Gain ranges\<close>

definition test_new_gain_range_positive_slope :: "(f32 \<Rightarrow> f32 \<Rightarrow> bool) \<Rightarrow> (unit, unit) res" where
  "test_new_gain_range_positive_slope near =
     (let g = gain_range_new 10 20 1 2; expected_slope = f_div (f_sub 2 1) (f_sub 20 10)
      in assert (gr_start g = 10 \<and> gr_end g = 20 \<and> gr_kp_start g = 1 \<and> near (gr_slope g) expected_slope))"

definition test_new_gain_range_negative_slope :: "(f32 \<Rightarrow> f32 \<Rightarrow> bool) \<Rightarrow> (unit, unit) res" where
  "test_new_gain_range_negative_slope near =
     (let g = gain_range_new 50 100 5 0; expected_slope = f_div (f_sub 0 5) (f_sub 100 50)
      in assert (gr_start g = 50 \<and> gr_end g = 100 \<and> gr_kp_start g = 5 \<and> near (gr_slope g) expected_slope))"

definition test_new_gain_range_zero_slope :: "(f32 \<Rightarrow> f32 \<Rightarrow> bool) \<Rightarrow> (unit, unit) res" where
  "test_new_gain_range_zero_slope near =
     (let g = gain_range_new 0 10 3 3; expected_slope = 0
      in assert (gr_start g = 0 \<and> gr_end g = 10 \<and> gr_kp_start g = 3 \<and> near (gr_slope g) expected_slope))"

definition test_new_gain_range_empty :: "(f32 \<Rightarrow> f32 \<Rightarrow> bool) \<Rightarrow> (unit, unit) res" where
  "test_new_gain_range_empty near =
     (let g = gain_range_new 10 10 1 2; expected_slope = 1
      in assert (gr_start g = 10 \<and> gr_end g = 10 \<and> gr_kp_start g = 1 \<and> near (gr_slope g) expected_slope))"

definition test_new_gain_range_flickering_empty :: "(f32 \<Rightarrow> f32 \<Rightarrow> bool) \<Rightarrow> (unit, unit) res" where
  "test_new_gain_range_flickering_empty near =
     (let g = gain_range_new 10 (f_add 10 (f_div F32_EPSILON 2)) 1 2; expected_slope = 1
      in assert (gr_start g = 10 \<and> gr_end g = (f_add 10 (f_div F32_EPSILON 2)) \<and> gr_kp_start g = 1 \<and> near (gr_slope g) expected_slope))"

definition test_get_kp :: "(f32 \<Rightarrow> f32 \<Rightarrow> bool) \<Rightarrow> (unit, unit) res" where
  "test_get_kp near =
     (let g = gain_range_new 10 20 1 2 in assert (near (get_kp g 10) 1 \<and> near (get_kp g 15) (rnd (3 / 2)) \<and> near (get_kp g 20) 2))"

definition test_get_kp_extrapolation :: "(f32 \<Rightarrow> f32 \<Rightarrow> bool) \<Rightarrow> (unit, unit) res" where
  "test_get_kp_extrapolation near =
     (let g = gain_range_new 10 20 1 2 in assert (near (get_kp g 5) (rnd (1 / 2)) \<and> near (get_kp g 30) 3))"

definition test_get_kp_zero_slope :: "(f32 \<Rightarrow> f32 \<Rightarrow> bool) \<Rightarrow> (unit, unit) res" where
  "test_get_kp_zero_slope near =
     (let g = gain_range_new 0 10 3 3 in assert (near (get_kp g 0) 3 \<and> near (get_kp g 5) 3 \<and> near (get_kp g 10) 3 \<and> near (get_kp g 100) 3))"

definition test_contains :: "(unit, unit) res" where
  "test_contains =
     (let g = gain_range_new 10 20 1 2
      in assert (gain_range_contains g 10 \<and> gain_range_contains g 15 \<and> gain_range_contains g (rnd (19999 / 1000))
           \<and> \<not> gain_range_contains g 20 \<and> \<not> gain_range_contains g (rnd (9999 / 1000))
           \<and> \<not> gain_range_contains g 25 \<and> \<not> gain_range_contains g (- 10)))"

definition test_contains_empty_range :: "(unit, unit) res" where
  "test_contains_empty_range =
     (let g = gain_range_new 10 10 1 2
      in assert (\<not> gain_range_contains g 10 \<and> \<not> gain_range_contains g 0))"

section \<open>They pass\<close>

lemma default_kp_values:
  "let x1 = f_mul 1600 (f_div 13 255) in
     get_kp (gain_range_new x1 1600 (rnd (5 / 2)) (rnd (3 / 2))) x1 = rnd (5 / 2)
   \<and> get_kp (gain_range_new x1 1600 (rnd (5 / 2)) (rnd (3 / 2))) 1600 = rnd (3 / 2)
   \<and> get_kp (gain_range_new 0 x1 20 (rnd (5 / 2))) 0 = 20 \<and> 0 < x1 \<and> x1 < 1600 \<and> f_add 1600 1000 = 2600"
  by code_simp

lemma pid_new_ranges:
  assumes "pid_new lib cfg = Ok c"
  shows "pid_params c = cfg"
    "gain_range_low c = gain_range_new 0 (f_mul (pc_max_setpoint cfg) (pc_kp_gain_range1_end cfg)) (pc_kp_y0 cfg) (pc_kp_y1 cfg)"
    "gain_range_high c = gain_range_new (f_mul (pc_max_setpoint cfg) (pc_kp_gain_range1_end cfg)) (pc_max_setpoint cfg)
       (pc_kp_y1 cfg) (pc_kp_y2 cfg)"
  using assms by (auto simp: pid_new_def Let_def)

lemma gain_range_test_simps [simp]:
  "gr_start (gain_range_new a b x y) = a" "gr_end (gain_range_new a b x y) = b" "gr_kp_start (gain_range_new a b x y) = x"
  by (simp_all add: gain_range_new_def)

lemma default_cv_config_simps [simp]:
  "pc_max_setpoint default_cv_config = 1600" "pc_kp_gain_range1_end default_cv_config = f_div 13 255"
  "pc_kp_y0 default_cv_config = 20" "pc_kp_y1 default_cv_config = rnd (5 / 2)" "pc_kp_y2 default_cv_config = rnd (3 / 2)"
  by (simp_all add: default_cv_config_def Let_def)

lemma test_pid_kp_schedule_matches_cv_defaults_passes:
  assumes "\<And>x. near x x" "pid_new lib default_cv_config = Ok c"
  shows "test_pid_kp_schedule_matches_cv_defaults near lib = Ok ()"
  using default_kp_values
  by (simp add: test_pid_kp_schedule_matches_cv_defaults_def build_default_pid_def assms(2) pid_new_ranges [OF assms(2)]
      kp_for_setpoint_def f_clamp_def gain_range_contains_def Let_def assms(1) del: res_bind_eq_Ok)

lemma test_pid_compute_respects_output_limits_with_cv_defaults_passes:
  assumes "pid_lib_limits lib clim plim" "pid_new lib default_cv_config = Ok c"
    and "\<And>m sp t ff e. snd (pid_compute lib m sp t ff c) \<noteq> Err e"
  shows "test_pid_compute_respects_output_limits_with_cv_defaults lib = Ok ()"
proof -
  have m: "0 \<le> pc_max_setpoint default_cv_config" by simp
  note c = pid_new_wf [OF assms(1,2) m]
  obtain c' r where r: "pid_compute lib 0 (f_mul (pc_max_setpoint default_cv_config) 10) 0
      (f_of_nat (unat (pc_output_max default_cv_config))) c = (c', r)"
    by fastforce
  obtain out where "r = Ok out"
    using pid_compute_limits(3) [OF assms(1) c(1) r] assms(3) r by (cases r) (force, metis snd_conv, simp)
  then show ?thesis
    using pid_compute_limits(4) [OF assms(1) c(1) r] r
    by (simp add: test_pid_compute_respects_output_limits_with_cv_defaults_def build_default_pid_def assms(2) c(2) Let_def)
qed

lemma test_new_gain_range_positive_slope_passes:
  assumes "\<And>x. near x x"
  shows "test_new_gain_range_positive_slope near = Ok ()"
proof -
  have "gr_slope (gain_range_new 10 20 1 2) = f_div (f_sub 2 1) (f_sub 20 10)"
    by code_simp+
  then show ?thesis by (simp add: test_new_gain_range_positive_slope_def assms Let_def)
qed

lemma test_new_gain_range_negative_slope_passes:
  assumes "\<And>x. near x x"
  shows "test_new_gain_range_negative_slope near = Ok ()"
proof -
  have "gr_slope (gain_range_new 50 100 5 0) = f_div (f_sub 0 5) (f_sub 100 50)"
    by code_simp+
  then show ?thesis by (simp add: test_new_gain_range_negative_slope_def assms Let_def)
qed

lemma test_new_gain_range_zero_slope_passes:
  assumes "\<And>x. near x x"
  shows "test_new_gain_range_zero_slope near = Ok ()"
proof -
  have "gr_slope (gain_range_new 0 10 3 3) = 0"
    by code_simp+
  then show ?thesis by (simp add: test_new_gain_range_zero_slope_def assms Let_def)
qed

lemma test_new_gain_range_empty_passes:
  assumes "\<And>x. near x x"
  shows "test_new_gain_range_empty near = Ok ()"
proof -
  have "gr_slope (gain_range_new 10 10 1 2) = 1"
    by code_simp+
  then show ?thesis by (simp add: test_new_gain_range_empty_def assms Let_def)
qed

lemma test_new_gain_range_flickering_empty_passes:
  assumes "\<And>x. near x x"
  shows "test_new_gain_range_flickering_empty near = Ok ()"
proof -
  have "gr_slope (gain_range_new 10 (f_add 10 (f_div F32_EPSILON 2)) 1 2) = 1"
    by code_simp+
  then show ?thesis by (simp add: test_new_gain_range_flickering_empty_def assms Let_def)
qed

lemma test_get_kp_passes:
  assumes "\<And>x. near x x"
  shows "test_get_kp near = Ok ()"
proof -
  have "get_kp (gain_range_new 10 20 1 2) 10 = 1" "get_kp (gain_range_new 10 20 1 2) 15 = (rnd (3 / 2))" "get_kp (gain_range_new 10 20 1 2) 20 = 2"
    by code_simp+
  then show ?thesis by (simp add: test_get_kp_def assms Let_def)
qed

lemma test_get_kp_extrapolation_passes:
  assumes "\<And>x. near x x"
  shows "test_get_kp_extrapolation near = Ok ()"
proof -
  have "get_kp (gain_range_new 10 20 1 2) 5 = (rnd (1 / 2))" "get_kp (gain_range_new 10 20 1 2) 30 = 3"
    by code_simp+
  then show ?thesis by (simp add: test_get_kp_extrapolation_def assms Let_def)
qed

lemma test_get_kp_zero_slope_passes:
  assumes "\<And>x. near x x"
  shows "test_get_kp_zero_slope near = Ok ()"
proof -
  have "get_kp (gain_range_new 0 10 3 3) 0 = 3" "get_kp (gain_range_new 0 10 3 3) 5 = 3" "get_kp (gain_range_new 0 10 3 3) 10 = 3" "get_kp (gain_range_new 0 10 3 3) 100 = 3"
    by code_simp+
  then show ?thesis by (simp add: test_get_kp_zero_slope_def assms Let_def)
qed

lemma test_contains_passes: "test_contains = Ok ()"
  by code_simp

lemma test_contains_empty_range_passes: "test_contains_empty_range = Ok ()"
  by code_simp

end
