(* ===== verification/Math_Tests.thy ===== *)
theory Math_Tests
  imports Speed_Table Filtered_Mean
begin

text \<open>
  The unit tests of the speed table (\<^verbatim>\<open>motor/src/speed/table.rs\<close>) and of the outlier filter
  (\<^verbatim>\<open>math/src/lib.rs\<close>) as computations over the models. The tests of the filter pass for every square
  root that is accurate to one percent and the rounding that \<^verbatim>\<open>libm\<close> documents.
\<close>

section \<open>The speed table\<close>

definition table_matches_index_in_simple_first_segment_case :: "(unit, unit) res" where
  "table_matches_index_in_simple_first_segment_case =
     (let cfg = \<lparr>tc_v_start = 1, tc_v_mid = 64, tc_v_high = 126\<rparr>
      in res_bind (build Dev cfg) (\<lambda>table.
         res_bind (assert (table =
           [0, 1, 17, 33, 50, 66, 82, 98, 115, 131, 147, 163, 180, 196, 212, 228, 245, 261,
            277, 293, 310, 326, 342, 358, 374, 391, 407, 423, 439, 456, 472, 488, 504, 521,
            537, 553, 569, 586, 602, 618, 634, 651, 667, 683, 699, 715, 732, 748, 764, 780,
            797, 813, 829, 845, 862, 878, 894, 910, 927, 943, 959, 975, 992, 1008, 1040, 1055,
            1071, 1087, 1103, 1118, 1134, 1150, 1166, 1181, 1197, 1213, 1229, 1244, 1260, 1276,
            1292, 1307, 1323, 1339, 1355, 1370, 1386, 1402, 1418, 1433, 1449, 1465, 1481, 1496,
            1512, 1528, 1544, 1559, 1575, 1591, 1607, 1622, 1638, 1654, 1670, 1685, 1701, 1717,
            1733, 1748, 1764, 1780, 1796, 1811, 1827, 1843, 1859, 1874, 1890, 1906, 1922, 1937,
            1953, 1969, 1985, 2000, 2016])) (\<lambda>_.
           assert (table ! 0 = 0 \<and> table ! 126 = 126 * 16))))"

definition two_segment_table_with_different_slopes :: "(unit, unit) res" where
  "two_segment_table_with_different_slopes =
     (let cfg = \<lparr>tc_v_start = 10, tc_v_mid = 50, tc_v_high = 200\<rparr>
      in res_bind (build Dev cfg) (\<lambda>table.
           assert (table ! 1 = 10 \<and> table ! 63 = 787 \<and> table ! 64 = 838 \<and> table ! 126 = 200 * 16)))"

lemmas table_eval = build_exact assert_def table_entry_def segment_start_def segment_end_def interp_def

lemma table_matches_index_in_simple_first_segment_case_passes:
  "table_matches_index_in_simple_first_segment_case = Ok ()"
  by (simp add: table_matches_index_in_simple_first_segment_case_def table_eval upt_rec)

lemma two_segment_table_with_different_slopes_passes: "two_segment_table_with_different_slopes = Ok ()"
  by (simp add: two_segment_table_with_different_slopes_def table_eval)

section \<open>The filter\<close>

text \<open>The test of one call.\<close>

definition expect_mean ::
  "(f32 \<Rightarrow> f32) \<Rightarrow> (f64 \<Rightarrow> f64) \<Rightarrow> u16 list \<Rightarrow> u16 \<Rightarrow> u16 option \<Rightarrow> (unit, unit) res" where
  "expect_mean sqrtf round64 data n expected = assert (filtered_mean sqrtf round64 data n = expected)"

definition test_empty_input :: "(f32 \<Rightarrow> f32) \<Rightarrow> (f64 \<Rightarrow> f64) \<Rightarrow> (unit, unit) res" where
  "test_empty_input sqrtf round64 = expect_mean sqrtf round64 [] 2 None"

definition test_single_element :: "(f32 \<Rightarrow> f32) \<Rightarrow> (f64 \<Rightarrow> f64) \<Rightarrow> (unit, unit) res" where
  "test_single_element sqrtf round64 = expect_mean sqrtf round64 [42] 2 (Some 42)"

definition test_identical_elements :: "(f32 \<Rightarrow> f32) \<Rightarrow> (f64 \<Rightarrow> f64) \<Rightarrow> (unit, unit) res" where
  "test_identical_elements sqrtf round64 = expect_mean sqrtf round64 [10, 10, 10, 10] 1 (Some 10)"

definition test_basic_outlier_removal :: "(f32 \<Rightarrow> f32) \<Rightarrow> (f64 \<Rightarrow> f64) \<Rightarrow> (unit, unit) res" where
  "test_basic_outlier_removal sqrtf round64 = expect_mean sqrtf round64 [10, 12, 11, 10, 100] 1 (Some 11)"

definition test_no_outliers_removed_with_high_tolerance :: "(f32 \<Rightarrow> f32) \<Rightarrow> (f64 \<Rightarrow> f64) \<Rightarrow> (unit, unit) res" where
  "test_no_outliers_removed_with_high_tolerance sqrtf round64 =
     expect_mean sqrtf round64 [10, 12, 11, 10, 50] 3 (Some 19)"

definition test_small_variance_precision :: "(f32 \<Rightarrow> f32) \<Rightarrow> (f64 \<Rightarrow> f64) \<Rightarrow> (unit, unit) res" where
  "test_small_variance_precision sqrtf round64 = expect_mean sqrtf round64 [10, 11] 2 (Some 11)"

definition test_two_distinct_clusters :: "(f32 \<Rightarrow> f32) \<Rightarrow> (f64 \<Rightarrow> f64) \<Rightarrow> (unit, unit) res" where
  "test_two_distinct_clusters sqrtf round64 = expect_mean sqrtf round64 [10, 10, 10, 30, 30, 30] 1 (Some 20)"

definition test_aggressive_filtering :: "(f32 \<Rightarrow> f32) \<Rightarrow> (f64 \<Rightarrow> f64) \<Rightarrow> (unit, unit) res" where
  "test_aggressive_filtering sqrtf round64 = expect_mean sqrtf round64 [40, 50, 60] 0 (Some 50)"

text \<open>What is needed of \<^verbatim>\<open>libm\<close>: \<^verbatim>\<open>sqrtf\<close> to one percent, \<^verbatim>\<open>round\<close> to the nearest integer, halves
  away from zero (for the non-negative arguments here).\<close>

definition sqrt_close :: "(f32 \<Rightarrow> f32) \<Rightarrow> bool" where
  "sqrt_close f \<longleftrightarrow> (\<forall>x \<ge> 0. 0 \<le> f x \<and> (98 / 100) * x \<le> (f x)\<^sup>2 \<and> (f x)\<^sup>2 \<le> (102 / 100) * x)"

definition rounds_half_away :: "(f64 \<Rightarrow> f64) \<Rightarrow> bool" where
  "rounds_half_away f \<longleftrightarrow> (\<forall>x \<ge> 0. f x = of_int \<lfloor>x + 1 / 2\<rfloor>)"

lemma rnd64_close: "0 \<le> y \<Longrightarrow> (99 / 100) * y \<le> rnd64 y \<and> rnd64 y \<le> (101 / 100) * y"
proof (cases "y = 0")
  case False
  assume "0 \<le> y"
  then have "\<bar>rnd64 y - y\<bar> \<le> y / 2 ^ 53" "y / 2 ^ 53 \<le> y / 100"
    using rnd64_error [of y] False by (simp_all add: frac_le)
  then have "\<bar>rnd64 y - y\<bar> \<le> y / 100" by (rule order.trans)
  then show ?thesis unfolding abs_le_iff by simp
qed (simp add: rnd64_def)

lemma threshold:
  assumes "sqrt_close f" "0 \<le> x" "0 \<le> n" "0 \<le> a"
  shows "a\<^sup>2 * (11 / 10) \<le> n\<^sup>2 * x \<Longrightarrow> a \<le> rnd64 (n * f x)"
    and "n\<^sup>2 * x * (11 / 10) < a\<^sup>2 \<Longrightarrow> rnd64 (n * f x) < a"
proof -
  let ?y = "n * f x"
  have f: "0 \<le> f x" "(98 / 100) * x \<le> (f x)\<^sup>2" "(f x)\<^sup>2 \<le> (102 / 100) * x"
    using assms(1,2) by (simp_all add: sqrt_close_def)
  have r: "(99 / 100) * ?y \<le> rnd64 ?y" "rnd64 ?y \<le> (101 / 100) * ?y"
    using rnd64_close [of ?y] f(1) assms(3) by simp_all
  have y: "(98 / 100) * (n\<^sup>2 * x) \<le> ?y\<^sup>2" "?y\<^sup>2 \<le> (102 / 100) * (n\<^sup>2 * x)"
    using mult_left_mono [OF f(2), of "n\<^sup>2"] mult_left_mono [OF f(3), of "n\<^sup>2"] by (simp_all add: power_mult_distrib algebra_simps)
  have y0: "0 \<le> ?y" using f(1) assms(3) by simp
  have nx: "0 \<le> n\<^sup>2 * x" using assms(2) by simp
  show "a \<le> rnd64 ?y" if "a\<^sup>2 * (11 / 10) \<le> n\<^sup>2 * x"
  proof -
    have "a\<^sup>2 \<le> ((99 / 100) * ?y)\<^sup>2" using that y(1) nx unfolding power_mult_distrib by (simp add: power2_eq_square)
    then have "a \<le> (99 / 100) * ?y" by (rule power2_le_imp_le) (use y0 in simp)
    then show ?thesis using r(1) by linarith
  qed
  show "rnd64 ?y < a" if "n\<^sup>2 * x * (11 / 10) < a\<^sup>2"
  proof -
    have "((101 / 100) * ?y)\<^sup>2 < a\<^sup>2" using that y(2) nx unfolding power_mult_distrib by (simp add: power2_eq_square)
    then have "(101 / 100) * ?y < a" by (rule power2_less_imp_less) (rule assms(4))
    then show ?thesis using r(2) by linarith
  qed
qed

lemma mean_rounded:
  assumes "rounds_half_away r" "0 \<le> q"
  shows "f_to_u16 (r (rnd64 q)) = f_to_u16 (of_int \<lfloor>rnd64 q + 1 / 2\<rfloor>)"
  using assms rnd64_close [OF assms(2)] by (simp add: rounds_half_away_def)

text \<open>The variances and means that occur, as they are rounded.\<close>

lemma rounded:
  "rnd (6377 / 4) = 6377 / 4" "rnd (1237 / 4) = 1237 / 4" "rnd 1 = 1" "rnd 120 = 120"
  "rnd64 0 = 0" "rnd64 1 = 1" "rnd64 2 = 2" "rnd64 3 = 3" "rnd64 4 = 4" "rnd64 5 = 5" "rnd64 6 = 6" "rnd64 10 = 10"
  "rnd64 21 = 21" "rnd64 40 = 40" "rnd64 43 = 43" "rnd64 50 = 50" "rnd64 93 = 93" "rnd64 120 = 120" "rnd64 600 = 600"
  "rnd64 1237 = 1237" "rnd64 6377 = 6377" "rnd64 (6377 / 4) = 6377 / 4" "rnd64 (1237 / 4) = 1237 / 4"
  by code_simp+

lemma rounded_means:
  "\<lfloor>rnd64 (43 / 4) + 1 / 2\<rfloor> = 11" "\<lfloor>rnd64 (93 / 5) + 1 / 2\<rfloor> = 19" "\<lfloor>rnd64 (21 / 2) + 1 / 2\<rfloor> = 11"
  "\<lfloor>41 / 2 :: rat\<rfloor> = 20" "\<lfloor>101 / 2 :: rat\<rfloor> = 50" "\<lfloor>21 / 2 :: rat\<rfloor> = 10" "rnd64 20 = 20"
  by code_simp+

lemmas mean_eval = expect_mean_def filtered_mean_def assert_def abs_diff_def Let_def rounded rounded_means

lemma test_empty_input_passes: "test_empty_input sqrtf round64 = Ok ()"
  by (simp add: test_empty_input_def mean_eval)

lemma test_single_element_passes: "test_single_element sqrtf round64 = Ok ()"
  by (simp add: test_single_element_def mean_eval)

lemma test_identical_elements_passes:
  assumes "sqrt_close sqrtf" "rounds_half_away round64"
  shows "test_identical_elements sqrtf round64 = Ok ()"
proof -
  have "0 \<le> (0 :: rat) \<longrightarrow> (sqrtf 0)\<^sup>2 \<le> (102 / 100) * 0" using assms(1) unfolding sqrt_close_def by blast
  then have "sqrtf 0 = 0" by simp
  then show ?thesis
    using mean_rounded [OF assms(2), of 10] by (simp add: test_identical_elements_def mean_eval f_to_u16_def)
qed

lemma test_basic_outlier_removal_passes:
  assumes "sqrt_close sqrtf" "rounds_half_away round64"
  shows "test_basic_outlier_removal sqrtf round64 = Ok ()"
proof -
  let ?t = "rnd64 (sqrtf (6377 / 4))"
  have "18 \<le> ?t" "?t < 72"
    using threshold [OF assms(1), of "6377 / 4" 1 18] threshold [OF assms(1), of "6377 / 4" 1 72] by simp_all
  then have "16 \<le> ?t" "17 \<le> ?t" "18 \<le> ?t" "\<not> 72 \<le> ?t" by simp_all
  then show ?thesis
    using mean_rounded [OF assms(2), of "43 / 4"] by (simp add: test_basic_outlier_removal_def mean_eval f_to_u16_def)
qed

lemma test_no_outliers_removed_with_high_tolerance_passes:
  assumes "sqrt_close sqrtf" "rounds_half_away round64"
  shows "test_no_outliers_removed_with_high_tolerance sqrtf round64 = Ok ()"
proof -
  let ?t = "rnd64 (3 * sqrtf (1237 / 4))"
  have "32 \<le> ?t" using threshold(1) [OF assms(1), of "1237 / 4" 3 32] by simp
  then have "6 \<le> ?t" "7 \<le> ?t" "8 \<le> ?t" "32 \<le> ?t" by simp_all
  then show ?thesis
    using mean_rounded [OF assms(2), of "93 / 5"]
    by (simp add: test_no_outliers_removed_with_high_tolerance_def mean_eval f_to_u16_def)
qed

lemma test_small_variance_precision_passes:
  assumes "sqrt_close sqrtf" "rounds_half_away round64"
  shows "test_small_variance_precision sqrtf round64 = Ok ()"
proof -
  let ?t = "rnd64 (2 * sqrtf 1)"
  have "1 \<le> ?t" using threshold(1) [OF assms(1), of 1 2 1] by simp
  then have "1 \<le> ?t" "0 \<le> ?t" by simp_all
  moreover have "(21 :: nat) div Suc (Suc 0) = 10" by (simp flip: numeral_2_eq_2)
  ultimately show ?thesis
    using mean_rounded [OF assms(2), of "21 / 2"] by (simp add: test_small_variance_precision_def mean_eval f_to_u16_def)
qed

lemma test_two_distinct_clusters_passes:
  assumes "sqrt_close sqrtf" "rounds_half_away round64"
  shows "test_two_distinct_clusters sqrtf round64 = Ok ()"
proof -
  have "10 \<le> rnd64 (sqrtf 120)" using threshold(1) [OF assms(1), of 120 1 10] by simp
  then show ?thesis
    using mean_rounded [OF assms(2), of 20] by (simp add: test_two_distinct_clusters_def mean_eval f_to_u16_def)
qed

lemma test_aggressive_filtering_passes:
  assumes "rounds_half_away round64"
  shows "test_aggressive_filtering sqrtf round64 = Ok ()"
  using mean_rounded [OF assms, of 50] by (simp add: test_aggressive_filtering_def mean_eval f_to_u16_def)

text \<open>All of them.\<close>

lemmas math_tests_pass =
  table_matches_index_in_simple_first_segment_case_passes two_segment_table_with_different_slopes_passes

end
