(* ===== verification/Spec2Isabelle.thy ===== *)
theory Spec2Isabelle
  imports Pio_Cycles Cv_Programming Emergency_Stop Boot Build_Script Handler_Tests Packet_Tests Accel_Tests Pid_Tests Math_Tests
begin

text \<open>
  A verification of the Rust firmware of the RP2040 DCC decoder (\<^verbatim>\<open>dcc-rp2040-rs/\<close>).

  \<^bold>\<open>The program.\<close> A locomotive decoder reads the DCC signal from the rails, decides whether a packet
  is for it, and drives the motor, the function outputs or its configuration variables (CVs). Bits
  are sampled and framed by a PIO program (\<^verbatim>\<open>application/src/transport/dcc_decoder.pio\<close>); the packets
  are checked and parsed (\<^verbatim>\<open>dcc/src/transport/\<close>), interpreted by a handler that also implements
  service mode (\<^verbatim>\<open>dcc/src/handler.rs\<close>), and the resulting operations go to the function outputs
  (\<^verbatim>\<open>application/src/functions/\<close>) and, over channels, to three motor tasks
  (\<^verbatim>\<open>application/src/motor/\<close>) that ramp the velocity and regulate the motor by its back EMF
  (\<^verbatim>\<open>motor/src/\<close>). The CVs live in flash (\<^verbatim>\<open>dcc/src/cv/\<close>, \<^verbatim>\<open>application/src/store/\<close>);
  \<^verbatim>\<open>application/src/main.rs\<close> reads them at the start and builds all parts.

  \<^bold>\<open>Theories and what they model.\<close>
  \<^item> \<^verbatim>\<open>Prelude\<close>: cargo profiles, results with errors and panics (\<^verbatim>\<open>res\<close>), state-passing bind,
    postconditions of steps, machine arithmetic, durations, slices.
  \<^item> \<^verbatim>\<open>F32\<close>: \<^verbatim>\<open>f32\<close> as rationals rounded to 24 bits, ties to even; no NaN, infinities or
    subnormals, which do not arise in the ranges used.
  \<^item> \<^verbatim>\<open>Motor_Types\<close>, \<^verbatim>\<open>Accel\<close>: \<^verbatim>\<open>motor/src/lib.rs\<close>, \<^verbatim>\<open>motor/src/speed/accel.rs\<close>.
  \<^item> \<^verbatim>\<open>Speed_Table\<close>, \<^verbatim>\<open>Startup\<close>, \<^verbatim>\<open>Pid\<close>, \<^verbatim>\<open>Speed_Control\<close>: \<^verbatim>\<open>table.rs\<close>, \<^verbatim>\<open>startup.rs\<close>,
    \<^verbatim>\<open>pid.rs\<close> and \<^verbatim>\<open>mod.rs\<close> of \<^verbatim>\<open>motor/src/speed/\<close>. The \<^verbatim>\<open>discrete_pid\<close> crate is a record of
    operations, of which only the documented output limits are assumed (\<^verbatim>\<open>pid_lib_limits\<close>).
  \<^item> \<^verbatim>\<open>Filtered_Mean\<close>: \<^verbatim>\<open>math/src/lib.rs\<close>, with libm's square root and rounding as parameters.
  \<^item> \<^verbatim>\<open>Motor_Driver\<close>: \<^verbatim>\<open>application/src/motor/mod.rs\<close>, over a record of PWM and ADC operations.
  \<^item> \<^verbatim>\<open>Motor_Tasks\<close>: \<^verbatim>\<open>application/src/motor/handler.rs\<close>; the loop bodies of the three tasks are
    functions of the event \<^verbatim>\<open>select\<close> returned, their interleaving is the relation
    \<^verbatim>\<open>system_step\<close>. \<^verbatim>\<open>Emergency_Stop\<close>: what an emergency stop keeps true in them.
  \<^item> \<^verbatim>\<open>Function_Flags\<close>: function groups and flags of \<^verbatim>\<open>dcc/src/lib.rs\<close>; \<^verbatim>\<open>Function_Outputs\<close>:
    \<^verbatim>\<open>application/src/functions/handler.rs\<close>.
  \<^item> \<^verbatim>\<open>Packet\<close>, \<^verbatim>\<open>Codec\<close>: \<^verbatim>\<open>dcc/src/transport/\<close>; \<^verbatim>\<open>Pio\<close>: the PIO program, bit by bit, and
    the reader of \<^verbatim>\<open>application/src/transport/pio_decoder.rs\<close>; \<^verbatim>\<open>Pio_Cycles\<close>: the text of the program,
    its assembly and configuration, and a PIO state machine cycle by cycle, which refines \<^verbatim>\<open>Pio\<close> for
    every waveform within the receiver tolerances.
  \<^item> \<^verbatim>\<open>Cv\<close>, \<^verbatim>\<open>Store\<close>: \<^verbatim>\<open>dcc/src/cv/\<close>; \<^verbatim>\<open>Flash_Store\<close>: \<^verbatim>\<open>application/src/store/mod.rs\<close>.
  \<^item> \<^verbatim>\<open>Timers\<close>: the trait \<^verbatim>\<open>Timer\<close> and \<^verbatim>\<open>application/src/timer.rs\<close>, \<^verbatim>\<open>timers.rs\<close>;
    \<^verbatim>\<open>Handler\<close>: \<^verbatim>\<open>dcc/src/handler.rs\<close>.
  \<^item> \<^verbatim>\<open>Packet_Task\<close>, \<^verbatim>\<open>Packet_Channel\<close>, \<^verbatim>\<open>Boot\<close>: the packet task, its channel from the decoder task
    with the turns the two take, and \<^verbatim>\<open>main\<close> of \<^verbatim>\<open>application/src/main.rs\<close>. \<^verbatim>\<open>Cv_Programming\<close>:
    the service-mode exchange through all of them, on a store that stays in step with its flash.
  \<^item> \<^verbatim>\<open>Build_Script\<close>: the expressions of the linker script that \<^verbatim>\<open>application/build.rs\<close> evaluates, the
    regions of \<^verbatim>\<open>application/memory.x\<close> and the store that \<^verbatim>\<open>main\<close> opens with them.
  \<^item> \<^verbatim>\<open>Testing\<close>: the mock store and timer of \<^verbatim>\<open>dcc/src/testing.rs\<close>; \<^verbatim>\<open>Handler_Tests\<close>,
    \<^verbatim>\<open>Packet_Tests\<close>, \<^verbatim>\<open>Accel_Tests\<close>, \<^verbatim>\<open>Pid_Tests\<close>, \<^verbatim>\<open>Math_Tests\<close>: the unit tests of
    \<^verbatim>\<open>dcc/src/handler.rs\<close>, \<^verbatim>\<open>dcc/src/transport/\<close> and \<^verbatim>\<open>dcc/src/cv/store.rs\<close>, \<^verbatim>\<open>accel.rs\<close>, \<^verbatim>\<open>pid.rs\<close> and
    \<^verbatim>\<open>table.rs\<close> of \<^verbatim>\<open>motor/src/speed/\<close> and \<^verbatim>\<open>math/src/lib.rs\<close>, each a computation over the model
    with a lemma that it passes.
  \<^item> This theory: the properties of the whole decoder.

  \<^bold>\<open>Correspondence.\<close> A struct is a record with the source's fields, an enum a datatype, a \<^verbatim>\<open>uN\<close> an
  N-bit word, \<^verbatim>\<open>usize\<close> a natural number with its 32-bit overflow written out, \<^verbatim>\<open>Result\<close> and a panic
  are the three constructors of \<^verbatim>\<open>res\<close>, \<^verbatim>\<open>&mut self\<close> is a state passed and returned. Overflow
  panics in the \<^verbatim>\<open>Dev\<close> profile and wraps in \<^verbatim>\<open>Release\<close>, as the profiles of the workspace say.
  \<^verbatim>\<open>Instant::now()\<close> is an argument. Traits (\<^verbatim>\<open>Store\<close>, \<^verbatim>\<open>Timer\<close>) are records of operations; the
  contracts their users rely on are the locales \<^verbatim>\<open>cv_store\<close> and \<^verbatim>\<open>service_timer\<close>, interpreted on the
  flash store and on the timer over the system clock; \<^verbatim>\<open>store_simulation\<close> relates two stores, and is
  interpreted on the flash store and the mock store.

  \<^bold>\<open>What is shown.\<close> The whole decoder: a start from any well-formed flash establishes the
  assumptions of all parts, and a decoder that has started never drives the bridge both ways, never
  runs the motor without a pending PID timer and does not panic (\<^verbatim>\<open>decoder_runs_safely\<close>,
  \<^verbatim>\<open>boot_establishes_contracts\<close>); a speed packet travels from the rails to the motor's level
  whatever noise surrounds it (\<^verbatim>\<open>speed_command_end_to_end\<close>), and an emergency stop switches the
  motor off and keeps it off until the next velocity (\<^verbatim>\<open>emergency_stop_end_to_end\<close>); a CV
  programmed from the rails is acknowledged and survives a restart (\<^verbatim>\<open>cv_programming_end_to_end\<close>). Packets: sampling and PIO framing, checksum,
  parsing, the channel between the packet tasks and the service-mode protocol, with what is obeyed,
  refused, acknowledged and stored (\<^verbatim>\<open>Pio\<close>, \<^verbatim>\<open>Pio_Cycles\<close>, \<^verbatim>\<open>Codec\<close>, \<^verbatim>\<open>Packet\<close>, \<^verbatim>\<open>Packet_Channel\<close>,
  \<^verbatim>\<open>Handler\<close>). CVs: reads return writes, writes survive a restart. Speed: the table is the rounded exact interpolation, the ramp moves one step at a time and arrives within 511 steps,
  the startup ramp reaches full power within 500 rounds, the gain schedule is accurate, the output is
  bounded. Tasks: an invariant over all interleavings, no level lost, channels typed and bounded.
  Outputs: they follow the set of active functions. The counterexamples found on the way are stated
  as theorems too (\<^verbatim>\<open>bit_write_bypasses_guards\<close>, \<^verbatim>\<open>flash_retry_masks_failure\<close>,
  \<^verbatim>\<open>accel_stop_reversal_runs_away\<close>, \<^verbatim>\<open>same_velocity_after_reset_ignored\<close>,
  \<^verbatim>\<open>velocity_lost_to_earlier_reset\<close>).

  \<^bold>\<open>Bounds.\<close> 511 steps are the largest distance between two signed 8-bit speeds plus one turn; 500
  computations are two passes over a ramp of 250 steps, the first of which may start anywhere; clock
  readings of the tasks lie before \<^verbatim>\<open>2 ^ 63\<close> microseconds; the system clock lies between 8.875 and
  652.74 MHz, so that the PWM top fits 16 bits with one ramp step to spare and a step is not 0,
  and a PIO cycle lasts between 2.49 and 2.51 us.
  Fuel is used only in the loops of the acceleration tests, where ten rounds are enough for each of
  them to end; every loop of the firmware that is modelled is over a finite input.

  \<^bold>\<open>Not modelled.\<close> The hardware abstraction (embassy, the ADC, PWM, flash and PIO drivers), the
  \<^verbatim>\<open>discrete_pid\<close> crate and libm are parameters. Left out are the logging macros (\<^verbatim>\<open>log.rs\<close> of
  each crate), the files \<^verbatim>\<open>application/build.rs\<close> copies and the regular expression it
  searches (its captures are a parameter), the depth of the PIO's receive FIFO, which the DMA is taken
  to keep from filling up, the executor's scheduling beyond the interleaving of steps, and the older C firmware under \<^verbatim>\<open>Software/\<close>.
\<close>

section \<open>The whole decoder\<close>



section \<open>From the rails to the motor\<close>

text \<open>The packets that reach the packet task from the levels of the pins: the PIO program, the DMA
  reader and the decoder task in a row.\<close>

definition rails_to_packets :: "nat \<Rightarrow> u32 \<Rightarrow> u32 \<Rightarrow> u32 \<Rightarrow> (nat \<Rightarrow> bool) list \<Rightarrow> packet list" where
  "rails_to_packets pin clk x y cycles = packet_decoder (line_read pin clk x y cycles)"

text \<open>What may surround a packet: idle packets, damaged packets, packets of other decoder classes.\<close>

definition noise :: "u8 list list \<Rightarrow> bool" where
  "noise ds \<longleftrightarrow> (\<forall>d \<in> set ds. 1 \<le> length d \<and> length d \<le> 7 \<and> (\<forall>q. decode d \<noteq> Ok (Some q)))"

lemma rails_to_packets_noise:
  assumes "pin < 32" "8875000 \<le> unat clk" "line_carries pin clk cycles ps" "\<forall>(k, d) \<in> set ps. 11 \<le> k"
    and ps: "map snd ps = ds @ with_checksum (pkt_data q) # es" "noise ds" "noise es" and "acceptable (pkt_data q)"
  shows "rails_to_packets pin clk x y cycles = [q]"
proof -
  have "1 \<le> length (with_checksum (pkt_data q))" "length (with_checksum (pkt_data q)) \<le> 7"
    using assms(8) by (simp_all add: with_checksum_def acceptable_def)
  then have "\<forall>d \<in> set (map snd ps). 1 \<le> length d \<and> length d \<le> 7"
    using ps(2,3) by (auto simp: ps(1) noise_def)
  then have "\<forall>(k, d) \<in> set ps. 11 \<le> k \<and> 1 \<le> length d \<and> length d \<le> 7" using assms(4) by auto
  then have "line_read pin clk x y cycles = map snd ps" by (rule line_reads_packets [OF assms(1-3)])
  moreover have "decode (with_checksum (pkt_data q)) = Ok (Some q)" using decode_accepts assms(8) by blast
  moreover have "packet_decoder ds = []" "packet_decoder es = []"
    using ps(2,3) by (simp_all add: noise_def packet_decoder_noise)
  ultimately show ?thesis by (simp add: rails_to_packets_def ps(1))
qed

text \<open>The packet task, fresh from the start, obeys a speed packet for its address.\<close>

lemma speed_packet_obeyed:
  assumes "flash_wf s" and h: "bt_handler b = handler_new instant_timer_new s"
    and addr: "addr = addr_of_cvs (flash_cvs s)" "unat addr \<le> 10239" and valid: "valid_velocity vel"
  shows "\<exists>a. packet_task_step instant_timer_ops (flash_store p fo) phw t0 t1
      (operation_packet addr [0x3F, speed_byte vel]) (spawn_packets b) = (a, Ok (Commands [SetVelocity128 vel]))
    \<and> fo_direction (ap_outputs a) = vs_direction vel"
proof -
  let ?q = "operation_packet addr [0x3F, speed_byte vel]"
  have small: "unat addr < 16384" using addr(2) by simp
  have "parse_operation ?q = Ok (AdvancedOperations (SpeedStepControl vel))"
    using parse_speed_byte [OF valid, of "0x3F" "[]"]
    by (simp add: parse_operation_payload [OF addr(2)] operation_instruction_type_of_def)
  moreover have "packet_addr ?q = Ok addr" using operation_packet_addr_roundtrip [OF small] addr(2) by simp
  moreover have "pkt_data ?q \<noteq> []" by (simp add: operation_packet_def)
  moreover have "\<not> is_reset ?q" using operation_packet_not_reset [OF small] by simp
  moreover have "\<not> in_window instant_timer_ops t0 (hd_timer (bt_handler b))"
    by (simp add: h handler_new_def in_window_def instant_timer_ops_def instant_timer_elapsed_ms_def instant_timer_new_def)
  moreover have "hd_store (bt_handler b) = s" by (simp add: h handler_new_def)
  ultimately have "device_handle p fo t0 t1 ?q (bt_handler b)
      = ((bt_handler b)\<lparr>hd_timer := instant_timer_stop (hd_timer (bt_handler b))\<rparr>, Ok (Some (Velocity128 vel)))"
    using handle_operation [of "bt_handler b" ?q t0 p fo t1] assms(1) addr(1) by simp
  then show ?thesis
    by (simp add: packet_task_step_def spawn_packets_def packet_task_init_def obey_def outputs_set_direction_def)
qed

text \<open>From the rails to the command, for any speed step.\<close>

lemma speed_packet_sent:
  assumes "flash_wf s" "bt_handler b = handler_new instant_timer_new s" "addr = addr_of_cvs (flash_cvs s)"
      "unat addr \<le> 10239" "valid_velocity vel" "8875000 \<le> unat clk"
    and line: "pin < 32" "line_carries pin clk cycles ps" "\<forall>(k, d) \<in> set ps. 11 \<le> k"
    and sent: "map snd ps = ds @ with_checksum (pkt_data (operation_packet addr [0x3F, speed_byte vel])) # es"
      "noise ds" "noise es"
    and turns: "arrivals turns = line_read pin clk x y cycles" "keeps_up 0 turns"
      "pl = pipeline_run instant_timer_ops (flash_store p fo) phw turns (pipeline_init (spawn_packets b))" "pl_queue pl = []"
  shows "pl_sent pl = [SetVelocity128 vel] \<and> fo_direction (ap_outputs (pl_task pl)) = vs_direction vel"
proof -
  let ?q = "operation_packet addr [0x3F, speed_byte vel]"
  have "acceptable (pkt_data ?q)" by (rule operation_packet_acceptable [OF assms(4)]) simp_all
  then have "rails_to_packets pin clk x y cycles = [?q]"
    by (rule rails_to_packets_noise [OF line(1) assms(6) line(2,3) sent])
  then have "packet_decoder (arrivals turns) = [?q]" by (simp add: rails_to_packets_def turns(1))
  then show ?thesis by (rule pipeline_single [OF _ turns(2-4)]) (rule speed_packet_obeyed [OF assms(1-5)])
qed





section \<open>Programming from the rails\<close>



section \<open>The unit tests\<close>


end
